(* ===== verification/Prelude.thy ===== *)
theory Prelude
  imports Main "HOL-Library.Word" "HOL-Library.AList" "HOL-Library.Multiset"
begin

unbundle bit_operations_syntax

text \<open>
  Shared vocabulary of the development: Rust's integer types as words, the
  little-endian byte codecs of \<open>to_le_bytes\<close>/\<open>from_le_bytes\<close>, decimal formatting of
  \<open>format!\<close>, UTF-8 validation of \<open>str::from_utf8\<close>, \<open>Read::read_exact\<close> on a byte
  list, the \<open>?\<close> operator as \<open>and_then\<close> on state-passing fallible actions, and the
  facts on association lists that the cache and map proofs share.
\<close>

section \<open>Integer types\<close>

type_synonym u8 = "8 word"
type_synonym u32 = "32 word"
type_synonym u64 = "64 word"

text \<open>\<open>usize\<close> counts and lengths are naturals; \<open>i32\<close>/\<open>i64\<close> values are integers, and the
  casts between them and the unsigned types are written out.\<close>

type_synonym usize = nat
type_synonym i32 = int
type_synonym i64 = int

definition u32_as_i32 :: "u32 \<Rightarrow> i32" where
  "u32_as_i32 x = sint x"

definition i32_as_u32 :: "i32 \<Rightarrow> u32" where
  "i32_as_u32 i = word_of_int i"

definition usize_as_u32 :: "usize \<Rightarrow> u32" where
  "usize_as_u32 n = word_of_nat n"

definition saturating_sub :: "'a::len word \<Rightarrow> 'a word \<Rightarrow> 'a word" where
  "saturating_sub x y = (if x < y then 0 else x - y)"

definition saturating_add :: "'a::len word \<Rightarrow> 'a word \<Rightarrow> 'a word" where
  "saturating_add x y = (if x + y < x then - 1 else x + y)"

lemma unat_saturating_sub: "unat (saturating_sub x y) = unat x - unat y"
  by (simp add: saturating_sub_def word_less_nat_alt unat_sub_if')

lemma sint_eq_unat: "unat (x::u32) < 2 ^ 31 \<Longrightarrow> sint x = int (unat x)"
proof -
  assume less: "unat x < 2 ^ 31"
  have "sint x = signed_take_bit 31 (int (unat x))" by (simp add: sint_uint)
  also have "\<dots> = int (unat x)" 
  proof (rule signed_take_bit_int_eq_self)
    have "0 \<le> int (unat x)" by (rule of_nat_0_le_iff)
    then show "- (2 ^ 31) \<le> int (unat x)" by (rule order_trans [rotated]) simp
    show "int (unat x) < 2 ^ 31" 
      using less of_nat_less_iff [where 'a = int, of "unat x" "2 ^ 31"]
      by (simp only: of_nat_power of_nat_numeral)
  qed
  finally show ?thesis .
qed

lemma i32_as_u32_roundtrip [simp]: "i32_as_u32 (u32_as_i32 x) = x"
  by (simp add: i32_as_u32_def u32_as_i32_def)

section \<open>Fallible state-passing actions\<close>

text \<open>\<open>Inl\<close> is Rust's \<open>Err\<close>, \<open>Inr\<close> its \<open>Ok\<close>. The state survives an error: an early
  return leaves every effect made so far in place.\<close>

type_synonym ('s, 'e, 'a) action = "'s \<Rightarrow> ('e + 'a) \<times> 's"

definition and_then ::
  "('s, 'e, 'a) action \<Rightarrow> ('a \<Rightarrow> ('s, 'e, 'b) action) \<Rightarrow> ('s, 'e, 'b) action" where
  "and_then m f s = (case m s of (Inl e, s') \<Rightarrow> (Inl e, s') | (Inr x, s') \<Rightarrow> f x s')"

definition ret :: "'a \<Rightarrow> ('s, 'e, 'a) action" where
  "ret x s = (Inr x, s)"

definition fail :: "'e \<Rightarrow> ('s, 'e, 'a) action" where
  "fail e s = (Inl e, s)"

lemma and_then_Inl [simp]: "m s = (Inl e, s') \<Longrightarrow> and_then m f s = (Inl e, s')"
  and and_then_Inr [simp]: "m s = (Inr x, s') \<Longrightarrow> and_then m f s = f x s'"
  by (simp_all add: and_then_def)

lemma and_then_InrE:
  assumes "and_then m f s = (Inr y, t)"
  obtains x s' where "m s = (Inr x, s')" "f x s' = (Inr y, t)"
  using assms by (auto simp: and_then_def split: prod.splits sum.splits)

lemma and_then_InlE:
  assumes "and_then m f s = (Inl e, t)"
  obtains "m s = (Inl e, t)" | x s' where "m s = (Inr x, s')" "f x s' = (Inl e, t)"
  using assms by (auto simp: and_then_def split: prod.splits sum.splits)

lemma ret_eq [simp]: "ret x s = (Inr x, s)" and fail_eq [simp]: "fail e s = (Inl e, s)"
  by (simp_all add: ret_def fail_def)

section \<open>Association lists\<close>

lemmas map_of_delete_upd = AList.delete_conv'

declare AList.distinct_delete [intro]

lemma set_delete: "set (AList.delete k xs) = {p \<in> set xs. fst p \<noteq> k}"
  by (auto simp: AList.delete_eq)

lemma length_delete_less:
  "k \<in> fst ` set xs \<Longrightarrow> length (AList.delete k xs) < length xs"
  by (induction xs) (auto simp: AList.delete_eq le_imp_less_Suc)

lemma length_delete_distinct:
  "distinct (map fst xs) \<Longrightarrow>
     length (AList.delete k xs) = (if k \<in> fst ` set xs then length xs - 1 else length xs)"
proof (induction xs)
  case (Cons p xs)
  show ?case
  proof (cases "fst p = k")
    case True
    with Cons.prems have "AList.delete k xs = xs" by (auto intro: AList.delete_id simp: image_iff)
    with True show ?thesis by (cases p) (simp add: AList.delete_eq)
  next
    case False
    with Cons show ?thesis
      by (cases p) (auto simp: AList.delete_eq dest: length_pos_if_in_set)
  qed
qed simp

lemma map_of_take_distinct:
  "distinct (map fst xs) \<Longrightarrow>
     map_of (take n xs) k = (if k \<in> fst ` set (drop n xs) then None else map_of xs k)"
proof -
  assume d: "distinct (map fst xs)"
  have split: "map_of xs k = (map_of (drop n xs) ++ map_of (take n xs)) k"
    by (metis append_take_drop_id map_of_append)
  from d have "fst ` set (take n xs) \<inter> fst ` set (drop n xs) = {}"
    by (metis append_take_drop_id distinct_append map_append set_map)
  then have "k \<in> fst ` set (drop n xs) \<Longrightarrow> map_of (take n xs) k = None"
    by (metis disjoint_iff map_of_eq_None_iff)
  moreover have "k \<notin> fst ` set (drop n xs) \<Longrightarrow> map_of (drop n xs) k = None"
    by (simp add: map_of_eq_None_iff)
  ultimately show ?thesis
    by (auto simp: split map_add_def split: option.splits)
qed

lemma map_le_iff: "m \<subseteq>\<^sub>m U \<longleftrightarrow> (\<forall>k v. m k = Some v \<longrightarrow> U k = Some v)"
  by (fastforce simp: map_le_def dom_def)

section \<open>Little-endian integers\<close>

fun nat_to_le :: "nat \<Rightarrow> nat \<Rightarrow> u8 list" where
  "nat_to_le 0 x = []"
| "nat_to_le (Suc n) x = word_of_nat (x mod 256) # nat_to_le n (x div 256)"

fun nat_from_le :: "u8 list \<Rightarrow> nat" where
  "nat_from_le [] = 0"
| "nat_from_le (b # bs) = unat b + 256 * nat_from_le bs"

definition u16_to_le :: "nat \<Rightarrow> u8 list" where
  "u16_to_le n = nat_to_le 2 (n mod 2 ^ 16)"

definition u32_to_le :: "u32 \<Rightarrow> u8 list" where
  "u32_to_le x = nat_to_le 4 (unat x)"

definition u64_to_le :: "u64 \<Rightarrow> u8 list" where
  "u64_to_le x = nat_to_le 8 (unat x)"

definition u32_from_le :: "u8 list \<Rightarrow> u32" where
  "u32_from_le bs = word_of_nat (nat_from_le bs)"

definition u64_from_le :: "u8 list \<Rightarrow> u64" where
  "u64_from_le bs = word_of_nat (nat_from_le bs)"

lemma length_nat_to_le [simp]: "length (nat_to_le n x) = n"
  by (induction n arbitrary: x) auto

lemma nat_from_to_le: "x < 256 ^ n \<Longrightarrow> nat_from_le (nat_to_le n x) = x"
proof (induction n arbitrary: x)
  case (Suc n)
  have "x div 256 < 256 ^ n" using Suc.prems by (simp add: less_mult_imp_div_less mult.commute)
  then have "nat_from_le (nat_to_le n (x div 256)) = x div 256" by (rule Suc.IH)
  then show ?case by (simp add: unat_of_nat take_bit_eq_mod)
qed simp

lemma nat_from_le_bound: "nat_from_le bs < 256 ^ length bs"
proof (induction bs)
  case (Cons b bs)
  have "unat b < 256" using unsigned_less [of b] by simp
  then show ?case using Cons by simp
qed simp

lemma length_u32_to_le [simp]: "length (u32_to_le x) = 4"
  and length_u64_to_le [simp]: "length (u64_to_le y) = 8"
  and length_u16_to_le [simp]: "length (u16_to_le n) = 2"
  by (simp_all add: u32_to_le_def u64_to_le_def u16_to_le_def)

lemma u32_le_roundtrip [simp]: "u32_from_le (u32_to_le x) = x"
proof -
  have "unat x < 256 ^ 4" using unsigned_less [of x] by simp
  then show ?thesis by (simp add: u32_from_le_def u32_to_le_def nat_from_to_le)
qed

lemma u64_le_roundtrip [simp]: "u64_from_le (u64_to_le x) = x"
proof -
  have "unat x < 256 ^ 8" using unsigned_less [of x] by simp
  then show ?thesis by (simp add: u64_from_le_def u64_to_le_def nat_from_to_le)
qed

lemma u16_le_roundtrip: "n < 65536 \<Longrightarrow> nat_from_le (u16_to_le n) = n"
  using nat_from_to_le [of n 2] by (simp add: u16_to_le_def)

section \<open>Decimal formatting and strings as bytes\<close>

fun dec_digit :: "nat \<Rightarrow> char" where
  "dec_digit n = char_of (48 + n)"

function nat_to_dec :: "nat \<Rightarrow> string" where
  "nat_to_dec n = (if n < 10 then [dec_digit n] else nat_to_dec (n div 10) @ [dec_digit (n mod 10)])"
  by pat_completeness auto
termination by (relation "measure id") auto

declare nat_to_dec.simps [simp del]

definition u32_to_dec :: "u32 \<Rightarrow> string" where
  "u32_to_dec x = nat_to_dec (unat x)"

definition string_to_bytes :: "string \<Rightarrow> u8 list" where
  "string_to_bytes s = map (\<lambda>c. word_of_nat (of_char c)) s"

definition bytes_to_string :: "u8 list \<Rightarrow> string" where
  "bytes_to_string bs = map (\<lambda>b. char_of (unat b)) bs"

lemma length_string_to_bytes [simp]: "length (string_to_bytes s) = length s"
  by (simp add: string_to_bytes_def)

lemma bytes_string_roundtrip [simp]: "bytes_to_string (string_to_bytes s) = s"
proof -
  have "char_of (unat (word_of_nat (of_char c) :: u8)) = c" for c
    by (simp add: unat_of_nat take_bit_eq_mod)
  then show ?thesis by (simp add: bytes_to_string_def string_to_bytes_def o_def)
qed

fun dec_value :: "string \<Rightarrow> nat" where
  "dec_value s = foldl (\<lambda>acc c. acc * 10 + (of_char c - 48)) 0 s"

lemma dec_value_nat_to_dec: "dec_value (nat_to_dec n) = n"
proof (induction n rule: nat_to_dec.induct)
  case (1 n)
  show ?case
  proof (cases "n < 10")
    case True
    then show ?thesis by (subst nat_to_dec.simps) simp
  next
    case False
    then have "dec_value (nat_to_dec (n div 10)) = n div 10" by (rule 1)
    then show ?thesis using False by (subst nat_to_dec.simps) simp
  qed
qed

lemma u32_to_dec_inject [simp]: "u32_to_dec x = u32_to_dec y \<longleftrightarrow> x = y"
  by (metis dec_value_nat_to_dec u32_to_dec_def word_unat_eq_iff)

lemma colon_notin_nat_to_dec: "CHR '':'' \<notin> set (nat_to_dec n)"
proof (induction n rule: nat_to_dec.induct)
  case (1 n)
  have digit: "dec_digit d \<noteq> CHR '':''" if "d < 10" for d
  proof
    assume "dec_digit d = CHR '':''"
    then have "of_char (dec_digit d) = (58::nat)" by simp
    with that show False by simp
  qed
  show ?case
    by (subst nat_to_dec.simps) (use 1 digit [of n] digit [of "n mod 10"] in auto)
qed

section \<open>UTF-8 validation (str::from_utf8)\<close>

definition utf8_cont :: "u8 \<Rightarrow> bool" where
  "utf8_cont b \<longleftrightarrow> 0x80 \<le> b \<and> b \<le> 0xBF"

fun utf8_valid :: "u8 list \<Rightarrow> bool" where
  "utf8_valid [] = True"
| "utf8_valid (a # bs) =
     (if a < 0x80 then utf8_valid bs
      else case bs of
        [] \<Rightarrow> False
      | b # cs \<Rightarrow>
        if 0xC2 \<le> a \<and> a \<le> 0xDF then utf8_cont b \<and> utf8_valid cs
        else case cs of
          [] \<Rightarrow> False
        | c # ds \<Rightarrow>
          if a = 0xE0 then 0xA0 \<le> b \<and> b \<le> 0xBF \<and> utf8_cont c \<and> utf8_valid ds
          else if a = 0xED then 0x80 \<le> b \<and> b \<le> 0x9F \<and> utf8_cont c \<and> utf8_valid ds
          else if 0xE1 \<le> a \<and> a \<le> 0xEF then utf8_cont b \<and> utf8_cont c \<and> utf8_valid ds
          else case ds of
            [] \<Rightarrow> False
          | d # es \<Rightarrow>
            if a = 0xF0 then 0x90 \<le> b \<and> b \<le> 0xBF \<and> utf8_cont c \<and> utf8_cont d \<and> utf8_valid es
            else if a = 0xF4 then 0x80 \<le> b \<and> b \<le> 0x8F \<and> utf8_cont c \<and> utf8_cont d \<and> utf8_valid es
            else if 0xF1 \<le> a \<and> a \<le> 0xF3 then utf8_cont b \<and> utf8_cont c \<and> utf8_cont d \<and> utf8_valid es
            else False)"

lemma utf8_valid_ascii: "(\<forall>b\<in>set bs. b < 0x80) \<Longrightarrow> utf8_valid bs"
  by (induction bs) auto

section \<open>Reading from a byte stream\<close>

text \<open>\<open>read_exact\<close> either fills the whole buffer or fails with \<open>UnexpectedEof\<close> (\<open>None\<close>).\<close>

definition read_exact :: "usize \<Rightarrow> u8 list \<Rightarrow> (u8 list \<times> u8 list) option" where
  "read_exact n bs = (if length bs < n then None else Some (take n bs, drop n bs))"

lemma read_exact_append [simp]:
  "length xs = n \<Longrightarrow> read_exact n (xs @ ys) = Some (xs, ys)"
  by (auto simp: read_exact_def)

lemma read_exact_Some:
  "read_exact n bs = Some (xs, ys) \<Longrightarrow> bs = xs @ ys \<and> length xs = n"
  by (auto simp: read_exact_def split: if_splits)

end
