(* ===== verification/Models.thy ===== *)
theory Models
  imports Prelude
begin

text \<open>
  The data that crosses the layers of the program: the domain records of
  \<open>src/src/domain/models.rs\<close>, the error type of \<open>src/src/writer/error.rs\<close>, and the
  interface of the third-party \<open>bitcoin\<close> crate. The crate is not part of the repository,
  so its hashing, formatting and script-classification functions are the fields of the
  parameter record \<open>btc\<close>; only the plain data it parses (transactions, outputs, headers)
  is spelled out, with the fields the program reads.
\<close>

section \<open>The bitcoin crate as a parameter\<close>

type_synonym script = "u8 list"
type_synonym hash = "u8 list"

datatype network = Bitcoin | Testnet | Signet | Regtest

record outpoint =
  op_txid :: hash
  op_vout :: u32

record tx_in =
  ti_previous_output :: outpoint
  ti_script_sig :: script
  ti_sequence :: u32
  ti_witness :: "u8 list list"

record tx_out =
  to_value :: u64
  to_script_pubkey :: script

record btc_tx =
  tx_version :: i32
  tx_lock_time :: u32
  tx_input :: "tx_in list"
  tx_output :: "tx_out list"

record block_header =
  hd_version :: i32
  hd_prev_blockhash :: hash
  hd_merkle_root :: hash
  hd_time :: u32
  hd_bits :: u32
  hd_nonce :: u32

record btc_block =
  bl_header :: block_header
  bl_txdata :: "btc_tx list"

text \<open>An item of \<open>Script::instructions()\<close>: a data push, an opcode, or a decoding error.\<close>

datatype instruction = PushBytes "u8 list" | Op u8 | InstrErr

text \<open>Addresses are used by the program only through \<open>to_string\<close>, so an address is its
  display string.\<close>

record btc =
  btc_txid :: "btc_tx \<Rightarrow> hash"
  btc_is_coinbase :: "btc_tx \<Rightarrow> bool"
  btc_tx_size :: "btc_tx \<Rightarrow> usize"
  btc_tx_vsize :: "btc_tx \<Rightarrow> usize"
  btc_tx_weight :: "btc_tx \<Rightarrow> usize"
  btc_block_hash :: "btc_block \<Rightarrow> hash"
  btc_block_size :: "btc_block \<Rightarrow> u64"
  btc_block_weight :: "btc_block \<Rightarrow> u64"
  btc_hash_to_string :: "hash \<Rightarrow> string"
  btc_txid_from_str :: "string \<Rightarrow> hash option"
  btc_hex :: "u8 list \<Rightarrow> string"
  btc_bits_string :: "u32 \<Rightarrow> string"
  btc_is_op_return :: "script \<Rightarrow> bool"
  btc_is_p2pkh :: "script \<Rightarrow> bool"
  btc_is_p2sh :: "script \<Rightarrow> bool"
  btc_is_p2wpkh :: "script \<Rightarrow> bool"
  btc_is_p2wsh :: "script \<Rightarrow> bool"
  btc_is_witness_program :: "script \<Rightarrow> bool"
  btc_witness_version :: "script \<Rightarrow> nat option"
  btc_address_from_script :: "script \<Rightarrow> network \<Rightarrow> string option"
  btc_instructions :: "script \<Rightarrow> instruction list"
  btc_pubkey_from_slice :: "u8 list \<Rightarrow> (u8 list) option"
  btc_address_p2pkh :: "u8 list \<Rightarrow> network \<Rightarrow> string"

text \<open>What the program relies on of \<open>Txid\<close>'s text form: parsing the displayed hash gives
  it back, and a displayed hash is hexadecimal (it contains no colon).\<close>

definition txid_text_ok :: "btc \<Rightarrow> bool" where
  "txid_text_ok B \<longleftrightarrow>
     (\<forall>t. btc_txid_from_str B (btc_hash_to_string B t) = Some t) \<and>
     (\<forall>t. CHR '':'' \<notin> set (btc_hash_to_string B t))"

section \<open>Domain records\<close>

text \<open>An \<open>f64\<close> is kept as the expression that computes it: a conversion, a quotient, a product or
  an integer power. The program stores the value and never compares or rounds it.\<close>

datatype f64 =
    F64_of u32
  | F64_div f64 f64
  | F64_mul f64 f64
  | F64_powi f64 i32

text \<open>\<open>BlockData\<close>\<close>

record block_data =
  bd_height :: u32
  bd_hash :: string
  bd_previous_hash :: string
  bd_merkle_root :: string
  bd_timestamp :: i64
  bd_bits :: string
  bd_difficulty :: f64
  bd_nonce :: u32
  bd_version :: i32
  bd_tx_count :: u32
  bd_size :: u64
  bd_weight :: u64

record transaction_data =
  td_txid :: string
  td_block_height :: u32
  td_block_hash :: string
  td_timestamp :: i64
  td_version :: i32
  td_locktime :: u32
  td_size :: usize
  td_vsize :: usize
  td_weight :: usize
  td_is_coinbase :: bool
  td_total_input :: "u64 option"
  td_total_output :: "u64 option"
  td_fee :: "u64 option"

record output_data =
  od_output_id :: string
  od_output_index :: u32
  od_txid :: string
  od_amount :: u64
  od_script_pubkey :: string
  od_script_type :: string
  od_address :: "string option"

record input_data =
  id_input_id :: string
  id_input_index :: u32
  id_txid :: string
  id_previous_txid :: string
  id_previous_output_index :: u32
  id_script_sig :: string
  id_sequence :: u32
  id_witness :: "string list"
  id_block_height :: u32

record checkpoint_data =
  cp_last_processed_height :: i32
  cp_last_processed_hash :: string
  cp_last_processed_file :: string
  cp_last_processed_file_offset :: "u64 option"
  cp_timestamp :: i64
  cp_status :: string

record performs_data =
  pd_from_address :: string
  pd_to_txid :: string
  pd_input_count :: u32
  pd_amount_spent :: u64

record benefits_to_data =
  ben_from_txid :: string
  ben_to_address :: string
  ben_output_count :: u32
  ben_amount_received :: u64

record output_lookup_result =
  olr_output_id :: string
  olr_output_index :: u32
  olr_amount :: u64
  olr_script_type :: string
  olr_address :: "string option"

section \<open>Writer errors\<close>

text \<open>The text of a message is abstracted to the place that builds it and the values it
  interpolates; \<open>Msg\<close> is any other text, and \<open>Panicked\<close> stands for a panic that unwinds through the call.\<close>

datatype err_msg =
    CacheMissFor string
  | SameBlockMissFor string
  | MissingUtxosInCache nat nat "string list"
  | MissingAfterFallback nat nat "string list"
  | BlockNotFound u32
  | Msg string
  | Panicked

datatype werror =
    OutputNotFound string
  | ConnectionFailed err_msg
  | QueryFailed err_msg
  | CheckpointError err_msg
  | SerializationError err_msg
  | DatabaseError err_msg
  | ConstraintViolation err_msg
  | TransactionFailed err_msg
  | ReorgDetected u32 string string

fun is_retryable :: "werror \<Rightarrow> bool" where
  "is_retryable (QueryFailed _) = True"
| "is_retryable (ConnectionFailed _) = True"
| "is_retryable _ = False"

type_synonym 'a wresult = "werror + 'a"

section \<open>A concrete instance of the bitcoin interface\<close>

text \<open>Hexadecimal text for hashes, the standard byte patterns for the script classes, and
  structural stand-ins for the hashes and sizes. It shows that the hypotheses on \<open>btc\<close> can
  hold, and the witnesses run on it.\<close>

definition hex_digit :: "nat \<Rightarrow> char" where
  "hex_digit n = (if n < 10 then char_of (48 + n) else char_of (87 + n))"

definition hex_value :: "char \<Rightarrow> nat" where
  "hex_value c = (if of_char c < (58::nat) then of_char c - 48 else of_char c - 87)"

fun hex_encode :: "u8 list \<Rightarrow> string" where
  "hex_encode [] = []"
| "hex_encode (b # bs) = hex_digit (unat b div 16) # hex_digit (unat b mod 16) # hex_encode bs"

fun hex_decode :: "string \<Rightarrow> u8 list option" where
  "hex_decode [] = Some []"
| "hex_decode [c] = None"
| "hex_decode (c # d # cs) =
     map_option (\<lambda>bs. word_of_nat (hex_value c * 16 + hex_value d) # bs) (hex_decode cs)"

lemma hex_value_digit: "n < 16 \<Longrightarrow> hex_value (hex_digit n) = n"
  by (auto simp: hex_value_def hex_digit_def)

lemma hex_roundtrip: "hex_decode (hex_encode bs) = Some bs"
proof (induction bs)
  case (Cons b bs)
  have "unat b < 256" using unsigned_less [of b] by simp
  then have "hex_value (hex_digit (unat b div 16)) * 16 + hex_value (hex_digit (unat b mod 16)) = unat b"
    by (simp add: hex_value_digit less_mult_imp_div_less)
  then show ?case using Cons by simp
qed simp

lemma hex_digit_not_colon: "n < 16 \<Longrightarrow> hex_digit n \<noteq> CHR '':''"
proof
  assume "n < 16" "hex_digit n = CHR '':''"
  then have "of_char (hex_digit n) = (58::nat)" by simp
  with \<open>n < 16\<close> show False by (auto simp: hex_digit_def split: if_splits)
qed

lemma colon_notin_hex: "CHR '':'' \<notin> set (hex_encode bs)"
proof (induction bs)
  case (Cons b bs)
  have "unat b < 256" using unsigned_less [of b] by simp
  then have "unat b div 16 < 16" by (simp add: less_mult_imp_div_less)
  then show ?case using Cons hex_digit_not_colon [of "unat b div 16"] hex_digit_not_colon [of "unat b mod 16"] by auto
qed simp

definition ex_btc :: btc where
  "ex_btc =
     \<lparr> btc_txid = (\<lambda>t. replicate 28 0 @ u32_to_le (tx_lock_time t)),
       btc_is_coinbase = (\<lambda>t. case tx_input t of [i] \<Rightarrow> op_vout (ti_previous_output i) = - 1 | _ \<Rightarrow> False),
       btc_tx_size = (\<lambda>t. 10 + length (tx_input t) + length (tx_output t)),
       btc_tx_vsize = (\<lambda>t. 10 + length (tx_input t) + length (tx_output t)),
       btc_tx_weight = (\<lambda>t. 40),
       btc_block_hash = (\<lambda>b. replicate 28 0 @ u32_to_le (hd_nonce (bl_header b))),
       btc_block_size = (\<lambda>b. 80),
       btc_block_weight = (\<lambda>b. 320),
       btc_hash_to_string = hex_encode,
       btc_txid_from_str = hex_decode,
       btc_hex = hex_encode,
       btc_bits_string = u32_to_dec,
       btc_is_op_return = (\<lambda>s. take 1 s = [0x6A]),
       btc_is_p2pkh = (\<lambda>s. length s = 25 \<and> take 3 s = [0x76, 0xA9, 0x14]),
       btc_is_p2sh = (\<lambda>s. length s = 23 \<and> take 2 s = [0xA9, 0x14]),
       btc_is_p2wpkh = (\<lambda>s. length s = 22 \<and> take 2 s = [0, 0x14]),
       btc_is_p2wsh = (\<lambda>s. length s = 34 \<and> take 2 s = [0, 0x20]),
       btc_is_witness_program = (\<lambda>s. 4 \<le> length s \<and> hd s \<in> {0, 0x51} \<and> unat (s ! 1) = length s - 2),
       btc_witness_version = (\<lambda>s. case s of [] \<Rightarrow> None | b # _ \<Rightarrow> if b = 0 then Some 0 else if b = 0x51 then Some 1 else None),
       btc_address_from_script = (\<lambda>s n. if length s < 22 then None else Some (hex_encode s)),
       btc_instructions = (\<lambda>s. case s of [] \<Rightarrow> [] | b # bs \<Rightarrow>
          if unat b \<le> 75 \<and> unat b \<le> length bs then PushBytes (take (unat b) bs) # map Op (drop (unat b) bs) else map Op s),
       btc_pubkey_from_slice = (\<lambda>bs. if length bs \<in> {33, 65} then Some bs else None),
       btc_address_p2pkh = (\<lambda>pk n. CHR ''1'' # hex_encode pk) \<rparr>"

lemma ex_btc_text_ok: "txid_text_ok ex_btc"
  by (simp add: txid_text_ok_def ex_btc_def hex_roundtrip colon_notin_hex)

end
