(* ===== verification/LruInterface.thy ===== *)
theory LruInterface
  imports Prelude
begin

text \<open>
  The third-party \<open>lru\<close> crate as an interface. \<open>LruCache\<close> is not part of the repository:
  its operations are the fields of a parameter record, and the locale \<open>lru\<close> states the
  documented behaviour that the UTXO cache relies on, in terms of the list that
  \<open>LruCache::iter\<close> visits (most recently used first). A list-based reference
  implementation shows that the laws can hold together.
\<close>

section \<open>Operations and laws\<close>

record ('c, 'k, 'v) lru_ops =
  lru_new :: "usize \<Rightarrow> 'c"
  lru_put :: "'k \<Rightarrow> 'v \<Rightarrow> 'c \<Rightarrow> 'c"
  lru_get :: "'k \<Rightarrow> 'c \<Rightarrow> 'v option \<times> 'c"
  lru_pop :: "'k \<Rightarrow> 'c \<Rightarrow> 'v option \<times> 'c"
  lru_peek :: "'k \<Rightarrow> 'c \<Rightarrow> 'v option"
  lru_len :: "'c \<Rightarrow> usize"
  lru_cap :: "'c \<Rightarrow> usize"
  lru_iter :: "'c \<Rightarrow> ('k \<times> 'v) list"

text \<open>A value is well formed when its keys are distinct and fit the (positive) capacity.\<close>

definition lru_ok :: "('c, 'k, 'v) lru_ops \<Rightarrow> 'c \<Rightarrow> bool" where
  "lru_ok L c \<longleftrightarrow> distinct (map fst (lru_iter L c)) \<and>
     length (lru_iter L c) \<le> lru_cap L c \<and> 0 < lru_cap L c"

text \<open>The documented effect on the recency list: a lookup moves the entry to the front, an
  insertion puts it there and evicts the last entry when the capacity is exceeded.\<close>

definition promote :: "'k \<Rightarrow> ('k \<times> 'v) list \<Rightarrow> ('k \<times> 'v) list" where
  "promote k xs = (case map_of xs k of None \<Rightarrow> xs | Some v \<Rightarrow> (k, v) # AList.delete k xs)"

definition put_front :: "usize \<Rightarrow> 'k \<Rightarrow> 'v \<Rightarrow> ('k \<times> 'v) list \<Rightarrow> ('k \<times> 'v) list" where
  "put_front n k v xs = take n ((k, v) # AList.delete k xs)"

locale lru =
  fixes L :: "('c, 'k, 'v) lru_ops"
  assumes new_iter: "0 < n \<Longrightarrow> lru_iter L (lru_new L n) = []"
    and new_cap: "0 < n \<Longrightarrow> lru_cap L (lru_new L n) = n"
    and put_iter: "lru_ok L c \<Longrightarrow> lru_iter L (lru_put L k v c) = put_front (lru_cap L c) k v (lru_iter L c)"
    and put_cap: "lru_ok L c \<Longrightarrow> lru_cap L (lru_put L k v c) = lru_cap L c"
    and get_value: "lru_ok L c \<Longrightarrow> fst (lru_get L k c) = map_of (lru_iter L c) k"
    and get_iter: "lru_ok L c \<Longrightarrow> lru_iter L (snd (lru_get L k c)) = promote k (lru_iter L c)"
    and get_cap: "lru_ok L c \<Longrightarrow> lru_cap L (snd (lru_get L k c)) = lru_cap L c"
    and pop_value: "lru_ok L c \<Longrightarrow> fst (lru_pop L k c) = map_of (lru_iter L c) k"
    and pop_iter: "lru_ok L c \<Longrightarrow> lru_iter L (snd (lru_pop L k c)) = AList.delete k (lru_iter L c)"
    and pop_cap: "lru_ok L c \<Longrightarrow> lru_cap L (snd (lru_pop L k c)) = lru_cap L c"
    and peek_value: "lru_ok L c \<Longrightarrow> lru_peek L k c = map_of (lru_iter L c) k"
    and len_eq: "lru_ok L c \<Longrightarrow> lru_len L c = length (lru_iter L c)"

section \<open>Facts on recency lists\<close>

lemma map_of_promote: "map_of (promote k xs) = map_of xs"
  by (auto simp: promote_def fun_eq_iff map_of_delete_upd split: option.split)

lemma set_promote: "distinct (map fst xs) \<Longrightarrow> set (promote k xs) = set xs"
  by (auto simp: promote_def set_delete split: option.split dest: map_of_SomeD eq_key_imp_eq_value)

lemma fst_set_promote: "fst ` set (promote k xs) = fst ` set xs"
  by (metis dom_map_of_conv_image_fst map_of_promote)

lemma distinct_promote: "distinct (map fst xs) \<Longrightarrow> distinct (map fst (promote k xs))"
  by (auto simp: promote_def set_delete split: option.split)

lemma length_promote: "distinct (map fst xs) \<Longrightarrow> length (promote k xs) = length xs"
  by (metis distinct_promote fst_set_promote distinct_card length_map set_map)

lemma distinct_put_front: "distinct (map fst xs) \<Longrightarrow> distinct (map fst (put_front n k v xs))"
  by (auto simp: put_front_def take_map [symmetric] set_delete intro!: distinct_take)

lemma length_put_front: "length (put_front n k v xs) \<le> n"
  by (simp add: put_front_def)

lemma set_put_front: "fst ` set (put_front n k v xs) \<subseteq> insert k (fst ` set xs)"
  by (auto simp: put_front_def set_delete dest!: in_set_takeD)

lemma put_front_same: "0 < n \<Longrightarrow> map_of (put_front n k v xs) k = Some v"
  by (cases n) (auto simp: put_front_def)

text \<open>Without eviction an insertion is a map update.\<close>

lemma put_front_no_evict:
  assumes "distinct (map fst xs)" "length xs < n \<or> k \<in> fst ` set xs \<and> length xs \<le> n"
  shows "put_front n k v xs = (k, v) # AList.delete k xs"
proof -
  have "length (AList.delete k xs) < n"
    using assms length_delete_le [of k xs] length_delete_less [of k xs] by linarith
  then show ?thesis by (simp add: put_front_def)
qed

text \<open>A full list loses exactly its least recently used entry.\<close>

lemma put_front_evict:
  assumes "distinct (map fst xs)" "length xs = n" "0 < n" "k \<notin> fst ` set xs"
  shows "put_front n k v xs = (k, v) # butlast xs"
  using assms by (cases n) (auto simp: put_front_def butlast_conv_take)

lemma map_of_butlast_distinct:
  assumes "distinct (map fst xs)" "xs \<noteq> []"
  shows "map_of (butlast xs) k = (if k = fst (last xs) then None else map_of xs k)"
proof -
  from assms(2) obtain ys p where xs: "xs = ys @ [p]" by (metis append_butlast_last_id)
  have "fst p \<notin> fst ` set ys" using assms(1) by (auto simp: xs)
  then show ?thesis
    by (cases p) (auto simp: xs map_of_append map_add_def map_of_eq_None_iff split: option.splits)
qed

lemma put_front_other:
  assumes "k' \<noteq> k" "distinct (map fst xs)"
  shows "map_of (put_front n k v xs) k' \<in> {None, map_of xs k'}"
proof -
  have "distinct (map fst ((k, v) # AList.delete k xs))"
    using assms by (auto simp: set_delete AList.distinct_delete)
  then have "map_of (put_front n k v xs) k' \<in> {None, map_of ((k, v) # AList.delete k xs) k'}"
    unfolding put_front_def by (subst map_of_take_distinct) auto
  then show ?thesis using assms(1) by simp
qed

section \<open>Consequences of the laws\<close>

context lru
begin

lemma new_ok: "0 < n \<Longrightarrow> lru_ok L (lru_new L n)"
  by (simp add: lru_ok_def new_iter new_cap)

lemma put_ok: "lru_ok L c \<Longrightarrow> lru_ok L (lru_put L k v c)"
  using length_put_front by (auto simp: lru_ok_def put_iter put_cap distinct_put_front)

lemma get_ok: "lru_ok L c \<Longrightarrow> lru_ok L (snd (lru_get L k c))"
  by (simp add: lru_ok_def get_iter get_cap distinct_promote length_promote)

lemma pop_ok: "lru_ok L c \<Longrightarrow> lru_ok L (snd (lru_pop L k c))"
  using length_delete_le [of k "lru_iter L c"]
  by (auto simp: lru_ok_def pop_iter pop_cap AList.distinct_delete)

lemmas lru_value = get_value pop_value peek_value len_eq
lemmas lru_iters = new_iter put_iter get_iter pop_iter
lemmas lru_caps = new_cap put_cap get_cap pop_cap
lemmas lru_oks = new_ok put_ok get_ok pop_ok

end

section \<open>A reference implementation\<close>

text \<open>A capacity and a recency list; the witnesses of the cache properties run on it.\<close>

type_synonym ('k, 'v) ref_lru = "usize \<times> ('k \<times> 'v) list"

definition ref_lru_ops :: "(('k, 'v) ref_lru, 'k, 'v) lru_ops" where
  "ref_lru_ops =
     \<lparr> lru_new = (\<lambda>n. (n, [])),
       lru_put = (\<lambda>k v (n, xs). (n, put_front n k v xs)),
       lru_get = (\<lambda>k (n, xs). (map_of xs k, (n, promote k xs))),
       lru_pop = (\<lambda>k (n, xs). (map_of xs k, (n, AList.delete k xs))),
       lru_peek = (\<lambda>k (n, xs). map_of xs k),
       lru_len = (\<lambda>(n, xs). length xs),
       lru_cap = fst,
       lru_iter = snd \<rparr>"

interpretation ref_lru: lru ref_lru_ops
  by unfold_locales (auto simp: ref_lru_ops_def split: prod.splits)

end
