(* ===== verification/UtxoCache.thy ===== *)
theory UtxoCache
  imports Models LruInterface
begin

text \<open>
  The sharded UTXO cache of \<open>src/src/domain/utxo/cache.rs\<close>: its keys, its compact
  values, the atomic statistics and every operation of \<open>UtxoCache\<close> except the
  persistence, which is in \<open>CacheFile\<close>. The shards are values of the \<open>lru\<close> crate, so
  every operation takes that crate's operations \<open>L\<close>. Locks are modelled by the
  sequential state passing: each operation holds the locks it takes to its end.
\<close>

section \<open>Keys and values\<close>

record utxo_key =
  k_txid :: hash
  k_vout :: u32

definition key_new :: "hash \<Rightarrow> u32 \<Rightarrow> utxo_key" where
  "key_new txid vout = \<lparr>k_txid = txid, k_vout = vout\<rparr>"

definition key_from_outpoint :: "outpoint \<Rightarrow> utxo_key" where
  "key_from_outpoint op = \<lparr>k_txid = op_txid op, k_vout = op_vout op\<rparr>"

definition key_from_hex_txid :: "btc \<Rightarrow> string \<Rightarrow> u32 \<Rightarrow> utxo_key option" where
  "key_from_hex_txid B txid_hex vout =
     (case btc_txid_from_str B txid_hex of
        None \<Rightarrow> None
      | Some txid \<Rightarrow> Some \<lparr>k_txid = txid, k_vout = vout\<rparr>)"

definition to_output_id_string :: "btc \<Rightarrow> utxo_key \<Rightarrow> string" where
  "to_output_id_string B k = btc_hash_to_string B (k_txid k) @ '':'' @ u32_to_dec (k_vout k)"

text \<open>A key built from parsed data holds a 32-byte transaction hash.\<close>

definition key_wf :: "utxo_key \<Rightarrow> bool" where
  "key_wf k \<longleftrightarrow> length (k_txid k) = 32"

datatype script_type_tag =
  TagP2PKH | TagP2SH | TagP2WPKH | TagP2WSH | TagP2TR | TagP2PK | TagNullData | TagUnknown

definition tag_from_str :: "string \<Rightarrow> script_type_tag" where
  "tag_from_str s =
     (if s = ''P2PKH'' then TagP2PKH
      else if s = ''P2SH'' then TagP2SH
      else if s = ''P2WPKH'' then TagP2WPKH
      else if s = ''P2WSH'' then TagP2WSH
      else if s = ''P2TR'' then TagP2TR
      else if s = ''P2PK'' then TagP2PK
      else if s = ''NULL_DATA'' then TagNullData
      else TagUnknown)"

fun tag_as_str :: "script_type_tag \<Rightarrow> string" where
  "tag_as_str TagP2PKH = ''P2PKH''"
| "tag_as_str TagP2SH = ''P2SH''"
| "tag_as_str TagP2WPKH = ''P2WPKH''"
| "tag_as_str TagP2WSH = ''P2WSH''"
| "tag_as_str TagP2TR = ''P2TR''"
| "tag_as_str TagP2PK = ''P2PK''"
| "tag_as_str TagNullData = ''NULL_DATA''"
| "tag_as_str TagUnknown = ''UNKNOWN''"

record cached_output =
  co_output_index :: u32
  co_amount :: u64
  co_script_type :: script_type_tag
  co_address :: "string option"

section \<open>Statistics\<close>

record cache_stats =
  st_hits :: u64
  st_misses :: u64
  st_inserts :: u64
  st_removals :: u64
  st_neo4j_fallbacks :: u64

definition stats_new :: cache_stats where
  "stats_new = \<lparr>st_hits = 0, st_misses = 0, st_inserts = 0, st_removals = 0, st_neo4j_fallbacks = 0\<rparr>"

definition record_hit :: "cache_stats \<Rightarrow> cache_stats" where
  "record_hit s = s\<lparr>st_hits := st_hits s + 1\<rparr>"

definition record_miss :: "cache_stats \<Rightarrow> cache_stats" where
  "record_miss s = s\<lparr>st_misses := st_misses s + 1\<rparr>"

definition record_insert :: "cache_stats \<Rightarrow> cache_stats" where
  "record_insert s = s\<lparr>st_inserts := st_inserts s + 1\<rparr>"

definition record_removal :: "cache_stats \<Rightarrow> cache_stats" where
  "record_removal s = s\<lparr>st_removals := st_removals s + 1\<rparr>"

definition record_neo4j_fallback :: "cache_stats \<Rightarrow> cache_stats" where
  "record_neo4j_fallback s = s\<lparr>st_neo4j_fallbacks := st_neo4j_fallbacks s + 1\<rparr>"

text \<open>\<open>fetch_sub\<close> wraps around below zero.\<close>

definition stats_adjust_misses :: "u64 \<Rightarrow> cache_stats \<Rightarrow> cache_stats" where
  "stats_adjust_misses n s = s\<lparr>st_misses := st_misses s - n\<rparr>"

definition stats_reset :: "cache_stats \<Rightarrow> cache_stats" where
  "stats_reset s = s\<lparr>st_hits := 0, st_misses := 0, st_inserts := 0, st_removals := 0, st_neo4j_fallbacks := 0\<rparr>"

lemmas stats_defs = record_hit_def record_miss_def record_insert_def record_removal_def
  record_neo4j_fallback_def stats_adjust_misses_def stats_reset_def stats_new_def

section \<open>The cache\<close>

definition NUM_SHARDS :: usize where
  "NUM_SHARDS = 16"

record 'c utxo_cache =
  uc_shards :: "'c list"
  uc_stats :: cache_stats
  uc_prewarm_mode :: bool

type_synonym 'c utxo_lru_ops = "('c, utxo_key, cached_output) lru_ops"

text \<open>\<open>UtxoCache::new\<close> panics (\<open>None\<close>) on capacity 0.\<close>

definition cache_new :: "'c utxo_lru_ops \<Rightarrow> usize \<Rightarrow> 'c utxo_cache option" where
  "cache_new L capacity =
     (if capacity = 0 then None
      else let per_shard = max 1 (capacity div NUM_SHARDS) in
        Some \<lparr>uc_shards = map (\<lambda>_. lru_new L per_shard) [0..<NUM_SHARDS],
              uc_stats = stats_new, uc_prewarm_mode = False\<rparr>)"

definition shard_index :: "utxo_key \<Rightarrow> usize" where
  "shard_index k =
     (let h = (ucast (k_txid k ! 0) :: u64) XOR ucast (k_txid k ! 7) XOR ucast (k_txid k ! 15)
                XOR ucast (k_txid k ! 23) XOR ucast (k_txid k ! 31) XOR ucast (k_vout k)
      in unat (h AND (of_nat NUM_SHARDS - 1)))"

definition upd_shard :: "usize \<Rightarrow> 'c \<Rightarrow> 'c utxo_cache \<Rightarrow> 'c utxo_cache" where
  "upd_shard i s c = c\<lparr>uc_shards := (uc_shards c)[i := s]\<rparr>"

definition upd_stats :: "(cache_stats \<Rightarrow> cache_stats) \<Rightarrow> 'c utxo_cache \<Rightarrow> 'c utxo_cache" where
  "upd_stats f c = c\<lparr>uc_stats := f (uc_stats c)\<rparr>"

definition cache_insert :: "'c utxo_lru_ops \<Rightarrow> utxo_key \<Rightarrow> cached_output \<Rightarrow> 'c utxo_cache \<Rightarrow> 'c utxo_cache" where
  "cache_insert L key out c =
     (let idx = shard_index key
      in upd_stats record_insert (upd_shard idx (lru_put L key out (uc_shards c ! idx)) c))"

definition cache_get :: "'c utxo_lru_ops \<Rightarrow> btc \<Rightarrow> utxo_key \<Rightarrow> 'c utxo_cache
    \<Rightarrow> cached_output wresult \<times> 'c utxo_cache" where
  "cache_get L B key c =
     (let idx = shard_index key; (r, shard) = lru_get L key (uc_shards c ! idx) in
      case r of
        Some out \<Rightarrow> (Inr out, upd_stats record_hit (upd_shard idx shard c))
      | None \<Rightarrow> (Inl (QueryFailed (CacheMissFor (to_output_id_string B key))),
                 upd_stats record_miss (upd_shard idx shard c)))"

definition cache_get_quiet :: "'c utxo_lru_ops \<Rightarrow> btc \<Rightarrow> utxo_key \<Rightarrow> 'c utxo_cache
    \<Rightarrow> cached_output wresult \<times> 'c utxo_cache" where
  "cache_get_quiet L B key c =
     (let idx = shard_index key; (r, shard) = lru_get L key (uc_shards c ! idx) in
      case r of
        Some out \<Rightarrow> (Inr out, upd_shard idx shard c)
      | None \<Rightarrow> (Inl (QueryFailed (SameBlockMissFor (to_output_id_string B key))), upd_shard idx shard c))"

definition cache_remove :: "'c utxo_lru_ops \<Rightarrow> utxo_key \<Rightarrow> 'c utxo_cache \<Rightarrow> bool \<times> 'c utxo_cache" where
  "cache_remove L key c =
     (let idx = shard_index key; (r, shard) = lru_pop L key (uc_shards c ! idx);
          removed = (r \<noteq> None); c' = upd_shard idx shard c
      in (removed, if removed then upd_stats record_removal c' else c'))"

text \<open>The batch operations group the keys by shard and visit the shards in order.\<close>

definition group_by_shard :: "utxo_key list \<Rightarrow> utxo_key list list" where
  "group_by_shard keys = map (\<lambda>i. filter (\<lambda>k. shard_index k = i) keys) [0..<NUM_SHARDS]"

type_synonym 'c many_state = "'c utxo_cache \<times> (utxo_key \<rightharpoonup> cached_output) \<times> utxo_key list"

definition get_one :: "'c utxo_lru_ops \<Rightarrow> usize \<Rightarrow> utxo_key \<Rightarrow> 'c many_state \<Rightarrow> 'c many_state" where
  "get_one L idx key st =
     (case st of (c, found, misses) \<Rightarrow>
        let (r, shard) = lru_get L key (uc_shards c ! idx) in
        case r of
          Some out \<Rightarrow> (upd_stats record_hit (upd_shard idx shard c), found(key \<mapsto> out), misses)
        | None \<Rightarrow> (upd_stats record_miss (upd_shard idx shard c), found, misses @ [key]))"

definition cache_get_many :: "'c utxo_lru_ops \<Rightarrow> utxo_key list \<Rightarrow> 'c utxo_cache \<Rightarrow> 'c many_state" where
  "cache_get_many L keys c =
     fold (\<lambda>(idx, ks). fold (get_one L idx) ks) (enumerate 0 (group_by_shard keys)) (c, Map.empty, [])"

definition cache_get_many_or_fail :: "'c utxo_lru_ops \<Rightarrow> btc \<Rightarrow> utxo_key list \<Rightarrow> 'c utxo_cache
    \<Rightarrow> (utxo_key \<rightharpoonup> cached_output) wresult \<times> 'c utxo_cache" where
  "cache_get_many_or_fail L B keys c =
     (case cache_get_many L keys c of (c', found, misses) \<Rightarrow>
        if misses \<noteq> [] then
          (Inl (QueryFailed (MissingUtxosInCache (length misses) (length keys)
             (map (to_output_id_string B) (take 5 misses)))), c')
        else (Inr found, c'))"

text \<open>\<open>collect()\<close> into a \<open>HashMap\<close>: a later row with the same id replaces an earlier one.\<close>

definition result_map :: "output_lookup_result list \<Rightarrow> (string \<rightharpoonup> output_lookup_result)" where
  "result_map rs = map_of (rev (map (\<lambda>r. (olr_output_id r, r)) rs))"

definition lookup_to_cached :: "output_lookup_result \<Rightarrow> cached_output" where
  "lookup_to_cached r =
     \<lparr>co_output_index = olr_output_index r, co_amount = olr_amount r,
      co_script_type = tag_from_str (olr_script_type r), co_address = olr_address r\<rparr>"

text \<open>One turn of the loop that resolves the misses from the rows found in the database.\<close>

definition resolve_miss :: "'c utxo_lru_ops \<Rightarrow> btc \<Rightarrow> (string \<rightharpoonup> output_lookup_result)
    \<Rightarrow> utxo_key \<Rightarrow> 'c many_state \<Rightarrow> 'c many_state" where
  "resolve_miss L B rm key st =
     (case st of (c, found, still) \<Rightarrow>
        case rm (to_output_id_string B key) of
          Some r \<Rightarrow> (cache_insert L key (lookup_to_cached r) c, found(key \<mapsto> lookup_to_cached r), still)
        | None \<Rightarrow> (c, found, still @ [key]))"

definition get_many_with_fallback :: "'c utxo_lru_ops \<Rightarrow> btc
    \<Rightarrow> (string list \<Rightarrow> 'w \<Rightarrow> output_lookup_result list wresult \<times> 'w)
    \<Rightarrow> utxo_key list \<Rightarrow> 'w \<times> 'c utxo_cache
    \<Rightarrow> (utxo_key \<rightharpoonup> cached_output) wresult \<times> 'w \<times> 'c utxo_cache" where
  "get_many_with_fallback L B lookup keys s =
     (case s of (w, c) \<Rightarrow>
      case cache_get_many L keys c of (c1, found, misses) \<Rightarrow>
        if misses = [] then (Inr found, w, c1)
        else let c2 = upd_stats record_neo4j_fallback c1 in
          case lookup (map (to_output_id_string B) misses) w of
            (Inl e, w') \<Rightarrow> (Inl e, w', c2)
          | (Inr rows, w') \<Rightarrow>
              (case fold (resolve_miss L B (result_map rows)) misses (c2, found, []) of
                 (c3, found', still) \<Rightarrow>
                   if still \<noteq> [] then
                     (Inl (QueryFailed (MissingAfterFallback (length still) (length keys)
                        (map (to_output_id_string B) (take 5 still)))), w', c3)
                   else (Inr found', w', c3)))"

definition remove_one :: "'c utxo_lru_ops \<Rightarrow> usize \<Rightarrow> utxo_key \<Rightarrow> 'c utxo_cache \<Rightarrow> 'c utxo_cache" where
  "remove_one L idx key c =
     (let (r, shard) = lru_pop L key (uc_shards c ! idx); c' = upd_shard idx shard c
      in if r \<noteq> None then upd_stats record_removal c' else c')"

definition cache_remove_many :: "'c utxo_lru_ops \<Rightarrow> utxo_key list \<Rightarrow> 'c utxo_cache \<Rightarrow> 'c utxo_cache" where
  "cache_remove_many L keys c =
     fold (\<lambda>(idx, ks). fold (remove_one L idx) ks) (enumerate 0 (group_by_shard keys)) c"

definition cache_contains :: "'c utxo_lru_ops \<Rightarrow> utxo_key \<Rightarrow> 'c utxo_cache \<Rightarrow> bool" where
  "cache_contains L key c = (lru_peek L key (uc_shards c ! shard_index key) \<noteq> None)"

definition cache_adjust_misses :: "u64 \<Rightarrow> 'c utxo_cache \<Rightarrow> 'c utxo_cache" where
  "cache_adjust_misses n = upd_stats (stats_adjust_misses n)"

definition cache_reset_stats :: "'c utxo_cache \<Rightarrow> 'c utxo_cache" where
  "cache_reset_stats = upd_stats stats_reset"

definition cache_len :: "'c utxo_lru_ops \<Rightarrow> 'c utxo_cache \<Rightarrow> usize" where
  "cache_len L c = sum_list (map (lru_len L) (uc_shards c))"

definition cache_is_empty :: "'c utxo_lru_ops \<Rightarrow> 'c utxo_cache \<Rightarrow> bool" where
  "cache_is_empty L c = (cache_len L c = 0)"

definition cache_capacity :: "'c utxo_lru_ops \<Rightarrow> 'c utxo_cache \<Rightarrow> usize" where
  "cache_capacity L c = sum_list (map (lru_cap L) (uc_shards c))"

definition enable_prewarm_mode :: "'c utxo_cache \<Rightarrow> 'c utxo_cache" where
  "enable_prewarm_mode c = c\<lparr>uc_prewarm_mode := True\<rparr>"

definition disable_prewarm_mode :: "'c utxo_cache \<Rightarrow> 'c utxo_cache" where
  "disable_prewarm_mode c = c\<lparr>uc_prewarm_mode := False\<rparr>"

definition insert_prewarm :: "'c utxo_lru_ops \<Rightarrow> utxo_key \<Rightarrow> cached_output \<Rightarrow> 'c utxo_cache \<Rightarrow> bool \<times> 'c utxo_cache" where
  "insert_prewarm L key out c =
     (let idx = shard_index key; shard = uc_shards c ! idx in
      if lru_len L shard \<ge> lru_cap L shard then (False, c)
      else (True, upd_stats record_insert (upd_shard idx (lru_put L key out shard) c)))"

definition cache_has_capacity :: "'c utxo_lru_ops \<Rightarrow> 'c utxo_cache \<Rightarrow> bool" where
  "cache_has_capacity L c = list_ex (\<lambda>s. lru_len L s < lru_cap L s) (uc_shards c)"

end
