(* ===== verification/Chunking.thy ===== *)
theory Chunking
  imports UtxoCache
begin

text \<open>
  The pure parts of the batch ingestion (\<open>src/src/domain/ingestion.rs\<close>): the keys a batch
  spends, the memory estimate, the adaptive chunking of a batch, and the partition of the
  aggregated relationships into buckets. The hash of \<open>DefaultHasher\<close> is a parameter.
\<close>

type_synonym chunk = "(u32 \<times> btc_block \<times> string) list"

definition BYTES_PER_BLOCK :: usize where "BYTES_PER_BLOCK = 3500"
definition BYTES_PER_TX :: usize where "BYTES_PER_TX = 3000"
definition BYTES_PER_OUTPUT :: usize where "BYTES_PER_OUTPUT = 3500"
definition BYTES_PER_INPUT :: usize where "BYTES_PER_INPUT = 2500"

definition spent_keys_of_block :: "btc \<Rightarrow> btc_block \<Rightarrow> utxo_key list" where
  "spent_keys_of_block B block =
     map (\<lambda>i. key_from_outpoint (ti_previous_output i))
       (concat (map tx_input (filter (\<lambda>tx. \<not> btc_is_coinbase B tx) (bl_txdata block))))"

definition collect_input_keys :: "btc \<Rightarrow> chunk \<Rightarrow> utxo_key list" where
  "collect_input_keys B blocks =
     map (\<lambda>i. key_from_outpoint (ti_previous_output i))
       (concat (map tx_input
         (filter (\<lambda>tx. \<not> btc_is_coinbase B tx)
           (concat (map (\<lambda>(_, block, _). bl_txdata block) blocks)))))"

definition estimate_block_memory :: "btc_block \<Rightarrow> usize" where
  "estimate_block_memory block =
     (let tx_count = length (bl_txdata block);
          output_count = sum_list (map (length \<circ> tx_output) (bl_txdata block));
          input_count = sum_list (map (length \<circ> tx_input) (bl_txdata block))
      in BYTES_PER_BLOCK + tx_count * BYTES_PER_TX + output_count * BYTES_PER_OUTPUT
         + input_count * BYTES_PER_INPUT)"

section \<open>Adaptive chunks\<close>

text \<open>A range is the pair of its bounds; the loop state holds the chunks closed so far, the
  start of the open chunk and its memory.\<close>

type_synonym range = "usize \<times> usize"

definition chunk_step :: "usize \<Rightarrow> usize \<times> usize \<Rightarrow> range list \<times> usize \<times> usize \<Rightarrow> range list \<times> usize \<times> usize" where
  "chunk_step max_memory_bytes = (\<lambda>(i, mem) (chunks, chunk_start, chunk_memory).
     let (chunks, chunk_start, chunk_memory) =
           (if chunk_memory + mem > max_memory_bytes \<and> i > chunk_start
            then (chunks @ [(chunk_start, i)], i, 0)
            else (chunks, chunk_start, chunk_memory));
         chunk_memory = chunk_memory + mem
     in if mem > max_memory_bytes \<and> i = chunk_start
        then (chunks @ [(chunk_start, i + 1)], i + 1, 0)
        else (chunks, chunk_start, chunk_memory))"

definition compute_adaptive_chunks :: "usize list \<Rightarrow> usize \<Rightarrow> range list" where
  "compute_adaptive_chunks block_memories max_memory_bytes =
     (if block_memories = [] then []
      else case fold (chunk_step max_memory_bytes) (enumerate 0 block_memories) ([], 0, 0) of
        (chunks, chunk_start, _) \<Rightarrow>
          if chunk_start < length block_memories
          then chunks @ [(chunk_start, length block_memories)]
          else chunks)"

definition slice :: "range \<Rightarrow> 'a list \<Rightarrow> 'a list" where
  "slice r xs = take (snd r - fst r) (drop (fst r) xs)"

section \<open>Buckets\<close>

definition push_bucket :: "nat \<Rightarrow> 'a \<Rightarrow> 'a list list \<Rightarrow> 'a list list" where
  "push_bucket i x buckets = buckets[i := buckets ! i @ [x]]"

definition partition_performs_by_address :: "(string \<Rightarrow> u64) \<Rightarrow> performs_data list \<Rightarrow> usize \<Rightarrow> performs_data list list" where
  "partition_performs_by_address string_hash performs num_buckets =
     fold (\<lambda>item. push_bucket (unat (string_hash (pd_from_address item) mod of_nat num_buckets)) item)
       performs (replicate num_buckets [])"

definition partition_benefits_by_address :: "(string \<Rightarrow> u64) \<Rightarrow> benefits_to_data list \<Rightarrow> usize \<Rightarrow> benefits_to_data list list" where
  "partition_benefits_by_address string_hash benefits num_buckets =
     fold (\<lambda>item. push_bucket (unat (string_hash (ben_to_address item) mod of_nat num_buckets)) item)
       benefits (replicate num_buckets [])"

section \<open>Facts\<close>

lemma collect_input_keys_blocks:
  "collect_input_keys B blocks = concat (map (\<lambda>(_, block, _). spent_keys_of_block B block) blocks)"
  by (induction blocks) (auto simp: collect_input_keys_def spent_keys_of_block_def)

text \<open>The invariant of the chunking loop after \<open>i\<close> blocks.\<close>

definition chunks_cover :: "range list \<Rightarrow> usize \<Rightarrow> bool" where
  "chunks_cover cs n \<longleftrightarrow> concat (map (\<lambda>(a, b). [a..<b]) cs) = [0..<n]"

definition chunk_fits :: "usize list \<Rightarrow> usize \<Rightarrow> range \<Rightarrow> bool" where
  "chunk_fits ms limit r \<longleftrightarrow> fst r < snd r \<and>
     (sum_list (slice r ms) \<le> limit \<or> snd r = Suc (fst r))"

definition loop_inv :: "usize list \<Rightarrow> usize \<Rightarrow> usize \<Rightarrow> range list \<times> usize \<times> usize \<Rightarrow> bool" where
  "loop_inv ms limit i st \<longleftrightarrow>
     (case st of (cs, s, m) \<Rightarrow>
        chunks_cover cs s \<and> s \<le> i \<and> m = sum_list (slice (s, i) ms) \<and> m \<le> limit \<and>
        list_all (chunk_fits ms limit) cs)"

lemma slice_Suc:
  "s \<le> i \<Longrightarrow> i < length xs \<Longrightarrow> slice (s, Suc i) xs = slice (s, i) xs @ [xs ! i]"
  by (simp add: slice_def Suc_diff_le take_Suc_conv_app_nth)

lemma slice_same [simp]: "slice (i, i) xs = []"
  by (simp add: slice_def)

lemma chunks_cover_snoc: "chunks_cover cs s \<Longrightarrow> s \<le> i \<Longrightarrow> chunks_cover (cs @ [(s, i)]) i"
  using upt_add_eq_append [of 0 s "i - s"] by (simp add: chunks_cover_def)

lemma chunk_step_inv:
  assumes "loop_inv ms limit i st" "i < length ms"
  shows "loop_inv ms limit (Suc i) (chunk_step limit (i, ms ! i) st)"
proof -
  obtain cs s m where st: "st = (cs, s, m)" by (cases st)
  have inv: "chunks_cover cs s" "s \<le> i" "m = sum_list (slice (s, i) ms)" "m \<le> limit"
    "list_all (chunk_fits ms limit) cs"
    using assms(1) by (auto simp: loop_inv_def st)
  have one: "chunk_fits ms limit (i, Suc i)" by (simp add: chunk_fits_def)
  have single: "slice (i, Suc i) ms = [ms ! i]" using slice_Suc [of i i ms] assms(2) by simp
  have grow: "sum_list (slice (s, Suc i) ms) = m + ms ! i" using slice_Suc [of s i ms] inv assms(2) by simp
  let ?cs = "if limit < m + ms ! i \<and> s < i then cs @ [(s, i)] else cs"
  let ?s = "if limit < m + ms ! i \<and> s < i then i else s"
  let ?m = "if limit < m + ms ! i \<and> s < i then 0 else m"
  have mid: "chunks_cover ?cs ?s" "?s \<le> i" "list_all (chunk_fits ms limit) ?cs" "?m + ms ! i = sum_list (slice (?s, Suc i) ms)"
    using inv chunks_cover_snoc [OF inv(1,2)] grow single by (auto simp: chunk_fits_def)
  have step: "chunk_step limit (i, ms ! i) st =
      (if limit < ms ! i \<and> i = ?s then (?cs @ [(?s, i + 1)], i + 1, 0) else (?cs, ?s, ?m + ms ! i))"
    unfolding st chunk_step_def Let_def by simp
  show ?thesis
  proof (cases "limit < ms ! i \<and> i = ?s")
    case True
    have "chunks_cover (?cs @ [(?s, Suc i)]) (Suc i)"
      by (rule chunks_cover_snoc [OF mid(1)]) (use mid(2) in linarith)
    moreover have "list_all (chunk_fits ms limit) (?cs @ [(?s, Suc i)])"
      using mid(3) one True by auto
    ultimately show ?thesis
      unfolding step if_P [OF True] loop_inv_def by simp
  next
    case False
    have "?m + ms ! i \<le> limit"
    proof (cases "limit < m + ms ! i \<and> s < i")
      case False
      with \<open>\<not> (limit < ms ! i \<and> i = ?s)\<close> inv show ?thesis by (cases "s = i") auto
    qed (use False in auto)
    with mid show ?thesis unfolding step if_not_P [OF False] loop_inv_def by simp
  qed
qed

lemma chunk_loop_inv:
  "n \<le> length ms \<Longrightarrow> loop_inv ms limit n (fold (chunk_step limit) (enumerate 0 (take n ms)) ([], 0, 0))"
proof (induction n)
  case (Suc n)
  have "enumerate 0 (take (Suc n) ms) = enumerate 0 (take n ms) @ [(n, ms ! n)]"
    using Suc.prems by (simp add: take_Suc_conv_app_nth enumerate_append_eq)
  then show ?case using Suc chunk_step_inv by simp
qed (simp add: loop_inv_def chunks_cover_def)

lemma adaptive_chunks_spec:
  "chunks_cover (compute_adaptive_chunks ms limit) (length ms) \<and>
   list_all (chunk_fits ms limit) (compute_adaptive_chunks ms limit)"
proof (cases "ms = []")
  case False
  obtain cs s m where run: "fold (chunk_step limit) (enumerate 0 ms) ([], 0, 0) = (cs, s, m)"
    by (metis prod_cases3)
  have inv: "chunks_cover cs s" "s \<le> length ms" "m = sum_list (slice (s, length ms) ms)" "m \<le> limit"
    "list_all (chunk_fits ms limit) cs"
    using chunk_loop_inv [of "length ms" ms limit] by (auto simp: run loop_inv_def)
  then show ?thesis using False chunks_cover_snoc [OF inv(1,2)]
    by (auto simp: compute_adaptive_chunks_def run chunk_fits_def)
qed (simp add: compute_adaptive_chunks_def chunks_cover_def)

text \<open>Cutting a list along a cover loses nothing.\<close>

lemma slices_cover:
  assumes "chunks_cover cs (length xs)"
  shows "concat (map (\<lambda>r. slice r xs) cs) = xs"
proof -
  have le: "b \<le> length xs" if "(a, b) \<in> set cs" "a < b" for a b
  proof -
    have "b - 1 \<in> set (case (a, b) of (a, b) \<Rightarrow> [a..<b])" using that(2) by simp
    then have "b - 1 \<in> set (concat (map (\<lambda>(a, b). [a..<b]) cs))"
      using that(1) unfolding set_concat set_map by blast
    then have "b - 1 \<in> set [0..<length xs]" using assms unfolding chunks_cover_def by simp
    then show ?thesis by simp
  qed
  have "slice (a, b) xs = map ((!) xs) [a..<b]" if "(a, b) \<in> set cs" for a b
  proof (cases "a < b")
    case True
    then show ?thesis using le [OF that True] by (auto simp: slice_def intro!: nth_equalityI)
  qed (simp add: slice_def)
  then have "concat (map (\<lambda>r. slice r xs) cs) = map ((!) xs) (concat (map (\<lambda>(a, b). [a..<b]) cs))"
    by (auto simp: map_concat intro!: arg_cong [where f = concat])
  also have "\<dots> = xs" using assms by (simp add: chunks_cover_def map_nth)
  finally show ?thesis .
qed

text \<open>
  C20. Adaptive chunking partitions a batch: the chunks are non-empty, consecutive, in order
  and cover every block exactly once; and every chunk of more than one block fits the memory
  budget, so a block larger than the budget is alone in its chunk.
\<close>
theorem adaptive_chunks_partition:
  "concat (map (\<lambda>r. slice r blocks) (compute_adaptive_chunks (map estimate_block_memory blocks) limit)) = blocks \<and>
   (\<forall>r \<in> set (compute_adaptive_chunks (map estimate_block_memory blocks) limit).
      fst r < snd r \<and>
      (sum_list (map estimate_block_memory (slice r blocks)) \<le> limit \<or> length (slice r blocks) \<le> 1))"
proof -
  let ?ms = "map estimate_block_memory blocks"
  note spec = adaptive_chunks_spec [of ?ms limit]
  have "fst r < snd r \<and> (sum_list (map estimate_block_memory (slice r blocks)) \<le> limit \<or> length (slice r blocks) \<le> 1)"
    if "r \<in> set (compute_adaptive_chunks ?ms limit)" for r
    using spec that by (auto simp: list_all_iff chunk_fits_def slice_def take_map drop_map)
  then show ?thesis using spec slices_cover [of "compute_adaptive_chunks ?ms limit" blocks] by simp
qed

definition ex_coinbase :: "u32 \<Rightarrow> btc_tx" where
  "ex_coinbase n = \<lparr>tx_version = 1, tx_lock_time = n,
     tx_input = [\<lparr>ti_previous_output = \<lparr>op_txid = replicate 32 0, op_vout = - 1\<rparr>, ti_script_sig = [], ti_sequence = 0, ti_witness = []\<rparr>],
     tx_output = [\<lparr>to_value = 50, to_script_pubkey = [0x6A]\<rparr>]\<rparr>"

definition ex_block :: "u32 \<Rightarrow> btc_tx list \<Rightarrow> btc_block" where
  "ex_block n txs = \<lparr>bl_header = \<lparr>hd_version = 1, hd_prev_blockhash = replicate 28 0 @ u32_to_le (n - 1),
     hd_merkle_root = [], hd_time = n, hd_bits = 0, hd_nonce = n\<rparr>, bl_txdata = txs\<rparr>"

theorem adaptive_chunks_partition_witness:
  "concat (map (\<lambda>r. slice r [ex_block 1 [ex_coinbase 1], ex_block 2 []])
     (compute_adaptive_chunks (map estimate_block_memory [ex_block 1 [ex_coinbase 1], ex_block 2 []]) 4000)) =
   [ex_block 1 [ex_coinbase 1], ex_block 2 []]"
  using adaptive_chunks_partition [of "[ex_block 1 [ex_coinbase 1], ex_block 2 []]" 4000] by (rule conjunct1)

text \<open>Bucketing by any key.\<close>

lemma fold_push_bucket:
  assumes "0 < n" "length bs = n" "\<And>x. h x < n"
  shows "fold (\<lambda>x. push_bucket (h x) x) xs bs = map (\<lambda>i. bs ! i @ filter (\<lambda>x. h x = i) xs) [0..<n]"
  using assms(2)
proof (induction xs arbitrary: bs)
  case Nil
  then show ?case using map_nth [of bs] by simp
next
  case (Cons x xs)
  have "fold (\<lambda>x. push_bucket (h x) x) (x # xs) bs =
      map (\<lambda>i. push_bucket (h x) x bs ! i @ filter (\<lambda>x. h x = i) xs) [0..<n]"
    using Cons.IH [of "push_bucket (h x) x bs"] Cons.prems by (simp add: push_bucket_def [of "h x" x bs])
  also have "\<dots> = map (\<lambda>i. bs ! i @ filter (\<lambda>x. h x = i) (x # xs)) [0..<n]"
    using Cons.prems by (auto simp: push_bucket_def nth_list_update)
  finally show ?case .
qed

lemma bucket_less: "0 < n \<Longrightarrow> n < 2 ^ 64 \<Longrightarrow> unat ((h :: u64) mod of_nat n) < n"
  by (simp add: unat_mod unat_of_nat take_bit_eq_mod)

lemma mset_buckets:
  assumes "\<And>x. h x < n"
  shows "mset (concat (map (\<lambda>i. filter (\<lambda>x. h x = i) xs) [0..<n])) = mset xs"
proof -
  have "mset (concat (map (\<lambda>i. filter (\<lambda>x. h x = i) xs) [0..<m])) = mset (filter (\<lambda>x. h x < m) xs)" for m
  proof (induction m)
    case (Suc m)
    have "mset (filter (\<lambda>x. h x < m) xs) + mset (filter (\<lambda>x. h x = m) xs) = mset (filter (\<lambda>x. h x < Suc m) xs)"
      by (induction xs) (auto simp: less_Suc_eq)
    with Suc show ?case by simp
  qed simp
  then show ?thesis using assms by simp
qed

lemma partition_performs_buckets:
  "0 < n \<Longrightarrow> n < 2 ^ 64 \<Longrightarrow> partition_performs_by_address hs ps n =
     map (\<lambda>i. filter (\<lambda>p. unat (hs (pd_from_address p) mod of_nat n) = i) ps) [0..<n]"
  unfolding partition_performs_by_address_def
  by (subst fold_push_bucket [where n = n]) (auto simp: bucket_less)

lemma partition_benefits_buckets:
  "0 < n \<Longrightarrow> n < 2 ^ 64 \<Longrightarrow> partition_benefits_by_address hs bs n =
     map (\<lambda>i. filter (\<lambda>b. unat (hs (ben_to_address b) mod of_nat n) = i) bs) [0..<n]"
  unfolding partition_benefits_by_address_def
  by (subst fold_push_bucket [where n = n]) (auto simp: bucket_less)

text \<open>
  The partition of the PERFORMS records into buckets loses and duplicates nothing, and it
  keeps all records of one address in one bucket, so no two buckets write to the same address.
\<close>
lemma performs_buckets_partition:
  "0 < n \<Longrightarrow> n < 2 ^ 64 \<Longrightarrow>
    mset (concat (partition_performs_by_address hs ps n)) = mset ps \<and>
    (\<forall>i < n. \<forall>j < n. \<forall>p \<in> set (partition_performs_by_address hs ps n ! i).
       \<forall>q \<in> set (partition_performs_by_address hs ps n ! j). pd_from_address p = pd_from_address q \<longrightarrow> i = j)"
  by (intro conjI allI impI ballI)
    (simp add: partition_performs_buckets mset_buckets bucket_less, auto simp: partition_performs_buckets)

theorem performs_buckets_partition_witness:
  "mset (concat (partition_performs_by_address (\<lambda>s. of_nat (length s)) [\<lparr>pd_from_address = ''a'', pd_to_txid = ''t'',
     pd_input_count = 1, pd_amount_spent = 5\<rparr>] 8)) = {#\<lparr>pd_from_address = ''a'', pd_to_txid = ''t'',
     pd_input_count = 1, pd_amount_spent = 5\<rparr>#}"
  using performs_buckets_partition [of 8 "\<lambda>s. of_nat (length s)" "[\<lparr>pd_from_address = ''a'', pd_to_txid = ''t'',
     pd_input_count = 1, pd_amount_spent = 5\<rparr>]"] by simp

end
