(* ===== verification/CacheLaws.thy ===== *)
theory CacheLaws
  imports UtxoCache
begin

text \<open>
  The invariant and the abstract view of the sharded cache, the effect of every operation
  on them, and the store interface that the ingestion relies on. The abstract view of a
  cache is the partial map from keys to outputs it can answer; eviction may only make it
  smaller, and no operation may invent an entry.
\<close>

definition cache_ok :: "'c utxo_lru_ops \<Rightarrow> 'c utxo_cache \<Rightarrow> bool" where
  "cache_ok L c \<longleftrightarrow> length (uc_shards c) = NUM_SHARDS \<and>
     (\<forall>i<NUM_SHARDS. lru_ok L (uc_shards c ! i) \<and>
        (\<forall>k \<in> fst ` set (lru_iter L (uc_shards c ! i)). shard_index k = i))"

definition cache_view :: "'c utxo_lru_ops \<Rightarrow> 'c utxo_cache \<Rightarrow> utxo_key \<rightharpoonup> cached_output" where
  "cache_view L c k = map_of (lru_iter L (uc_shards c ! shard_index k)) k"

text \<open>The recency list of the shard that holds a key.\<close>

definition key_shard :: "'c utxo_lru_ops \<Rightarrow> 'c utxo_cache \<Rightarrow> utxo_key \<Rightarrow> (utxo_key \<times> cached_output) list" where
  "key_shard L c k = lru_iter L (uc_shards c ! shard_index k)"

definition shard_cap :: "'c utxo_lru_ops \<Rightarrow> 'c utxo_cache \<Rightarrow> utxo_key \<Rightarrow> usize" where
  "shard_cap L c k = lru_cap L (uc_shards c ! shard_index k)"

section \<open>Shards\<close>

lemma shard_index_less [simp]: "shard_index k < NUM_SHARDS"
proof -
  have "unat (h AND 15) \<le> 15" for h :: u64
    using word_and_le1 [of h 15] by (simp add: word_le_nat_alt)
  then have "unat (h AND 15) < 16" for h :: u64
    by (simp add: order_le_less_trans [of _ 15])
  then show ?thesis
    by (simp add: shard_index_def NUM_SHARDS_def Let_def)
qed

lemma shard_index_less16: "shard_index k < 16"
  using shard_index_less [of k] by (simp add: NUM_SHARDS_def)

lemma upd_sel [simp]:
  "uc_shards (upd_stats f c) = uc_shards c"
  "uc_stats (upd_shard i s c) = uc_stats c"
  "uc_stats (upd_stats f c) = f (uc_stats c)"
  "uc_shards (upd_shard i s c) = (uc_shards c)[i := s]"
  by (simp_all add: upd_stats_def upd_shard_def)

lemma cache_ok_stats [simp]: "cache_ok L (upd_stats f c) = cache_ok L c"
  and cache_view_stats [simp]: "cache_view L (upd_stats f c) = cache_view L c"
  and key_shard_stats [simp]: "key_shard L (upd_stats f c) = key_shard L c"
  by (simp_all add: cache_ok_def cache_view_def key_shard_def fun_eq_iff)

lemma cache_ok_shard:
  "cache_ok L c \<Longrightarrow> lru_ok L (uc_shards c ! shard_index k)"
  by (simp add: cache_ok_def)

lemma cache_ok_upd:
  assumes "cache_ok L c" "lru_ok L s" "\<forall>k \<in> fst ` set (lru_iter L s). shard_index k = i"
  shows "cache_ok L (upd_shard i s c)"
proof -
  have "j < NUM_SHARDS \<Longrightarrow> uc_shards (upd_shard i s c) ! j = (if i = j then s else uc_shards c ! j)" for j
    using assms(1) by (auto simp: cache_ok_def nth_list_update)
  then show ?thesis using assms by (auto simp: cache_ok_def)
qed

lemma cache_view_upd:
  assumes "cache_ok L c" "i < NUM_SHARDS"
  shows "cache_view L (upd_shard i s c) k =
    (if shard_index k = i then map_of (lru_iter L s) k else cache_view L c k)"
  using assms by (auto simp: cache_ok_def cache_view_def nth_list_update)

lemma shard_keys:
  assumes "cache_ok L c" "i < NUM_SHARDS" "k \<in> fst ` set (lru_iter L (uc_shards c ! i))"
  shows "shard_index k = i"
  using assms by (auto simp: cache_ok_def)

lemma shard_keys_pair:
  "cache_ok L c \<Longrightarrow> (a, v) \<in> set (lru_iter L (uc_shards c ! shard_index k)) \<Longrightarrow> shard_index a = shard_index k"
  using shard_keys [of L c "shard_index k" a] by force

lemma cache_view_dom:
  "cache_ok L c \<Longrightarrow> (cache_view L c k \<noteq> None) = (k \<in> fst ` set (key_shard L c k))"
  by (metis cache_view_def key_shard_def map_of_eq_None_iff)

lemma fold_enumerate_groups:
  "fold (\<lambda>(idx, ks). fold (f idx) ks) (enumerate 0 (group_by_shard keys)) s =
   fold (\<lambda>k. f (shard_index k) k) (concat (group_by_shard keys)) s"
proof -
  have inner: "fold (f i) (filter (\<lambda>k. shard_index k = i) keys) t =
      fold (\<lambda>k. f (shard_index k) k) (filter (\<lambda>k. shard_index k = i) keys) t" for i t
    by (rule fold_cong) auto
  have "fold (\<lambda>(idx, ks). fold (f idx) ks) (map (\<lambda>i. (i, filter (\<lambda>k. shard_index k = i) keys)) is) s =
      fold (\<lambda>k. f (shard_index k) k) (concat (map (\<lambda>i. filter (\<lambda>k. shard_index k = i) keys) is)) s" for "is"
    by (induction "is" arbitrary: s) (simp_all add: inner)
  then show ?thesis
    by (simp add: group_by_shard_def enumerate_map_upt)
qed

lemma mset_group_by_shard: "mset (concat (group_by_shard keys)) = mset keys"
proof -
  have "(\<Sum>i\<leftarrow>[0..<n]. mset (filter (\<lambda>k. shard_index k = i) keys)) =
      mset (filter (\<lambda>k. shard_index k < n) keys)" for n
  proof (induction n)
    case (Suc n)
    have "mset (filter (\<lambda>k. shard_index k < n) keys) + mset (filter (\<lambda>k. shard_index k = n) keys)
        = mset (filter (\<lambda>k. shard_index k < Suc n) keys)"
      by (induction keys) (auto simp: less_Suc_eq)
    with Suc show ?case by simp
  qed simp
  then show ?thesis
    by (simp add: group_by_shard_def mset_concat o_def)
qed

lemma set_group_by_shard: "set (concat (group_by_shard keys)) = set keys"
  by (metis mset_group_by_shard set_mset_mset)

lemma length_group_by_shard: "length (concat (group_by_shard keys)) = length keys"
  by (metis mset_group_by_shard size_mset)

section \<open>Each operation on the invariant and the view\<close>

locale utxo_lru = lru L for L :: "'c utxo_lru_ops"
begin

lemma new_cache:
  assumes "cache_new L n = Some c"
  shows "cache_ok L c" "cache_view L c = Map.empty" "cache_len L c = 0"
    "cache_capacity L c = 16 * max 1 (n div 16)" "uc_stats c = stats_new"
proof -
  let ?m = "max 1 (n div NUM_SHARDS)"
  have m: "0 < ?m" by simp
  have sh: "uc_shards c = map (\<lambda>_. lru_new L ?m) [0..<NUM_SHARDS]" and st: "uc_stats c = stats_new"
    using assms by (auto simp: cache_new_def Let_def split: if_splits)
  show "cache_ok L c" using m by (simp add: cache_ok_def sh new_ok new_iter)
  show "cache_view L c = Map.empty" using m by (simp add: cache_view_def fun_eq_iff sh new_iter)
  show "cache_len L c = 0" using m by (simp add: cache_len_def sh o_def len_eq new_ok new_iter)
  show "cache_capacity L c = 16 * max 1 (n div 16)"
    using m by (simp add: cache_capacity_def sh o_def new_cap sum_list_triv NUM_SHARDS_def)
  show "uc_stats c = stats_new" by (rule st)
qed

lemma put_shard_ok:
  assumes "cache_ok L c"
  shows "cache_ok L (upd_shard (shard_index k) (lru_put L k v (uc_shards c ! shard_index k)) c)"
proof (rule cache_ok_upd [OF assms])
  have ok: "lru_ok L (uc_shards c ! shard_index k)" using assms by (rule cache_ok_shard)
  then show "lru_ok L (lru_put L k v (uc_shards c ! shard_index k))" by (rule put_ok)
  show "\<forall>k' \<in> fst ` set (lru_iter L (lru_put L k v (uc_shards c ! shard_index k))). shard_index k' = shard_index k"
    using set_put_front [of "lru_cap L (uc_shards c ! shard_index k)" k v "lru_iter L (uc_shards c ! shard_index k)"]
      shard_keys [OF assms shard_index_less [of k]]
    by (simp only: put_iter [OF ok]) blast
qed

lemma insert_ok: "cache_ok L c \<Longrightarrow> cache_ok L (cache_insert L k v c)"
  by (simp add: cache_insert_def Let_def put_shard_ok)

lemma insert_view:
  assumes "cache_ok L c"
  shows "cache_view L (cache_insert L k v c) k' =
    (if shard_index k' = shard_index k
     then map_of (put_front (shard_cap L c k) k v (key_shard L c k)) k' else cache_view L c k')"
  using assms
  by (simp add: cache_insert_def Let_def cache_view_upd put_iter cache_ok_shard key_shard_def shard_cap_def)

lemma shard_distinct: "cache_ok L c \<Longrightarrow> distinct (map fst (key_shard L c k))"
  and shard_length: "cache_ok L c \<Longrightarrow> length (key_shard L c k) \<le> shard_cap L c k"
  and shard_cap_pos: "cache_ok L c \<Longrightarrow> 0 < shard_cap L c k"
  by (auto simp: key_shard_def shard_cap_def lru_ok_def dest: cache_ok_shard [where k = k])

lemma insert_view_same: "cache_ok L c \<Longrightarrow> cache_view L (cache_insert L k v c) k = Some v"
  by (simp add: insert_view put_front_same shard_cap_pos)

lemma view_eq_key_shard: "shard_index k' = shard_index k \<Longrightarrow> map_of (key_shard L c k) k' = cache_view L c k'"
  by (simp add: cache_view_def key_shard_def)

lemma insert_view_other:
  assumes "cache_ok L c" "k' \<noteq> k"
  shows "cache_view L (cache_insert L k v c) k' \<in> {None, cache_view L c k'}"
proof (cases "shard_index k' = shard_index k")
  case True
  then show ?thesis
    using put_front_other [OF assms(2) shard_distinct [OF assms(1), of k], of "shard_cap L c k" v]
    by (simp add: insert_view assms(1) view_eq_key_shard)
qed (simp add: insert_view assms(1))

lemma insert_view_room:
  assumes "cache_ok L c" "length (key_shard L c k) < shard_cap L c k \<or> cache_view L c k \<noteq> None"
  shows "cache_view L (cache_insert L k v c) = (cache_view L c)(k \<mapsto> v)"
proof -
  have "length (key_shard L c k) < shard_cap L c k \<or>
      k \<in> fst ` set (key_shard L c k) \<and> length (key_shard L c k) \<le> shard_cap L c k"
    using assms cache_view_dom shard_length by blast
  then have "put_front (shard_cap L c k) k v (key_shard L c k) = (k, v) # AList.delete k (key_shard L c k)"
    by (rule put_front_no_evict [OF shard_distinct [OF assms(1)]])
  then show ?thesis
    by (auto simp: insert_view assms(1) view_eq_key_shard map_of_delete_upd)
qed

lemma insert_view_evict:
  assumes "cache_ok L c" "length (key_shard L c k) = shard_cap L c k" "cache_view L c k = None"
  shows "cache_view L (cache_insert L k v c) =
    (cache_view L c)(fst (last (key_shard L c k)) := None, k \<mapsto> v)"
proof -
  let ?xs = "key_shard L c k"
  have ne: "?xs \<noteq> []" using assms(2) shard_cap_pos [OF assms(1), of k] by auto
  have d: "distinct (map fst ?xs)" using assms(1) by (rule shard_distinct)
  have k: "k \<notin> fst ` set ?xs" using assms(1,3) cache_view_dom by blast
  have put: "put_front (shard_cap L c k) k v ?xs = (k, v) # butlast ?xs"
    by (rule put_front_evict [OF d assms(2) shard_cap_pos [OF assms(1)] k])
  have last_in: "shard_index (fst (last ?xs)) = shard_index k"
    using last_in_set [OF ne] shard_keys_pair [OF assms(1), of "fst (last ?xs)" "snd (last ?xs)" k]
    by (simp add: key_shard_def)
  note drop = map_of_butlast_distinct [OF d ne]
  show ?thesis
    using last_in by (auto simp: fun_eq_iff insert_view assms(1) put drop view_eq_key_shard)
qed

lemma get_shard_ok:
  assumes "cache_ok L c"
  shows "cache_ok L (upd_shard (shard_index k) (snd (lru_get L k (uc_shards c ! shard_index k))) c)"
proof (rule cache_ok_upd [OF assms])
  have ok: "lru_ok L (uc_shards c ! shard_index k)" using assms by (rule cache_ok_shard)
  then show "lru_ok L (snd (lru_get L k (uc_shards c ! shard_index k)))" by (rule get_ok)
  show "\<forall>k' \<in> fst ` set (lru_iter L (snd (lru_get L k (uc_shards c ! shard_index k)))). shard_index k' = shard_index k"
    using shard_keys [OF assms shard_index_less [of k]] by (simp only: get_iter [OF ok] fst_set_promote) blast
qed

lemma get_shard_view:
  assumes "cache_ok L c"
  shows "cache_view L (upd_shard (shard_index k) (snd (lru_get L k (uc_shards c ! shard_index k))) c) = cache_view L c"
  using assms
  by (simp add: fun_eq_iff cache_view_upd get_iter cache_ok_shard map_of_promote) (simp add: cache_view_def)

lemma get_value_view: "cache_ok L c \<Longrightarrow> fst (lru_get L k (uc_shards c ! shard_index k)) = cache_view L c k"
  by (simp add: get_value cache_ok_shard cache_view_def)

lemma get_spec:
  assumes "cache_ok L c" "cache_get L B k c = (r, c')"
  shows "cache_ok L c'" "cache_view L c' = cache_view L c"
    "r = (case cache_view L c k of Some v \<Rightarrow> Inr v
          | None \<Rightarrow> Inl (QueryFailed (CacheMissFor (to_output_id_string B k))))"
    "uc_stats c' = (if cache_view L c k = None then record_miss else record_hit) (uc_stats c)"
  using assms get_shard_ok [OF assms(1), of k] get_shard_view [OF assms(1), of k] get_value_view [OF assms(1), of k]
  by (auto simp: cache_get_def Let_def split: prod.splits option.splits)

lemma get_quiet_spec:
  assumes "cache_ok L c" "cache_get_quiet L B k c = (r, c')"
  shows "cache_ok L c'" "cache_view L c' = cache_view L c"
    "r = (case cache_view L c k of Some v \<Rightarrow> Inr v
          | None \<Rightarrow> Inl (QueryFailed (SameBlockMissFor (to_output_id_string B k))))"
    "uc_stats c' = uc_stats c"
  using assms get_shard_ok [OF assms(1), of k] get_shard_view [OF assms(1), of k] get_value_view [OF assms(1), of k]
  by (auto simp: cache_get_quiet_def Let_def split: prod.splits option.splits)

lemma pop_shard_ok:
  assumes "cache_ok L c"
  shows "cache_ok L (upd_shard (shard_index k) (snd (lru_pop L k (uc_shards c ! shard_index k))) c)"
proof (rule cache_ok_upd [OF assms])
  have ok: "lru_ok L (uc_shards c ! shard_index k)" using assms by (rule cache_ok_shard)
  then show "lru_ok L (snd (lru_pop L k (uc_shards c ! shard_index k)))" by (rule pop_ok)
  show "\<forall>k' \<in> fst ` set (lru_iter L (snd (lru_pop L k (uc_shards c ! shard_index k)))). shard_index k' = shard_index k"
    using shard_keys_pair [OF assms] by (auto simp: pop_iter [OF ok] set_delete)
qed

lemma pop_shard_view:
  assumes "cache_ok L c"
  shows "cache_view L (upd_shard (shard_index k) (snd (lru_pop L k (uc_shards c ! shard_index k))) c)
    = (cache_view L c)(k := None)"
  using assms
  by (auto simp: fun_eq_iff cache_view_upd pop_iter cache_ok_shard map_of_delete_upd) (simp_all add: cache_view_def)

lemma pop_value_view: "cache_ok L c \<Longrightarrow> fst (lru_pop L k (uc_shards c ! shard_index k)) = cache_view L c k"
  by (simp add: pop_value cache_ok_shard cache_view_def)

lemma remove_spec:
  assumes "cache_ok L c" "cache_remove L k c = (b, c')"
  shows "cache_ok L c'" "cache_view L c' = (cache_view L c)(k := None)"
    "b = (cache_view L c k \<noteq> None)"
    "uc_stats c' = (if cache_view L c k \<noteq> None then record_removal (uc_stats c) else uc_stats c)"
  using assms pop_shard_ok [OF assms(1), of k] pop_shard_view [OF assms(1), of k] pop_value_view [OF assms(1), of k]
  by (auto simp: cache_remove_def Let_def split: prod.splits if_splits)

text \<open>The batch lookup: what one key does, then the fold over all keys.\<close>

lemma get_one_spec:
  assumes "cache_ok L c" "get_one L (shard_index k) k (c, f, m) = (c', f', m')"
  shows "cache_ok L c'" "cache_view L c' = cache_view L c"
    "f' = f ++ (cache_view L c |` {k})"
    "m' = m @ filter (\<lambda>k. cache_view L c k = None) [k]"
    "uc_stats c' = (if cache_view L c k = None then record_miss else record_hit) (uc_stats c)"
proof -
  have found: "f ++ (cache_view L c |` {k}) = (case cache_view L c k of None \<Rightarrow> f | Some v \<Rightarrow> f(k \<mapsto> v))"
    by (auto simp: fun_eq_iff map_add_def restrict_map_def split: option.splits)
  show "cache_ok L c'" "cache_view L c' = cache_view L c"
    "f' = f ++ (cache_view L c |` {k})"
    "m' = m @ filter (\<lambda>k. cache_view L c k = None) [k]"
    "uc_stats c' = (if cache_view L c k = None then record_miss else record_hit) (uc_stats c)"
    using assms(2) get_shard_ok [OF assms(1), of k] get_shard_view [OF assms(1), of k] get_value_view [OF assms(1), of k]
    by (auto simp: get_one_def Let_def found split: prod.splits option.splits)
qed

lemma get_fold_spec:
  assumes "cache_ok L c" "fold (\<lambda>k. get_one L (shard_index k) k) ks (c, f, m) = (c', f', m')"
  shows "cache_ok L c' \<and> cache_view L c' = cache_view L c
    \<and> f' = f ++ (cache_view L c |` set ks)
    \<and> m' = m @ filter (\<lambda>k. cache_view L c k = None) ks
    \<and> uc_stats c' = (uc_stats c)\<lparr>
         st_hits := st_hits (uc_stats c) + of_nat (length (filter (\<lambda>k. cache_view L c k \<noteq> None) ks)),
         st_misses := st_misses (uc_stats c) + of_nat (length (filter (\<lambda>k. cache_view L c k = None) ks))\<rparr>"
  using assms
proof (induction ks arbitrary: c f m)
  case (Cons k ks)
  obtain c1 f1 m1 where one: "get_one L (shard_index k) k (c, f, m) = (c1, f1, m1)"
    by (metis prod_cases3)
  note spec = get_one_spec [OF Cons.prems(1) one]
  have rest: "fold (\<lambda>k. get_one L (shard_index k) k) ks (c1, f1, m1) = (c', f', m')"
    using Cons.prems(2) one by simp
  have restrict: "(f ++ (v |` {k})) ++ (v |` set ks) = f ++ (v |` set (k # ks))" for v :: "utxo_key \<rightharpoonup> cached_output"
    by (auto simp: fun_eq_iff map_add_def restrict_map_def split: option.splits)
  show ?case
    using Cons.IH [OF spec(1) rest] spec(2-5)
    by (simp add: restrict stats_defs)
qed (simp add: map_add_def restrict_map_def)

lemma get_many_spec:
  assumes "cache_ok L c" "cache_get_many L keys c = (c', found, misses)"
  shows "cache_ok L c'" "cache_view L c' = cache_view L c"
    "found = cache_view L c |` set keys"
    "misses = filter (\<lambda>k. cache_view L c k = None) (concat (group_by_shard keys))"
    "uc_stats c' = (uc_stats c)\<lparr>
         st_hits := st_hits (uc_stats c) + of_nat (length (filter (\<lambda>k. cache_view L c k \<noteq> None) keys)),
         st_misses := st_misses (uc_stats c) + of_nat (length (filter (\<lambda>k. cache_view L c k = None) keys))\<rparr>"
proof -
  let ?ks = "concat (group_by_shard keys)"
  have run: "fold (\<lambda>k. get_one L (shard_index k) k) ?ks (c, Map.empty, []) = (c', found, misses)"
    using assms(2) by (simp add: cache_get_many_def fold_enumerate_groups)
  have len: "length (filter P ?ks) = length (filter P keys)" for P
    by (metis mset_filter mset_group_by_shard size_mset)
  note spec = get_fold_spec [OF assms(1) run]
  show "cache_ok L c'" "cache_view L c' = cache_view L c" using spec by auto
  show "found = cache_view L c |` set keys" using spec by (simp only: set_group_by_shard) simp
  show "misses = filter (\<lambda>k. cache_view L c k = None) ?ks" using spec by simp
  show "uc_stats c' = (uc_stats c)\<lparr>
         st_hits := st_hits (uc_stats c) + of_nat (length (filter (\<lambda>k. cache_view L c k \<noteq> None) keys)),
         st_misses := st_misses (uc_stats c) + of_nat (length (filter (\<lambda>k. cache_view L c k = None) keys))\<rparr>"
    using spec by (simp only: len)
qed

lemma get_many_misses:
  assumes "cache_ok L c" "cache_get_many L keys c = (c', found, misses)"
  shows "mset misses = filter_mset (\<lambda>k. cache_view L c k = None) (mset keys)"
    "set misses = {k \<in> set keys. cache_view L c k = None}"
proof -
  show "mset misses = filter_mset (\<lambda>k. cache_view L c k = None) (mset keys)"
    by (simp only: get_many_spec(4) [OF assms] mset_filter mset_group_by_shard)
  then show "set misses = {k \<in> set keys. cache_view L c k = None}"
    by (metis set_mset_filter set_mset_mset)
qed

text \<open>The batch removal.\<close>

lemma remove_one_spec:
  assumes "cache_ok L c"
  shows "cache_ok L (remove_one L (shard_index k) k c)"
    "cache_view L (remove_one L (shard_index k) k c) = (cache_view L c)(k := None)"
    "uc_stats (remove_one L (shard_index k) k c) =
      (if cache_view L c k \<noteq> None then record_removal (uc_stats c) else uc_stats c)"
  using pop_shard_ok [OF assms, of k] pop_shard_view [OF assms, of k] pop_value_view [OF assms, of k]
  by (auto simp: remove_one_def Let_def split: prod.splits)

lemma remove_fold_spec:
  assumes "cache_ok L c"
  shows "cache_ok L (fold (\<lambda>k. remove_one L (shard_index k) k) ks c) \<and>
    cache_view L (fold (\<lambda>k. remove_one L (shard_index k) k) ks c) = cache_view L c |` (- set ks) \<and>
    uc_stats (fold (\<lambda>k. remove_one L (shard_index k) k) ks c) = (uc_stats c)\<lparr>
      st_removals := st_removals (uc_stats c) + of_nat (card (set ks \<inter> dom (cache_view L c)))\<rparr>"
  using assms
proof (induction ks arbitrary: c)
  case (Cons k ks)
  let ?c = "remove_one L (shard_index k) k c"
  note one = remove_one_spec [OF Cons.prems, of k]
  have card: "card (set (k # ks) \<inter> dom (cache_view L c)) =
      (if cache_view L c k = None then 0 else 1) + card (set ks \<inter> dom (cache_view L ?c))"
  proof -
    have "set (k # ks) \<inter> dom (cache_view L c) =
        (if cache_view L c k = None then {} else {k}) \<union> (set ks \<inter> dom (cache_view L ?c))"
      by (auto simp: one(2))
    then show ?thesis by (auto simp: one(2) card_insert_if)
  qed
  have view: "(cache_view L c)(k := None) |` (- set ks) = cache_view L c |` (- set (k # ks))"
    by (auto simp: restrict_map_def fun_eq_iff)
  note IH = Cons.IH [OF one(1)]
  have ok: "cache_ok L (fold (\<lambda>k. remove_one L (shard_index k) k) (k # ks) c)"
    using IH by simp
  have "cache_view L (fold (\<lambda>k. remove_one L (shard_index k) k) (k # ks) c) =
      cache_view L ?c |` (- set ks)"
    using IH by simp
  then have v: "cache_view L (fold (\<lambda>k. remove_one L (shard_index k) k) (k # ks) c) =
      cache_view L c |` (- set (k # ks))"
    unfolding one(2) view .
  have st: "uc_stats (fold (\<lambda>k. remove_one L (shard_index k) k) (k # ks) c) =
      (uc_stats ?c)\<lparr>st_removals := st_removals (uc_stats ?c) + of_nat (card (set ks \<inter> dom (cache_view L ?c)))\<rparr>"
    using IH by simp
  show ?case
    unfolding st v one(3) card using ok by (auto simp: stats_defs)
qed (simp add: restrict_map_def)

lemma remove_many_spec:
  assumes "cache_ok L c"
  shows "cache_ok L (cache_remove_many L keys c)"
    "cache_view L (cache_remove_many L keys c) = cache_view L c |` (- set keys)"
    "uc_stats (cache_remove_many L keys c) = (uc_stats c)\<lparr>
      st_removals := st_removals (uc_stats c) + of_nat (card (set keys \<inter> dom (cache_view L c)))\<rparr>"
  using remove_fold_spec [OF assms, of "concat (group_by_shard keys)"]
  by (simp_all only: cache_remove_many_def fold_enumerate_groups set_group_by_shard)

text \<open>Sizes: the length counts the keys of the view, and never exceeds the capacity.\<close>

lemma len_dom_view:
  assumes "cache_ok L c"
  shows "cache_len L c = card (dom (cache_view L c))"
proof -
  let ?K = "\<lambda>i. fst ` set (lru_iter L (uc_shards c ! i))"
  have ok: "lru_ok L (uc_shards c ! i)" if "i < NUM_SHARDS" for i using assms that by (simp add: cache_ok_def)
  have n: "length (uc_shards c) = NUM_SHARDS" using assms by (simp add: cache_ok_def)
  have card: "lru_len L (uc_shards c ! i) = card (?K i)" if "i < NUM_SHARDS" for i
    using ok [OF that] by (simp add: len_eq lru_ok_def) (metis distinct_card length_map list.set_map)
  have "cache_len L c = (\<Sum>i<NUM_SHARDS. lru_len L (uc_shards c ! i))"
    by (simp add: cache_len_def sum_list_sum_nth n atLeast0LessThan)
  also have "\<dots> = (\<Sum>i<NUM_SHARDS. card (?K i))" using card by simp
  also have "\<dots> = card (\<Union>i<NUM_SHARDS. ?K i)"
  proof (rule card_UN_disjoint [symmetric])
    show "\<forall>i\<in>{..<NUM_SHARDS}. \<forall>j\<in>{..<NUM_SHARDS}. i \<noteq> j \<longrightarrow> ?K i \<inter> ?K j = {}"
      using shard_keys [OF assms] by blast
  qed auto
  also have "(\<Union>i<NUM_SHARDS. ?K i) = dom (cache_view L c)"
  proof (rule set_eqI)
    fix k
    have "k \<in> dom (cache_view L c) \<longleftrightarrow> k \<in> ?K (shard_index k)"
      using cache_view_dom [OF assms, of k] by (simp add: dom_def key_shard_def)
    then show "k \<in> (\<Union>i<NUM_SHARDS. ?K i) \<longleftrightarrow> k \<in> dom (cache_view L c)"
      using shard_keys [OF assms] shard_index_less by blast
  qed
  finally show ?thesis .
qed

lemma len_le_capacity: "cache_ok L c \<Longrightarrow> cache_len L c \<le> cache_capacity L c"
  unfolding cache_len_def cache_capacity_def
  by (rule sum_list_mono) (auto simp: cache_ok_def in_set_conv_nth lru_ok_def len_eq)

text \<open>Pre-warming inserts only where there is room, so it never evicts.\<close>

lemma insert_prewarm_spec:
  assumes "cache_ok L c" "insert_prewarm L k v c = (b, c')"
  shows "cache_ok L c'"
    "b \<longleftrightarrow> length (key_shard L c k) < shard_cap L c k"
    "cache_view L c' = (if b then (cache_view L c)(k \<mapsto> v) else cache_view L c)"
proof -
  have len: "lru_len L (uc_shards c ! shard_index k) = length (key_shard L c k)"
    using assms(1) by (simp add: len_eq cache_ok_shard key_shard_def)
  show b: "b \<longleftrightarrow> length (key_shard L c k) < shard_cap L c k"
    using assms(2) by (auto simp: insert_prewarm_def Let_def len shard_cap_def split: if_splits)
  have c': "c' = (if b then cache_insert L k v c else c)"
    using assms(2) by (auto simp: insert_prewarm_def cache_insert_def Let_def split: if_splits)
  show "cache_ok L c'" using assms(1) by (simp add: c' insert_ok)
  show "cache_view L c' = (if b then (cache_view L c)(k \<mapsto> v) else cache_view L c)"
    using insert_view_room [OF assms(1)] b by (simp add: c')
qed

end

end
