(* ===== verification/CacheStore.thy ===== *)
theory CacheStore
  imports CacheLaws
begin

text \<open>
  The contract of the UTXO cache towards its clients. \<open>utxo_store\<close> is the interface the
  ingestion relies on: a store answers only what was put into it, it may forget entries
  (eviction), it never invents or alters one. \<open>store_step\<close> is the abstract machine with
  that freedom; the sharded LRU cache refines it operation by operation. The lookup with
  database fallback is specified here too.
\<close>

section \<open>The store interface\<close>

locale utxo_store =
  fixes ok :: "'c \<Rightarrow> bool"
    and view :: "'c \<Rightarrow> utxo_key \<rightharpoonup> cached_output"
    and ins :: "utxo_key \<Rightarrow> cached_output \<Rightarrow> 'c \<Rightarrow> 'c"
    and get_all :: "utxo_key list \<Rightarrow> 'c \<Rightarrow> 'c \<times> (utxo_key \<rightharpoonup> cached_output) \<times> utxo_key list"
    and del :: "utxo_key list \<Rightarrow> 'c \<Rightarrow> 'c"
  assumes ins_ok: "ok c \<Longrightarrow> ok (ins k v c)"
    and ins_same: "ok c \<Longrightarrow> view (ins k v c) k = Some v"
    and ins_other: "ok c \<Longrightarrow> k' \<noteq> k \<Longrightarrow> view (ins k v c) k' \<in> {None, view c k'}"
    and get_all_ok: "ok c \<Longrightarrow> get_all ks c = (c', f, m) \<Longrightarrow> ok c'"
    and get_all_view: "ok c \<Longrightarrow> get_all ks c = (c', f, m) \<Longrightarrow> view c' = view c"
    and get_all_found: "ok c \<Longrightarrow> get_all ks c = (c', f, m) \<Longrightarrow> f = view c |` set ks"
    and get_all_misses: "ok c \<Longrightarrow> get_all ks c = (c', f, m) \<Longrightarrow> set m = {k \<in> set ks. view c k = None}"
    and del_ok: "ok c \<Longrightarrow> ok (del ks c)"
    and del_view: "ok c \<Longrightarrow> view (del ks c) = view c |` (- set ks)"
begin

lemma ins_view_le: "ok c \<Longrightarrow> view (ins k v c) \<subseteq>\<^sub>m (view c)(k \<mapsto> v)"
  using ins_same [of c k v] ins_other [of c _ k v] by (fastforce simp: map_le_iff)

lemma ins_le: "ok c \<Longrightarrow> view c \<subseteq>\<^sub>m U \<Longrightarrow> U k = Some v \<Longrightarrow> view (ins k v c) \<subseteq>\<^sub>m U"
  using ins_view_le [of c k v] by (fastforce simp: map_le_iff split: if_splits)

lemma ins_list_ok: "ok c \<Longrightarrow> ok (fold (\<lambda>(k, v). ins k v) kvs c)"
  by (induction kvs arbitrary: c) (auto simp: ins_ok)

lemma ins_list_le:
  "ok c \<Longrightarrow> view c \<subseteq>\<^sub>m U \<Longrightarrow> (\<And>k v. (k, v) \<in> set kvs \<Longrightarrow> U k = Some v) \<Longrightarrow>
    view (fold (\<lambda>(k, v). ins k v) kvs c) \<subseteq>\<^sub>m U"
  by (induction kvs arbitrary: c) (auto simp: ins_ok ins_le)

lemma get_all_le: "ok c \<Longrightarrow> view c \<subseteq>\<^sub>m U \<Longrightarrow> get_all ks c = (c', f, m) \<Longrightarrow> f \<subseteq>\<^sub>m U"
  by (drule (1) get_all_found) (auto simp: map_le_iff restrict_map_def split: if_splits)

lemma get_all_dom: "ok c \<Longrightarrow> get_all ks c = (c', f, m) \<Longrightarrow> dom f = set ks - set m"
  by (frule (1) get_all_found, drule (1) get_all_misses) (auto simp: restrict_map_def dom_def split: if_splits)

lemma del_le: "ok c \<Longrightarrow> view c \<subseteq>\<^sub>m U \<Longrightarrow> view (del ks c) \<subseteq>\<^sub>m U"
  by (auto simp: del_view map_le_iff restrict_map_def split: if_splits)

end

sublocale utxo_lru \<subseteq> utxo_store "cache_ok L" "cache_view L" "cache_insert L" "cache_get_many L" "cache_remove_many L"
proof unfold_locales
  show "cache_ok L c \<Longrightarrow> cache_get_many L ks c = (c', f, m) \<Longrightarrow> set m = {k \<in> set ks. cache_view L c k = None}"
    for ks c c' f m by (rule get_many_misses(2))
next
  show "cache_ok L c \<Longrightarrow> k' \<noteq> k \<Longrightarrow> cache_view L (cache_insert L k v c) k' \<in> {None, cache_view L c k'}"
    for c k' k v by (rule insert_view_other)
qed (simp_all only: insert_ok insert_view_same get_many_spec(1-3) remove_many_spec(1,2))

lemma utxo_lru_iff: "lru L \<longleftrightarrow> utxo_lru L"
  by (simp add: utxo_lru_def)

interpretation ref_cache: utxo_lru "ref_lru_ops :: (utxo_key, cached_output) ref_lru utxo_lru_ops"
  by (simp add: utxo_lru_def ref_lru.lru_axioms)

section \<open>Operations as steps\<close>

datatype cache_op =
    OpInsert utxo_key cached_output
  | OpGet utxo_key
  | OpGetQuiet utxo_key
  | OpGetMany "utxo_key list"
  | OpRemove utxo_key
  | OpRemoveMany "utxo_key list"
  | OpPrewarm utxo_key cached_output
  | OpAdjustMisses u64
  | OpResetStats

fun cache_step :: "'c utxo_lru_ops \<Rightarrow> btc \<Rightarrow> cache_op \<Rightarrow> 'c utxo_cache \<Rightarrow> 'c utxo_cache" where
  "cache_step L B (OpInsert k v) c = cache_insert L k v c"
| "cache_step L B (OpGet k) c = snd (cache_get L B k c)"
| "cache_step L B (OpGetQuiet k) c = snd (cache_get_quiet L B k c)"
| "cache_step L B (OpGetMany ks) c = fst (cache_get_many L ks c)"
| "cache_step L B (OpRemove k) c = snd (cache_remove L k c)"
| "cache_step L B (OpRemoveMany ks) c = cache_remove_many L ks c"
| "cache_step L B (OpPrewarm k v) c = snd (insert_prewarm L k v c)"
| "cache_step L B (OpAdjustMisses n) c = cache_adjust_misses n c"
| "cache_step L B OpResetStats c = cache_reset_stats c"

text \<open>The abstract store: an insertion makes its key present and may forget others, a
  pre-warming insertion happens or not, a removal is exact, nothing else changes.\<close>

inductive store_step :: "cache_op \<Rightarrow> (utxo_key \<rightharpoonup> cached_output) \<Rightarrow> (utxo_key \<rightharpoonup> cached_output) \<Rightarrow> bool" where
  insert: "m' \<subseteq>\<^sub>m m(k \<mapsto> v) \<Longrightarrow> m' k = Some v \<Longrightarrow> store_step (OpInsert k v) m m'"
| get: "store_step (OpGet k) m m"
| get_quiet: "store_step (OpGetQuiet k) m m"
| get_many: "store_step (OpGetMany ks) m m"
| remove: "store_step (OpRemove k) m (m(k := None))"
| remove_many: "store_step (OpRemoveMany ks) m (m |` (- set ks))"
| prewarm: "store_step (OpPrewarm k v) m (m(k \<mapsto> v))"
| prewarm_full: "store_step (OpPrewarm k v) m m"
| adjust: "store_step (OpAdjustMisses n) m m"
| reset: "store_step OpResetStats m m"

inductive_cases store_step_elims:
  "store_step (OpInsert k v) m m'" "store_step (OpPrewarm k v) m m'" "store_step (OpRemove k) m m'"
  "store_step (OpRemoveMany ks) m m'" "store_step (OpGet k) m m'" "store_step (OpGetQuiet k) m m'"
  "store_step (OpGetMany ks) m m'" "store_step (OpAdjustMisses n) m m'" "store_step OpResetStats m m'"

definition op_agrees :: "(utxo_key \<rightharpoonup> cached_output) \<Rightarrow> cache_op \<Rightarrow> bool" where
  "op_agrees U op = (case op of OpInsert k v \<Rightarrow> U k = Some v | OpPrewarm k v \<Rightarrow> U k = Some v | _ \<Rightarrow> True)"

lemma store_step_agrees:
  assumes "store_step op m m'" "m \<subseteq>\<^sub>m U" "op_agrees U op"
  shows "m' \<subseteq>\<^sub>m U"
  using assms
  by (induction rule: store_step.induct)
    (unfold map_le_iff op_agrees_def, (fastforce simp: restrict_map_def split: if_splits)+)

text \<open>A run is a sequence of operations from a fresh cache.\<close>

definition cache_run :: "'c utxo_lru_ops \<Rightarrow> btc \<Rightarrow> cache_op list \<Rightarrow> 'c utxo_cache \<Rightarrow> 'c utxo_cache" where
  "cache_run L B ops c = fold (cache_step L B) ops c"

context utxo_lru
begin

lemma capacity_put:
  assumes "cache_ok L c" "lru_cap L s = lru_cap L (uc_shards c ! i)" "i < NUM_SHARDS"
  shows "cache_capacity L (upd_shard i s c) = cache_capacity L c"
proof -
  have "map (lru_cap L) ((uc_shards c)[i := s]) = map (lru_cap L) (uc_shards c)"
    using assms by (simp add: map_update cache_ok_def list_update_same_conv)
  then show ?thesis by (simp add: cache_capacity_def)
qed

lemma capacity_stats [simp]: "cache_capacity L (upd_stats f c) = cache_capacity L c"
  by (simp add: cache_capacity_def)

lemma capacity_insert: "cache_ok L c \<Longrightarrow> cache_capacity L (cache_insert L k v c) = cache_capacity L c"
  by (simp add: cache_insert_def Let_def capacity_put put_cap cache_ok_shard)

lemma capacity_prewarm: "cache_ok L c \<Longrightarrow> cache_capacity L (snd (insert_prewarm L k v c)) = cache_capacity L c"
  by (simp add: insert_prewarm_def Let_def capacity_put put_cap cache_ok_shard)

lemma capacity_get_shard:
  "cache_ok L c \<Longrightarrow> cache_capacity L (upd_shard (shard_index k) (snd (lru_get L k (uc_shards c ! shard_index k))) c) = cache_capacity L c"
  and capacity_pop_shard:
  "cache_ok L c \<Longrightarrow> cache_capacity L (upd_shard (shard_index k) (snd (lru_pop L k (uc_shards c ! shard_index k))) c) = cache_capacity L c"
  by (simp_all add: capacity_put get_cap pop_cap cache_ok_shard)

lemma capacity_get_one:
  assumes "cache_ok L (fst st)"
  shows "cache_capacity L (fst (get_one L (shard_index k) k st)) = cache_capacity L (fst st)"
  using assms capacity_get_shard [of "fst st" k]
  by (auto simp: get_one_def Let_def split: prod.splits option.splits)

lemma capacity_get_many:
  assumes "cache_ok L c"
  shows "cache_capacity L (fst (cache_get_many L ks c)) = cache_capacity L c"
proof -
  have "cache_ok L (fst st) \<Longrightarrow>
      cache_capacity L (fst (fold (\<lambda>k. get_one L (shard_index k) k) ks st)) = cache_capacity L (fst st)" for ks st
  proof (induction ks arbitrary: st)
    case (Cons k ks)
    have "cache_ok L (fst (get_one L (shard_index k) k st))"
      using Cons.prems get_one_spec(1) by (metis prod_cases3 fst_conv)
    with Cons show ?case by (simp add: capacity_get_one)
  qed simp
  with assms show ?thesis by (simp add: cache_get_many_def fold_enumerate_groups)
qed

lemma capacity_remove_many:
  assumes "cache_ok L c"
  shows "cache_capacity L (cache_remove_many L ks c) = cache_capacity L c"
proof -
  have one: "cache_ok L c \<Longrightarrow> cache_capacity L (remove_one L (shard_index k) k c) = cache_capacity L c" for c k
    using capacity_pop_shard [of c k] by (auto simp: remove_one_def Let_def split: prod.splits)
  have "cache_ok L c \<Longrightarrow>
      cache_capacity L (fold (\<lambda>k. remove_one L (shard_index k) k) ks c) = cache_capacity L c" for ks c
    by (induction ks arbitrary: c) (simp_all add: one remove_one_spec(1))
  with assms show ?thesis by (simp add: cache_remove_many_def fold_enumerate_groups)
qed

lemma capacity_get: "cache_ok L c \<Longrightarrow> cache_capacity L (snd (cache_get L B k c)) = cache_capacity L c"
  and capacity_get_quiet: "cache_ok L c \<Longrightarrow> cache_capacity L (snd (cache_get_quiet L B k c)) = cache_capacity L c"
  and capacity_remove: "cache_ok L c \<Longrightarrow> cache_capacity L (snd (cache_remove L k c)) = cache_capacity L c"
  using capacity_get_shard [of c k] capacity_pop_shard [of c k]
  by (auto simp: cache_get_def cache_get_quiet_def cache_remove_def Let_def split: prod.splits option.splits)

lemma step_ok:
  assumes "cache_ok L c"
  shows "cache_ok L (cache_step L B op c)"
proof (cases op)
  case (OpGetMany ks)
  then show ?thesis using get_many_spec(1) [OF assms] by (metis cache_step.simps(4) prod_cases3 fst_conv)
next
  case (OpPrewarm k v)
  then show ?thesis using insert_prewarm_spec(1) [OF assms] by (metis cache_step.simps(7) prod.collapse)
next
  case (OpGet k)
  then show ?thesis using get_spec(1) [OF assms] by (metis cache_step.simps(2) prod.collapse)
next
  case (OpGetQuiet k)
  then show ?thesis using get_quiet_spec(1) [OF assms] by (metis cache_step.simps(3) prod.collapse)
next
  case (OpRemove k)
  then show ?thesis using remove_spec(1) [OF assms] by (metis cache_step.simps(5) prod.collapse)
qed (simp_all add: insert_ok remove_many_spec(1) assms cache_adjust_misses_def cache_reset_stats_def)

lemma step_refines:
  assumes "cache_ok L c"
  shows "store_step op (cache_view L c) (cache_view L (cache_step L B op c))"
proof (cases op)
  case (OpInsert k v)
  then show ?thesis using ins_view_le [OF assms] insert_view_same [OF assms] by (auto intro: store_step.insert)
next
  case (OpGet k)
  have "cache_view L (snd (cache_get L B k c)) = cache_view L c"
    using get_spec(2) [OF assms] by (metis prod.collapse)
  then show ?thesis by (simp add: OpGet store_step.get)
next
  case (OpGetQuiet k)
  have "cache_view L (snd (cache_get_quiet L B k c)) = cache_view L c"
    using get_quiet_spec(2) [OF assms] by (metis prod.collapse)
  then show ?thesis by (simp add: OpGetQuiet store_step.get_quiet)
next
  case (OpGetMany ks)
  have "cache_view L (fst (cache_get_many L ks c)) = cache_view L c"
    using get_many_spec(2) [OF assms] by (metis prod_cases3 fst_conv)
  then show ?thesis by (simp add: OpGetMany store_step.get_many)
next
  case (OpRemove k)
  have "cache_view L (snd (cache_remove L k c)) = (cache_view L c)(k := None)"
    using remove_spec(2) [OF assms] by (metis prod.collapse)
  then show ?thesis by (simp only: OpRemove cache_step.simps) (rule store_step.remove)
next
  case (OpPrewarm k v)
  have "cache_view L (snd (insert_prewarm L k v c)) \<in> {(cache_view L c)(k \<mapsto> v), cache_view L c}"
    using insert_prewarm_spec(3) [OF assms] by (metis insertCI prod.collapse)
  then show ?thesis by (auto simp: OpPrewarm intro: store_step.prewarm store_step.prewarm_full)
qed (simp_all add: remove_many_spec(2) assms cache_adjust_misses_def cache_reset_stats_def
    store_step.remove_many store_step.adjust store_step.reset)

lemma step_capacity: "cache_ok L c \<Longrightarrow> cache_capacity L (cache_step L B op c) = cache_capacity L c"
  by (cases op) (simp_all add: capacity_insert capacity_get capacity_get_quiet capacity_get_many capacity_remove
    capacity_remove_many capacity_prewarm cache_adjust_misses_def cache_reset_stats_def)

lemma run_inv:
  assumes "cache_ok L c"
  shows "cache_ok L (cache_run L B ops c) \<and> cache_capacity L (cache_run L B ops c) = cache_capacity L c"
  using assms by (induction ops arbitrary: c) (simp_all add: cache_run_def step_ok step_capacity)

lemma run_agrees:
  assumes "cache_ok L c" "cache_view L c \<subseteq>\<^sub>m U" "list_all (op_agrees U) ops"
  shows "cache_view L (cache_run L B ops c) \<subseteq>\<^sub>m U"
  using assms
proof (induction ops arbitrary: c)
  case (Cons op ops)
  have "cache_view L (cache_step L B op c) \<subseteq>\<^sub>m U"
    using store_step_agrees [OF step_refines] Cons.prems by simp
  then show ?case using Cons step_ok by (simp add: cache_run_def)
qed (simp add: cache_run_def)

text \<open>Resolving misses from the rows of the database.\<close>

lemma resolve_miss_None: "rm (to_output_id_string B k) = None \<Longrightarrow> resolve_miss L B rm k (c, f, s) = (c, f, s @ [k])"
  and resolve_miss_Some: "rm (to_output_id_string B k) = Some r \<Longrightarrow>
    resolve_miss L B rm k (c, f, s) = (cache_insert L k (lookup_to_cached r) c, f(k \<mapsto> lookup_to_cached r), s)"
  by (simp_all add: resolve_miss_def)

lemma resolve_fold_spec:
  assumes "cache_ok L c" "fold (resolve_miss L B rm) ks (c, f, s) = (c', f', s')"
  shows "cache_ok L c' \<and>
    f' = f ++ (\<lambda>k. if k \<in> set ks then map_option lookup_to_cached (rm (to_output_id_string B k)) else None) \<and>
    s' = s @ filter (\<lambda>k. rm (to_output_id_string B k) = None) ks"
  using assms
proof (induction ks arbitrary: c f s)
  case (Cons k ks)
  show ?case
  proof (cases "rm (to_output_id_string B k)")
    case None
    have "(\<lambda>k'. if k' \<in> set (k # ks) then map_option lookup_to_cached (rm (to_output_id_string B k')) else None)
        = (\<lambda>k'. if k' \<in> set ks then map_option lookup_to_cached (rm (to_output_id_string B k')) else None)"
      using None by auto
    then show ?thesis using Cons.IH [of c f "s @ [k]"] Cons.prems None by (simp add: resolve_miss_None)
  next
    case (Some r)
    have "f(k \<mapsto> lookup_to_cached r) ++ (\<lambda>k'. if k' \<in> set ks then map_option lookup_to_cached (rm (to_output_id_string B k')) else None)
        = f ++ (\<lambda>k'. if k' \<in> set (k # ks) then map_option lookup_to_cached (rm (to_output_id_string B k')) else None)"
      using Some by (auto simp: fun_eq_iff map_add_def split: option.splits)
    note acc = this
    have "cache_ok L (cache_insert L k (lookup_to_cached r) c)" using Cons.prems(1) by (rule insert_ok)
    moreover have "fold (resolve_miss L B rm) ks (cache_insert L k (lookup_to_cached r) c, f(k \<mapsto> lookup_to_cached r), s) = (c', f', s')"
      using Cons.prems(2) by (simp only: fold_simps resolve_miss_Some [of rm B k r, OF Some])
    ultimately show ?thesis using Cons.IH Some unfolding acc [symmetric] by fastforce
  qed
qed (simp add: map_add_def)

lemma fallback_Inr:
  assumes "cache_ok L c" "get_many_with_fallback L B lookup keys (w, c) = (Inr found, w', c')"
    "\<And>ids rows w2. lookup ids w = (Inr rows, w2) \<Longrightarrow> (\<And>i r. result_map rows i = Some r \<Longrightarrow> T i = Some r)"
  shows "cache_ok L c'" "dom found = set keys"
    "\<And>k. k \<in> set keys \<Longrightarrow> found k = (case cache_view L c k of Some v \<Rightarrow> Some v
        | None \<Rightarrow> map_option lookup_to_cached (T (to_output_id_string B k)))"
proof -
  obtain c1 f m where gm: "cache_get_many L keys c = (c1, f, m)" by (metis prod_cases3)
  note get = get_many_spec [OF assms(1) gm] and mis = get_many_misses(2) [OF assms(1) gm]
  have "cache_ok L c' \<and> dom found = set keys \<and> (\<forall>k \<in> set keys. found k = (case cache_view L c k of Some v \<Rightarrow> Some v
        | None \<Rightarrow> map_option lookup_to_cached (T (to_output_id_string B k))))"
  proof (cases "m = []")
    case True
    then have all: "k \<in> set keys \<Longrightarrow> cache_view L c k \<noteq> None" for k using mis by auto
    have "found = f" "c' = c1" using True assms(2) by (simp_all add: get_many_with_fallback_def gm)
    with all get(1,3) show ?thesis
      by (fastforce simp: restrict_map_def split: option.splits if_splits)
  next
    case False
    obtain rows w2 where look: "lookup (map (to_output_id_string B) m) w = (Inr rows, w2)"
      using assms(2) False by (auto simp: get_many_with_fallback_def gm Let_def split: prod.splits sum.splits)
    obtain c3 f3 s3 where res: "fold (resolve_miss L B (result_map rows)) m (upd_stats record_neo4j_fallback c1, f, []) = (c3, f3, s3)"
      by (metis prod_cases3)
    have none: "s3 = []" and eq: "found = f3" "c' = c3"
      using assms(2) False look res
      by (auto simp: get_many_with_fallback_def gm Let_def split: if_splits)
    have "cache_ok L (upd_stats record_neo4j_fallback c1)" using get(1) by simp
    note sp = resolve_fold_spec [OF this res]
    have hit: "k \<in> set m \<Longrightarrow> \<exists>r. result_map rows (to_output_id_string B k) = Some r" for k
      using sp none filter_empty_conv [of "\<lambda>k. result_map rows (to_output_id_string B k) = None" m] by auto
    have val: "found k = (if k \<in> set m then map_option lookup_to_cached (result_map rows (to_output_id_string B k))
        else if k \<in> set keys then cache_view L c k else None)" for k
    proof -
      have "found = f ++ (\<lambda>k. if k \<in> set m then map_option lookup_to_cached (result_map rows (to_output_id_string B k)) else None)"
        using sp eq(1) by blast
      then show ?thesis using hit [of k] by (auto simp: get(3) map_add_def restrict_map_def)
    qed
    have found: "found k = (case cache_view L c k of Some v \<Rightarrow> Some v
        | None \<Rightarrow> map_option lookup_to_cached (T (to_output_id_string B k)))" if "k \<in> set keys" for k
    proof (cases "cache_view L c k")
      case None
      with that have m: "k \<in> set m" using mis by simp
      with hit obtain r where r: "result_map rows (to_output_id_string B k) = Some r" by blast
      then have "T (to_output_id_string B k) = Some r" using assms(3) [OF look] by blast
      with r None m show ?thesis by (simp add: val)
    next
      case (Some v)
      then have "k \<notin> set m" using mis by simp
      with Some that show ?thesis by (simp add: val)
    qed
    have "found k \<noteq> None \<longleftrightarrow> k \<in> set keys" for k
    proof (cases "k \<in> set m")
      case True
      then show ?thesis using hit [OF True] mis by (auto simp: val)
    next
      case False
      then have "k \<in> set keys \<longrightarrow> cache_view L c k \<noteq> None" by (simp add: mis)
      then show ?thesis by (simp only: val False if_False) auto
    qed
    then have "dom found = set keys" by (simp add: dom_def)
    with found sp eq show ?thesis by blast
  qed
  then show "cache_ok L c'" "dom found = set keys"
    "\<And>k. k \<in> set keys \<Longrightarrow> found k = (case cache_view L c k of Some v \<Rightarrow> Some v
        | None \<Rightarrow> map_option lookup_to_cached (T (to_output_id_string B k)))" by blast+
qed

lemma run_bounded:
  assumes "cache_new L n = Some c"
  shows "cache_ok L (cache_run L B ops c) \<and>
    cache_len L (cache_run L B ops c) = card (dom (cache_view L (cache_run L B ops c))) \<and>
    cache_len L (cache_run L B ops c) \<le> 16 * max 1 (n div 16) \<and>
    cache_capacity L (cache_run L B ops c) = 16 * max 1 (n div 16)"
  using run_inv [OF new_cache(1) [OF assms], of B ops] new_cache(4) [OF assms]
    len_le_capacity [of "cache_run L B ops c"] len_dom_view [of "cache_run L B ops c"]
  by (simp del: max.bounded_iff)

lemma get_agrees:
  assumes "cache_ok L c" "cache_view L c \<subseteq>\<^sub>m U" "fst (cache_get L B k c) = Inr v"
  shows "U k = Some v"
proof -
  obtain r c' where g: "cache_get L B k c = (r, c')" by (metis prod.collapse)
  have "cache_view L c k = Some v"
    using get_spec(3) [OF assms(1) g] assms(3) g by (auto split: option.splits)
  with assms(2) show ?thesis by (simp add: map_le_iff)
qed

lemma run_get_agrees:
  assumes "cache_new L n = Some c" "list_all (op_agrees U) ops"
    "fst (cache_get L B k (cache_run L B ops c)) = Inr v"
  shows "U k = Some v"
  using get_agrees [OF _ run_agrees assms(3)] run_inv [OF new_cache(1) [OF assms(1)]] new_cache(1,2) [OF assms(1)] assms(2)
  by simp

lemma insert_exact:
  assumes "cache_ok L c"
  shows "cache_view L (cache_insert L k v c) =
     (if cache_view L c k = None \<and> length (key_shard L c k) = shard_cap L c k
      then (cache_view L c)(fst (last (key_shard L c k)) := None, k \<mapsto> v)
      else (cache_view L c)(k \<mapsto> v))"
proof (cases "cache_view L c k = None \<and> length (key_shard L c k) = shard_cap L c k")
  case True
  then show ?thesis using insert_view_evict [OF assms] by simp
next
  case False
  then have "length (key_shard L c k) < shard_cap L c k \<or> cache_view L c k \<noteq> None"
    using shard_length [OF assms, of k] by auto
  from insert_view_room [OF assms this] show ?thesis by (simp only: False if_False)
qed

lemma insert_shard_order:
  assumes "cache_ok L c"
  shows "key_shard L (cache_insert L k v c) k = put_front (shard_cap L c k) k v (key_shard L c k)"
proof -
  have "shard_index k < length (uc_shards c)" using assms by (simp add: cache_ok_def)
  then show ?thesis
    by (simp add: key_shard_def shard_cap_def cache_insert_def Let_def put_iter [OF cache_ok_shard [OF assms]])
qed

lemma get_many_batch:
  assumes "cache_ok L c" "cache_get_many L keys c = (c', found, misses)"
  shows "cache_view L c' = cache_view L c \<and>
    (\<forall>k. found k = (if k \<in> set keys then cache_view L c k else None)) \<and>
    mset misses = filter_mset (\<lambda>k. cache_view L c k = None) (mset keys) \<and>
    st_hits (uc_stats c') + st_misses (uc_stats c') =
      st_hits (uc_stats c) + st_misses (uc_stats c) + of_nat (length keys)"
proof -
  have "length (filter (\<lambda>k. cache_view L c k \<noteq> None) keys) + length (filter (\<lambda>k. cache_view L c k = None) keys) = length keys"
    by (induction keys) auto
  then have "(of_nat (length (filter (\<lambda>k. cache_view L c k \<noteq> None) keys)) :: u64)
      + of_nat (length (filter (\<lambda>k. cache_view L c k = None) keys)) = of_nat (length keys)"
    by (metis of_nat_add)
  then show ?thesis
    using get_many_spec [OF assms] get_many_misses(1) [OF assms]
    by (simp add: restrict_map_def algebra_simps)
qed

end

section \<open>Properties of the cache\<close>

definition ex_key :: "nat \<Rightarrow> utxo_key" where
  "ex_key n = \<lparr>k_txid = replicate 32 (of_nat n), k_vout = 0\<rparr>"

definition ex_out :: "u64 \<Rightarrow> cached_output" where
  "ex_out a = \<lparr>co_output_index = 0, co_amount = a, co_script_type = TagP2PKH, co_address = Some ''addr''\<rparr>"

definition ex_cache :: "(utxo_key, cached_output) ref_lru utxo_cache" where
  "ex_cache = the (cache_new ref_lru_ops 16)"

lemma ex_cache_new: "cache_new ref_lru_ops 16 = Some ex_cache"
  by (simp add: ex_cache_def cache_new_def)

lemma ex_cache_ok: "cache_ok ref_lru_ops ex_cache" and ex_cache_view: "cache_view ref_lru_ops ex_cache = Map.empty"
  using ref_cache.new_cache [OF ex_cache_new] by simp_all

lemma ref_lru_is_lru: "lru ref_lru_ops"
  by (rule ref_lru.lru_axioms)

text \<open>
  C21. After any sequence of cache operations on a freshly created cache the shard invariant
  holds, the length reported is the number of keys the cache can answer, it is at most the
  capacity, and the capacity is the one the constructor computed (16 shards of at least one
  entry each, whatever the capacity asked for).
\<close>
theorem cache_run_bounded:
  "lru L \<Longrightarrow> cache_new L n = Some c \<Longrightarrow>
    cache_ok L (cache_run L B ops c) \<and>
    cache_len L (cache_run L B ops c) = card (dom (cache_view L (cache_run L B ops c))) \<and>
    cache_len L (cache_run L B ops c) \<le> 16 * max 1 (n div 16) \<and>
    cache_capacity L (cache_run L B ops c) = 16 * max 1 (n div 16)"
  by (rule utxo_lru.run_bounded) (simp_all add: utxo_lru_iff)

theorem cache_run_bounded_witness:
  "let c = cache_run ref_lru_ops ex_btc [OpInsert (ex_key 1) (ex_out 5), OpInsert (ex_key 17) (ex_out 6), OpGet (ex_key 1)] ex_cache
   in cache_len ref_lru_ops c \<le> 16 * max 1 (16 div 16) \<and> cache_len ref_lru_ops c = card (dom (cache_view ref_lru_ops c))"
  unfolding Let_def
  using cache_run_bounded [OF ref_lru_is_lru ex_cache_new,
    of ex_btc "[OpInsert (ex_key 1) (ex_out 5), OpInsert (ex_key 17) (ex_out 6), OpGet (ex_key 1)]"]
  by blast

text \<open>
  C15. Every cache operation is a step of the abstract store: a lookup changes no entry, an
  insertion makes its key present and can only forget other entries, a removal is exact, and
  a pre-warming insertion either happens in full or not at all.
\<close>
theorem cache_refines_store:
  "lru L \<Longrightarrow> cache_ok L c \<Longrightarrow>
    store_step op (cache_view L c) (cache_view L (cache_step L B op c)) \<and> cache_ok L (cache_step L B op c)"
  by (simp add: utxo_lru_iff utxo_lru.step_refines utxo_lru.step_ok)

theorem cache_refines_store_witness:
  "store_step (OpInsert (ex_key 1) (ex_out 5)) Map.empty
     (cache_view ref_lru_ops (cache_step ref_lru_ops ex_btc (OpInsert (ex_key 1) (ex_out 5)) ex_cache))"
  using cache_refines_store [OF ref_lru_is_lru ex_cache_ok, of "OpInsert (ex_key 1) (ex_out 5)" ex_btc]
  unfolding ex_cache_view by blast

text \<open>
  C16. The cache never invents or alters an output: if every value ever inserted or pre-warmed
  is the one a ledger assigns to its key, every lookup that succeeds, after any sequence of
  operations and evictions, answers with the ledger's value.
\<close>
theorem cache_lookup_agrees:
  "lru L \<Longrightarrow> cache_new L n = Some c \<Longrightarrow> list_all (op_agrees U) ops \<Longrightarrow>
    fst (cache_get L B k (cache_run L B ops c)) = Inr v \<Longrightarrow> U k = Some v"
  by (rule utxo_lru.run_get_agrees) (simp_all add: utxo_lru_iff)

theorem cache_lookup_agrees_witness:
  "[ex_key 1 \<mapsto> ex_out 5] (ex_key 1) = Some (ex_out 5)"
proof (rule cache_lookup_agrees [OF ref_lru_is_lru ex_cache_new, of "[ex_key 1 \<mapsto> ex_out 5]"
      "[OpInsert (ex_key 1) (ex_out 5)]" ex_btc "ex_key 1" "ex_out 5"])
  show "list_all (op_agrees [ex_key 1 \<mapsto> ex_out 5]) [OpInsert (ex_key 1) (ex_out 5)]"
    by (simp add: op_agrees_def)
  show "fst (cache_get ref_lru_ops ex_btc (ex_key 1) (cache_run ref_lru_ops ex_btc [OpInsert (ex_key 1) (ex_out 5)] ex_cache)) = Inr (ex_out 5)"
    by code_simp
qed

text \<open>
  Eviction is exact: inserting a new key into a full shard forgets exactly the least
  recently used entry of that shard, and any other insertion is a plain map update; the
  inserted entry becomes the most recently used one of its shard.
\<close>
lemma cache_insert_evicts_lru:
  "lru L \<Longrightarrow> cache_ok L c \<Longrightarrow>
    cache_view L (cache_insert L k v c) =
     (if cache_view L c k = None \<and> length (key_shard L c k) = shard_cap L c k
      then (cache_view L c)(fst (last (key_shard L c k)) := None, k \<mapsto> v)
      else (cache_view L c)(k \<mapsto> v)) \<and>
    key_shard L (cache_insert L k v c) k = put_front (shard_cap L c k) k v (key_shard L c k)"
  by (intro conjI utxo_lru.insert_exact utxo_lru.insert_shard_order) (simp_all add: utxo_lru_iff)

theorem cache_insert_evicts_lru_witness:
  "cache_view ref_lru_ops (cache_insert ref_lru_ops (ex_key 1) (ex_out 5) ex_cache) = [ex_key 1 \<mapsto> ex_out 5]"
proof -
  have "length (key_shard ref_lru_ops ex_cache (ex_key 1)) \<noteq> shard_cap ref_lru_ops ex_cache (ex_key 1)"
    by code_simp
  with cache_insert_evicts_lru [OF ref_lru_is_lru ex_cache_ok, of "ex_key 1" "ex_out 5"] show ?thesis
    by (simp add: ex_cache_view)
qed

text \<open>
  The batch lookup agrees with single lookups: it leaves every entry in place, returns
  exactly the cached keys among those asked for, reports each missing key as often as it was
  asked for, and counts one hit or miss per key.
\<close>
lemma cache_get_many_correct:
  "lru L \<Longrightarrow> cache_ok L c \<Longrightarrow> cache_get_many L keys c = (c', found, misses) \<Longrightarrow>
    cache_view L c' = cache_view L c \<and>
    (\<forall>k. found k = (if k \<in> set keys then cache_view L c k else None)) \<and>
    mset misses = filter_mset (\<lambda>k. cache_view L c k = None) (mset keys) \<and>
    st_hits (uc_stats c') + st_misses (uc_stats c') =
      st_hits (uc_stats c) + st_misses (uc_stats c) + of_nat (length keys)"
  by (rule utxo_lru.get_many_batch) (simp_all add: utxo_lru_iff)

theorem cache_get_many_correct_witness:
  "mset (snd (snd (cache_get_many ref_lru_ops [ex_key 1, ex_key 2, ex_key 2] ex_cache))) = {#ex_key 1, ex_key 2, ex_key 2#}"
proof -
  obtain c' f m where g: "cache_get_many ref_lru_ops [ex_key 1, ex_key 2, ex_key 2] ex_cache = (c', f, m)"
    by (metis prod_cases3)
  show ?thesis
    using cache_get_many_correct [OF ref_lru_is_lru ex_cache_ok g] unfolding g ex_cache_view by simp
qed

text \<open>
  A lookup with database fallback that succeeds answers every key asked for: with the
  cached output where there is one, and otherwise with the output the database returned for
  that key's output id; the cache invariant is kept.
\<close>
lemma cache_fallback_total:
  "lru L \<Longrightarrow> cache_ok L c \<Longrightarrow>
    get_many_with_fallback L B lookup keys (w, c) = (Inr found, w', c') \<Longrightarrow>
    (\<And>ids rows w2. lookup ids w = (Inr rows, w2) \<Longrightarrow> (\<And>i r. result_map rows i = Some r \<Longrightarrow> T i = Some r)) \<Longrightarrow>
    cache_ok L c' \<and> dom found = set keys \<and>
    (\<forall>k \<in> set keys. found k = (case cache_view L c k of Some v \<Rightarrow> Some v
        | None \<Rightarrow> map_option lookup_to_cached (T (to_output_id_string B k))))"
  by (intro conjI ballI; rule utxo_lru.fallback_Inr) (simp_all add: utxo_lru_iff)

definition ex_lookup :: "string list \<Rightarrow> unit \<Rightarrow> output_lookup_result list wresult \<times> unit" where
  "ex_lookup ids w = (Inr (map (\<lambda>i. \<lparr>olr_output_id = i, olr_output_index = 7, olr_amount = 9,
      olr_script_type = ''P2SH'', olr_address = None\<rparr>) ids), ())"

theorem cache_fallback_total_witness:
  "\<exists>found c'. get_many_with_fallback ref_lru_ops ex_btc ex_lookup [ex_key 1] ((), ex_cache) = (Inr found, (), c') \<and>
     dom found = {ex_key 1}"
proof -
  let ?row = "\<lambda>i. \<lparr>olr_output_id = i, olr_output_index = 7, olr_amount = 9, olr_script_type = ''P2SH'', olr_address = None\<rparr>"
  have T: "result_map rows i = Some r \<Longrightarrow> (\<lambda>i. Some (?row i)) i = Some r" if "ex_lookup ids () = (Inr rows, w2)" for ids rows w2 i r
    using that by (auto simp: ex_lookup_def result_map_def dest!: map_of_SomeD)
  have "case fst (get_many_with_fallback ref_lru_ops ex_btc ex_lookup [ex_key 1] ((), ex_cache)) of Inl _ \<Rightarrow> False | Inr _ \<Rightarrow> True"
    by code_simp
  then obtain found w' c' where run: "get_many_with_fallback ref_lru_ops ex_btc ex_lookup [ex_key 1] ((), ex_cache) = (Inr found, w', c')"
    by (cases "get_many_with_fallback ref_lru_ops ex_btc ex_lookup [ex_key 1] ((), ex_cache)") (auto split: sum.splits)
  show ?thesis
    using cache_fallback_total [OF ref_lru_is_lru ex_cache_ok run T] run by auto
qed

text \<open>
  Output ids name outputs: two keys have the same id only if they are the same output,
  and a key is recovered from the hash part of its id.
\<close>
lemma output_id_injective:
  "txid_text_ok B \<Longrightarrow>
    (to_output_id_string B k = to_output_id_string B k' \<longleftrightarrow> k = k') \<and>
    key_from_hex_txid B (btc_hash_to_string B (k_txid k)) (k_vout k) = Some k"
proof -
  assume ok: "txid_text_ok B"
  have prefix: "takeWhile (\<lambda>c. c \<noteq> CHR '':'') (to_output_id_string B k) = btc_hash_to_string B (k_txid k)" for k
  proof -
    have no: "c \<in> set (btc_hash_to_string B (k_txid k)) \<Longrightarrow> c \<noteq> CHR '':''" for c
      using ok by (auto simp: txid_text_ok_def)
    show ?thesis unfolding to_output_id_string_def
      by (subst takeWhile_append2) (use no in auto)
  qed
  have "k = k'" if eq: "to_output_id_string B k = to_output_id_string B k'"
  proof -
    have "btc_hash_to_string B (k_txid k) = btc_hash_to_string B (k_txid k')" using eq prefix by metis
    moreover from this have "k_vout k = k_vout k'" using eq by (simp add: to_output_id_string_def)
    moreover have "k_txid k = k_txid k'" using ok calculation(1) unfolding txid_text_ok_def by (metis option.inject)
    ultimately show "k = k'" by simp
  qed
  then show ?thesis using ok by (auto simp: key_from_hex_txid_def txid_text_ok_def)
qed

theorem output_id_injective_witness:
  "to_output_id_string ex_btc (ex_key 1) \<noteq> to_output_id_string ex_btc (ex_key 2)"
  using output_id_injective [OF ex_btc_text_ok, of "ex_key 1" "ex_key 2"] by (simp add: ex_key_def)

end
