(* ===== verification/Config.thy ===== *)
theory Config
  imports Chunking CacheStore
begin

text \<open>
  The configuration (\<open>src/src/config/mod.rs\<close> and \<open>loader.rs\<close>): the sections with their
  defaults, the two validations, the cache capacity and the loading from a file. TOML parsing
  and the file system are parameters. \<open>usize\<close> products wrap at 64 bits.
\<close>

section \<open>Sections\<close>

record bitcoin_config =
  bc_blocks_dir :: string
  bc_start_height :: u32
  bc_end_height :: "u32 option"

record neo4j_config =
  nc_uri :: string
  nc_user :: string
  nc_password :: string
  nc_database :: string
  nc_max_connections :: usize
  nc_min_connections :: usize
  nc_connection_timeout_secs :: u64
  nc_fetch_size :: usize
  nc_max_retries :: usize
  nc_write_batch_size :: usize
  nc_query_timeout_secs :: u64

record ingestion_config =
  ic_max_transaction_memory_mb :: usize
  ic_enable_validation :: bool
  ic_validate_every_n_blocks :: u32
  ic_auto_resume :: bool
  ic_validate_on_resume :: bool

record performance_config =
  pc_utxo_cache_memory_mb :: usize
  pc_utxo_prewarm_depth :: u32
  pc_utxo_lookup_batch_size :: usize
  pc_parallel_batches :: usize
  pc_progress_report_interval :: u32
  pc_utxo_cache_file :: string

record logging_config =
  lc_level :: string
  lc_json_format :: bool

record bitcoin_rpc_config =
  rc_url :: string
  rc_user :: string
  rc_password :: string
  rc_batch_size :: usize
  rc_timeout_secs :: u64
  rc_zmq_endpoint :: string
  rc_rpc_max_concurrent :: usize
  rc_zmq_max_reconnect_attempts :: u32
  rc_zmq_reconnect_base_delay_ms :: u64
  rc_zmq_recv_timeout_mins :: u64
  rc_zmq_max_consecutive_failures :: u32

record config =
  cf_bitcoin :: bitcoin_config
  cf_neo4j :: neo4j_config
  cf_ingestion :: ingestion_config
  cf_performance :: performance_config
  cf_logging :: logging_config
  cf_bitcoin_rpc :: "bitcoin_rpc_config option"

section \<open>Defaults\<close>

definition default_query_timeout_secs :: u64 where "default_query_timeout_secs = 120"
definition default_utxo_lookup_batch_size :: usize where "default_utxo_lookup_batch_size = 1000"
definition default_utxo_cache_file :: string where "default_utxo_cache_file = ''utxo_cache.bin''"
definition default_max_transaction_memory_mb :: usize where "default_max_transaction_memory_mb = 600"
definition default_rpc_batch_size :: usize where "default_rpc_batch_size = 50"
definition default_rpc_timeout :: u64 where "default_rpc_timeout = 30"
definition default_rpc_max_concurrent :: usize where "default_rpc_max_concurrent = 32"
definition default_zmq_max_reconnect_attempts :: u32 where "default_zmq_max_reconnect_attempts = 5"
definition default_zmq_reconnect_base_delay_ms :: u64 where "default_zmq_reconnect_base_delay_ms = 1000"
definition default_zmq_recv_timeout_mins :: u64 where "default_zmq_recv_timeout_mins = 60"
definition default_zmq_max_consecutive_failures :: u32 where "default_zmq_max_consecutive_failures = 10"

definition bitcoin_config_default :: bitcoin_config where
  "bitcoin_config_default =
     \<lparr> bc_blocks_dir = ''/data/bitcoin/blocks'', bc_start_height = 0, bc_end_height = None \<rparr>"

definition neo4j_config_default :: neo4j_config where
  "neo4j_config_default =
     \<lparr> nc_uri = ''bolt://localhost:7687'', nc_user = ''neo4j'', nc_password = ''password'',
       nc_database = ''neo4j'', nc_max_connections = 20, nc_min_connections = 2,
       nc_connection_timeout_secs = 30, nc_fetch_size = 500, nc_max_retries = 3,
       nc_write_batch_size = 5000, nc_query_timeout_secs = default_query_timeout_secs \<rparr>"

definition ingestion_config_default :: ingestion_config where
  "ingestion_config_default =
     \<lparr> ic_max_transaction_memory_mb = default_max_transaction_memory_mb, ic_enable_validation = True,
       ic_validate_every_n_blocks = 10000, ic_auto_resume = True, ic_validate_on_resume = True \<rparr>"

definition performance_config_default :: performance_config where
  "performance_config_default =
     \<lparr> pc_utxo_cache_memory_mb = 140, pc_utxo_prewarm_depth = 1000000,
       pc_utxo_lookup_batch_size = default_utxo_lookup_batch_size, pc_parallel_batches = 4,
       pc_progress_report_interval = 500, pc_utxo_cache_file = default_utxo_cache_file \<rparr>"

definition logging_config_default :: logging_config where
  "logging_config_default = \<lparr> lc_level = ''info'', lc_json_format = False \<rparr>"

definition bitcoin_rpc_config_default :: bitcoin_rpc_config where
  "bitcoin_rpc_config_default =
     \<lparr> rc_url = ''http://localhost:8332'', rc_user = ''btcgraph'', rc_password = ''password'',
       rc_batch_size = 50, rc_timeout_secs = 30, rc_zmq_endpoint = ''tcp://127.0.0.1:28332'',
       rc_rpc_max_concurrent = 32, rc_zmq_max_reconnect_attempts = 5,
       rc_zmq_reconnect_base_delay_ms = 1000, rc_zmq_recv_timeout_mins = 60,
       rc_zmq_max_consecutive_failures = 10 \<rparr>"

definition config_default :: config where
  "config_default =
     \<lparr> cf_bitcoin = bitcoin_config_default, cf_neo4j = neo4j_config_default,
       cf_ingestion = ingestion_config_default, cf_performance = performance_config_default,
       cf_logging = logging_config_default, cf_bitcoin_rpc = None \<rparr>"

section \<open>Validation\<close>

datatype config_error =
    LoadError string
  | ParseError string
  | ValidationError string
  | IoError string

definition validate :: "config \<Rightarrow> config_error + unit" where
  "validate c =
     (if nc_uri (cf_neo4j c) = [] then Inl (ValidationError ''Neo4j URI cannot be empty'')
      else if nc_max_connections (cf_neo4j c) = 0 then Inl (ValidationError ''max_connections must be > 0'')
      else if nc_min_connections (cf_neo4j c) > nc_max_connections (cf_neo4j c)
        then Inl (ValidationError ''min_connections cannot exceed max_connections'')
      else if ic_max_transaction_memory_mb (cf_ingestion c) = 0
        then Inl (ValidationError ''max_transaction_memory_mb must be > 0'')
      else if pc_utxo_cache_memory_mb (cf_performance c) = 0
        then Inl (ValidationError ''utxo_cache_memory_mb must be > 0'')
      else if pc_parallel_batches (cf_performance c) = 0
        then Inl (ValidationError ''parallel_batches must be > 0'')
      else Inr ())"

definition validate_rpc :: "config \<Rightarrow> config_error + unit" where
  "validate_rpc c =
     (case cf_bitcoin_rpc c of
        None \<Rightarrow> Inl (ValidationError ''[bitcoin_rpc] section is required for live mode'')
      | Some rpc \<Rightarrow>
          if rc_url rpc = [] then Inl (ValidationError ''bitcoin_rpc.url cannot be empty'')
          else if rc_zmq_endpoint rpc = [] then Inl (ValidationError ''bitcoin_rpc.zmq_endpoint cannot be empty'')
          else if rc_timeout_secs rpc = 0 then Inl (ValidationError ''bitcoin_rpc.timeout_secs must be > 0'')
          else if rc_batch_size rpc = 0 then Inl (ValidationError ''bitcoin_rpc.batch_size must be > 0'')
          else Inr ())"

definition config_cache_capacity :: "performance_config \<Rightarrow> usize" where
  "config_cache_capacity p = (pc_utxo_cache_memory_mb p * 1000000) mod 2 ^ 64 div 72"

text \<open>Reading a file and parsing its text, then the validation.\<close>

definition config_from_file :: "(string \<Rightarrow> string + string) \<Rightarrow> (string \<Rightarrow> string + config) \<Rightarrow> string \<Rightarrow> config_error + config" where
  "config_from_file read_to_string parse_toml path =
     (case read_to_string path of
        Inl e \<Rightarrow> Inl (LoadError (''Failed to read '' @ path @ '': '' @ e))
      | Inr contents \<Rightarrow>
          (case parse_toml contents of
             Inl e \<Rightarrow> Inl (ParseError (''Failed to parse TOML: '' @ e))
           | Inr c \<Rightarrow> (case validate c of Inl e \<Rightarrow> Inl e | Inr _ \<Rightarrow> Inr c)))"

definition config_from_env :: "(string \<Rightarrow> string + 'b) \<Rightarrow> ('b \<Rightarrow> string + config) \<Rightarrow> config_error + config" where
  "config_from_env build try_deserialize =
     (case build ''BITCOIN_GRAPH'' of
        Inl e \<Rightarrow> Inl (LoadError (''Failed to load from environment: '' @ e))
      | Inr builder \<Rightarrow>
          (case try_deserialize builder of
             Inl e \<Rightarrow> Inl (ParseError (''Failed to deserialize config: '' @ e))
           | Inr c \<Rightarrow> (case validate c of Inl e \<Rightarrow> Inl e | Inr _ \<Rightarrow> Inr c)))"

section \<open>Facts\<close>

lemma validate_Inr:
  "validate c = Inr () \<longleftrightarrow> nc_uri (cf_neo4j c) \<noteq> [] \<and> 0 < nc_max_connections (cf_neo4j c) \<and>
     nc_min_connections (cf_neo4j c) \<le> nc_max_connections (cf_neo4j c) \<and>
     0 < ic_max_transaction_memory_mb (cf_ingestion c) \<and>
     0 < pc_utxo_cache_memory_mb (cf_performance c) \<and> 0 < pc_parallel_batches (cf_performance c)"
  by (simp add: validate_def not_less)

lemma config_from_file_valid: "config_from_file rd pt path = Inr c \<Longrightarrow> validate c = Inr ()"
  by (auto simp: config_from_file_def split: sum.splits)

text \<open>
  C34. A loaded configuration never stops the program at startup: a configuration that
  \<open>from_file\<close> accepts gives a cache capacity the cache constructor does not panic on, as long
  as the budget in bytes fits 64 bits; the constructed cache is empty, well formed and within
  the configured number of bytes at 72 bytes an entry.
\<close>
theorem loaded_config_builds_cache:
  assumes "lru L" and "config_from_file rd pt path = Inr c"
    and "pc_utxo_cache_memory_mb (cf_performance c) * 1000000 < 2 ^ 64"
  shows "\<exists>cache. cache_new L (config_cache_capacity (cf_performance c)) = Some cache \<and> cache_ok L cache \<and>
     cache_view L cache = Map.empty \<and>
     72 * cache_capacity L cache \<le> pc_utxo_cache_memory_mb (cf_performance c) * 1000000"
proof -
  let ?mb = "pc_utxo_cache_memory_mb (cf_performance c)" and ?n = "config_cache_capacity (cf_performance c)"
  have mb: "0 < ?mb" using config_from_file_valid [OF assms(2)] by (simp add: validate_Inr)
  have n: "?n = ?mb * 1000000 div 72" using assms(3) by (simp add: config_cache_capacity_def)
  then have pos: "16 \<le> ?n" using mb by linarith
  then obtain cache where new: "cache_new L ?n = Some cache" by (simp add: cache_new_def Let_def)
  note facts = utxo_lru.new_cache [OF assms(1) [unfolded utxo_lru_iff] new]
  have "cache_capacity L cache = 16 * (?n div 16)" using facts(4) pos by (simp add: max_def)
  then have "72 * cache_capacity L cache \<le> ?mb * 1000000" using n by linarith
  with new facts(1,2) show ?thesis by blast
qed

theorem loaded_config_builds_cache_witness:
  "\<exists>cache. cache_new ref_lru_ops (config_cache_capacity (cf_performance config_default)) = Some cache \<and>
     72 * cache_capacity ref_lru_ops cache \<le> (140000000 :: nat)"
proof -
  have c: "config_from_file (\<lambda>p. Inr []) (\<lambda>s. Inr config_default) ''c'' = Inr config_default"
    by (simp add: config_from_file_def validate_def config_default_def neo4j_config_default_def
        ingestion_config_default_def performance_config_default_def default_max_transaction_memory_mb_def)
  have "pc_utxo_cache_memory_mb (cf_performance config_default) = 140"
    by (simp add: config_default_def performance_config_default_def)
  with loaded_config_builds_cache [OF ref_lru_is_lru c] show ?thesis by auto
qed

end
