(* ===== verification/AddressConv.thy ===== *)
theory AddressConv
  imports UtxoCache
begin

text \<open>
  Script classification and address extraction (\<open>src/src/parser/address.rs\<close>) and the
  conversions from parsed blocks to the domain records (\<open>src/src/domain/conversions.rs\<close>).
  The predicates and address encoders of the \<open>bitcoin\<close> crate are the fields of \<open>btc\<close>.
\<close>

section \<open>Addresses\<close>

datatype script_type = P2PKH | P2SH | P2WPKH | P2WSH | P2TR | P2PK | NullData | UnknownType

record address_info =
  ai_address :: "string option"
  ai_script_type :: script_type

definition address_info :: "string option \<Rightarrow> script_type \<Rightarrow> address_info" where
  "address_info a t = \<lparr>ai_address = a, ai_script_type = t\<rparr>"

definition OP_CHECKSIG :: u8 where
  "OP_CHECKSIG = 0xAC"

definition extract_p2pk_address :: "btc \<Rightarrow> script \<Rightarrow> network \<Rightarrow> string option" where
  "extract_p2pk_address B script network =
     (let instructions = btc_instructions B script in
      if length instructions \<noteq> 2 then None
      else case instructions ! 0 of
        PushBytes pubkey_bytes \<Rightarrow>
          (if instructions ! 1 \<noteq> Op OP_CHECKSIG then None
           else case btc_pubkey_from_slice B pubkey_bytes of
             None \<Rightarrow> None
           | Some pubkey \<Rightarrow> Some (btc_address_p2pkh B pubkey network))
      | _ \<Rightarrow> None)"

text \<open>The arm shared by the standard script classes: the address decides whether the type is
  kept.\<close>

definition address_or_unknown :: "btc \<Rightarrow> script \<Rightarrow> network \<Rightarrow> script_type \<Rightarrow> address_info" where
  "address_or_unknown B script network t =
     (case btc_address_from_script B script network of
        Some addr \<Rightarrow> address_info (Some addr) t
      | None \<Rightarrow> address_info None UnknownType)"

definition p2pk_or_unknown :: "btc \<Rightarrow> script \<Rightarrow> network \<Rightarrow> address_info" where
  "p2pk_or_unknown B script network =
     (case extract_p2pk_address B script network of
        Some address \<Rightarrow> address_info (Some address) P2PK
      | None \<Rightarrow> address_info None UnknownType)"

definition extract_address :: "btc \<Rightarrow> script \<Rightarrow> network \<Rightarrow> address_info" where
  "extract_address B script network =
     (if btc_is_op_return B script then address_info None NullData
      else if btc_is_p2pkh B script then address_or_unknown B script network P2PKH
      else if btc_is_p2sh B script then address_or_unknown B script network P2SH
      else if btc_is_witness_program B script then
        (case btc_witness_version B script of
           Some version \<Rightarrow>
             if version = 0 then
               address_or_unknown B script network
                 (if length script = 22 then P2WPKH else if length script = 34 then P2WSH else UnknownType)
             else if version = 1 then address_or_unknown B script network P2TR
             else address_info None UnknownType
         | None \<Rightarrow> p2pk_or_unknown B script network)
      else p2pk_or_unknown B script network)"

section \<open>Conversions\<close>

definition difficulty_from_bits :: "u32 \<Rightarrow> f64" where
  "difficulty_from_bits bits =
     (let MAX_BITS = 0x1d00ffff;
          max_exp = drop_bit 24 MAX_BITS; max_mant = MAX_BITS AND 0xffffff;
          curr_exp = drop_bit 24 bits; curr_mant = bits AND 0xffffff;
          base_diff = F64_div (F64_of max_mant) (F64_of curr_mant);
          exp_diff = (u32_as_i32 max_exp - u32_as_i32 curr_exp) * 8
      in F64_mul base_diff (F64_powi (F64_of 2) exp_diff))"

definition from_block :: "btc \<Rightarrow> btc_block \<Rightarrow> u32 \<Rightarrow> block_data" where
  "from_block B block height =
     (let header = bl_header block in
      \<lparr> bd_height = height,
        bd_hash = btc_hash_to_string B (btc_block_hash B block),
        bd_previous_hash = btc_hash_to_string B (hd_prev_blockhash header),
        bd_merkle_root = btc_hash_to_string B (hd_merkle_root header),
        bd_timestamp = uint (hd_time header),
        bd_bits = btc_bits_string B (hd_bits header),
        bd_difficulty = difficulty_from_bits (hd_bits header),
        bd_nonce = hd_nonce header,
        bd_version = hd_version header,
        bd_tx_count = usize_as_u32 (length (bl_txdata block)),
        bd_size = btc_block_size B block,
        bd_weight = btc_block_weight B block \<rparr>)"

definition from_transaction :: "btc \<Rightarrow> btc_tx \<Rightarrow> u32 \<Rightarrow> string \<Rightarrow> i64 \<Rightarrow> transaction_data" where
  "from_transaction B tx block_height block_hash timestamp =
     \<lparr> td_txid = btc_hash_to_string B (btc_txid B tx),
       td_block_height = block_height,
       td_block_hash = block_hash,
       td_timestamp = timestamp,
       td_version = tx_version tx,
       td_locktime = tx_lock_time tx,
       td_size = btc_tx_size B tx,
       td_vsize = btc_tx_vsize B tx,
       td_weight = btc_tx_weight B tx,
       td_is_coinbase = btc_is_coinbase B tx,
       td_total_input = None,
       td_total_output = None,
       td_fee = None \<rparr>"

fun script_type_str :: "script_type \<Rightarrow> string" where
  "script_type_str P2PKH = ''P2PKH''"
| "script_type_str P2SH = ''P2SH''"
| "script_type_str P2WPKH = ''P2WPKH''"
| "script_type_str P2WSH = ''P2WSH''"
| "script_type_str P2TR = ''P2TR''"
| "script_type_str P2PK = ''P2PK''"
| "script_type_str NullData = ''NULL_DATA''"
| "script_type_str UnknownType = ''UNKNOWN''"

definition from_output :: "btc \<Rightarrow> tx_out \<Rightarrow> string \<Rightarrow> u32 \<Rightarrow> network \<Rightarrow> output_data" where
  "from_output B output txid output_index network =
     (let addr_info = extract_address B (to_script_pubkey output) network in
      \<lparr> od_output_id = txid @ '':'' @ u32_to_dec output_index,
        od_output_index = output_index,
        od_txid = txid,
        od_amount = to_value output,
        od_script_pubkey = btc_hex B (to_script_pubkey output),
        od_script_type = script_type_str (ai_script_type addr_info),
        od_address = ai_address addr_info \<rparr>)"

definition from_input :: "btc \<Rightarrow> tx_in \<Rightarrow> string \<Rightarrow> u32 \<Rightarrow> u32 \<Rightarrow> input_data" where
  "from_input B input txid input_index block_height =
     \<lparr> id_input_id = txid @ '':'' @ u32_to_dec input_index,
       id_input_index = input_index,
       id_txid = txid,
       id_previous_txid = btc_hash_to_string B (op_txid (ti_previous_output input)),
       id_previous_output_index = op_vout (ti_previous_output input),
       id_script_sig = btc_hex B (ti_script_sig input),
       id_sequence = ti_sequence input,
       id_witness = map (btc_hex B) (ti_witness input),
       id_block_height = block_height \<rparr>"

lemmas conversion_defs = from_block_def from_transaction_def from_output_def from_input_def

section \<open>Facts\<close>

lemma address_info_sel [simp]: "ai_address (address_info a t) = a" "ai_script_type (address_info a t) = t"
  by (simp_all add: address_info_def)

text \<open>The type names and the cache's one-byte tags are in step.\<close>

lemma tag_of_script_type: "tag_as_str (tag_from_str (script_type_str t)) = script_type_str t"
  by (cases t) (simp_all add: tag_from_str_def)

text \<open>
  An address is reported exactly with the script classes that have one: no output of type
  NULL_DATA has an address, every output of a standard class has one, and an UNKNOWN output
  has one only when it is a version-0 witness program of a length that is neither 22 nor 34
  and the bitcoin crate still encodes it.
\<close>
lemma extract_address_sound:
  "(ai_script_type (extract_address B s n) = NullData \<longrightarrow> ai_address (extract_address B s n) = None) \<and>
   (ai_script_type (extract_address B s n) \<in> {P2PKH, P2SH, P2WPKH, P2WSH, P2TR, P2PK} \<longrightarrow>
      ai_address (extract_address B s n) \<noteq> None) \<and>
   (ai_script_type (extract_address B s n) = UnknownType \<longrightarrow> ai_address (extract_address B s n) \<noteq> None \<longrightarrow>
      btc_is_witness_program B s \<and> btc_witness_version B s = Some 0 \<and> length s \<notin> {22, 34} \<and>
      ai_address (extract_address B s n) = btc_address_from_script B s n)"
  by (auto simp: extract_address_def address_or_unknown_def p2pk_or_unknown_def split: option.splits if_splits)

definition ex_p2pkh :: script where
  "ex_p2pkh = [0x76, 0xA9, 0x14] @ replicate 22 0"

theorem extract_address_sound_witness:
  "ai_address (extract_address ex_btc ex_p2pkh Bitcoin) \<noteq> None"
proof -
  have "ai_script_type (extract_address ex_btc ex_p2pkh Bitcoin) = P2PKH"
    by (simp add: extract_address_def address_or_unknown_def ex_btc_def ex_p2pkh_def)
  then show ?thesis using extract_address_sound [of ex_btc ex_p2pkh Bitcoin] by simp
qed

text \<open>
  The three names of an output agree: the id that a transaction's output is written under,
  the id the cache derives for the key of that output, and the id under which an input that
  spends it looks it up; and the script type survives its round trip through the cache's tag.
\<close>
lemma output_names_agree:
  "od_output_id (from_output B out (btc_hash_to_string B txid) i n) = to_output_id_string B (key_new txid i) \<and>
   to_output_id_string B (key_from_outpoint \<lparr>op_txid = txid, op_vout = i\<rparr>) = to_output_id_string B (key_new txid i) \<and>
   (let inp = from_input B \<lparr>ti_previous_output = \<lparr>op_txid = txid, op_vout = i\<rparr>, ti_script_sig = ss,
        ti_sequence = sq, ti_witness = wt\<rparr> spender j h
    in id_previous_txid inp @ '':'' @ u32_to_dec (id_previous_output_index inp) = to_output_id_string B (key_new txid i)) \<and>
   tag_as_str (tag_from_str (od_script_type (from_output B out (btc_hash_to_string B txid) i n))) =
     od_script_type (from_output B out (btc_hash_to_string B txid) i n)"
  by (simp add: conversion_defs to_output_id_string_def key_new_def key_from_outpoint_def Let_def tag_of_script_type)

end
