(* ===== verification/GraphWriter.thy ===== *)
theory GraphWriter
  imports Models
begin

text \<open>
  The \<open>GraphWriter\<close> trait of \<open>src/src/writer/traits.rs\<close> as a record of operations on a
  writer state \<open>'w\<close>, the methods with a default body as functions of the others, and the
  transaction contract the ingestion relies on as the locale \<open>txn_writer\<close>.
\<close>

type_synonym ('w, 'a) db = "('w, werror, 'a) action"

record 'w graph_writer =
  gw_init_schema :: "('w, unit) db"
  gw_write_blocks :: "block_data list \<Rightarrow> ('w, unit) db"
  gw_write_transactions :: "transaction_data list \<Rightarrow> ('w, unit) db"
  gw_write_outputs :: "output_data list \<Rightarrow> ('w, unit) db"
  gw_write_has_output :: "output_data list \<Rightarrow> ('w, unit) db"
  gw_write_inputs :: "input_data list \<Rightarrow> ('w, unit) db"
  gw_write_performs :: "performs_data list \<Rightarrow> ('w, unit) db"
  gw_write_benefits_to :: "benefits_to_data list \<Rightarrow> ('w, unit) db"
  gw_mark_output_spent :: "string \<Rightarrow> string \<Rightarrow> u32 \<Rightarrow> ('w, unit) db"
  gw_create_checkpoint :: "('w, unit) db"
  gw_update_checkpoint :: "checkpoint_data \<Rightarrow> ('w, unit) db"
  gw_get_checkpoint :: "('w, checkpoint_data option) db"
  gw_mark_checkpoint_complete :: "('w, unit) db"
  gw_set_checkpoint_status :: "string \<Rightarrow> ('w, unit) db"
  gw_lookup_outputs_batch :: "string list \<Rightarrow> ('w, output_lookup_result list) db"
  gw_lookup_block_hash :: "u32 \<Rightarrow> ('w, string option) db"
  gw_rollback_block :: "u32 \<Rightarrow> ('w, unit) db"
  gw_get_max_block_height :: "('w, u32 option) db"
  gw_check_block_complete :: "u32 \<Rightarrow> ('w, u32 \<times> u32) db"
  gw_write_blocks_fast :: "block_data list \<Rightarrow> ('w, unit) db"
  gw_write_transactions_fast :: "transaction_data list \<Rightarrow> ('w, unit) db"
  gw_write_outputs_fast :: "output_data list \<Rightarrow> ('w, unit) db"
  gw_write_has_output_fast :: "output_data list \<Rightarrow> ('w, unit) db"
  gw_write_inputs_fast :: "input_data list \<Rightarrow> ('w, unit) db"
  gw_begin_transaction :: "('w, unit) db"
  gw_commit_transaction :: "('w, unit) db"
  gw_rollback_transaction :: "('w, unit) db"

text \<open>The default bodies of the trait, for an implementation that does not override them.\<close>

definition with_default_fast :: "'w graph_writer \<Rightarrow> 'w graph_writer" where
  "with_default_fast W =
     W\<lparr>gw_write_blocks_fast := gw_write_blocks W,
       gw_write_transactions_fast := gw_write_transactions W,
       gw_write_outputs_fast := gw_write_outputs W,
       gw_write_has_output_fast := gw_write_has_output W,
       gw_write_inputs_fast := gw_write_inputs W\<rparr>"

section \<open>The transaction contract\<close>

text \<open>\<open>data\<close> is the stored graph with the checkpoint, \<open>saved\<close> the state that a rollback would
  restore while a transaction is open. \<open>keeps\<close> says of an action that it respects an open
  transaction: it keeps the writer well formed and leaves the restore point alone.\<close>

definition keeps :: "('w \<Rightarrow> bool) \<Rightarrow> ('w \<Rightarrow> 'd option) \<Rightarrow> ('w, 'a) db \<Rightarrow> bool" where
  "keeps ok saved m \<longleftrightarrow> (\<forall>w. ok w \<longrightarrow> ok (snd (m w)) \<and> saved (snd (m w)) = saved w)"

lemma keeps_ret [intro]: "keeps ok saved (ret x)" "keeps ok saved (fail e)"
  by (simp_all add: keeps_def)

lemma keeps_and_then [intro]:
  "keeps ok saved m \<Longrightarrow> (\<And>x. keeps ok saved (f x)) \<Longrightarrow> keeps ok saved (and_then m f)"
  by (auto simp: keeps_def and_then_def split: prod.split sum.split)

locale txn_writer =
  fixes W :: "'w graph_writer"
    and ok :: "'w \<Rightarrow> bool"
    and data :: "'w \<Rightarrow> 'd"
    and saved :: "'w \<Rightarrow> 'd option"
  assumes begin_ok: "ok w \<Longrightarrow> ok (snd (gw_begin_transaction W w))"
    and begin_data: "ok w \<Longrightarrow> data (snd (gw_begin_transaction W w)) = data w"
    and begin_saved: "ok w \<Longrightarrow> gw_begin_transaction W w = (Inr (), w') \<Longrightarrow> saved w' = Some (data w)"
    and commit_ok: "ok w \<Longrightarrow> ok (snd (gw_commit_transaction W w))"
    and commit_data: "ok w \<Longrightarrow> gw_commit_transaction W w = (Inr (), w') \<Longrightarrow> data w' = data w"
    and commit_failed: "ok w \<Longrightarrow> gw_commit_transaction W w = (Inl e, w') \<Longrightarrow> saved w = Some d \<Longrightarrow>
      data w' = d \<and> saved w' \<in> {None, Some d}"
    and rollback_ok: "ok w \<Longrightarrow> ok (snd (gw_rollback_transaction W w))"
    and rollback_data: "ok w \<Longrightarrow> gw_rollback_transaction W w = (Inr (), w') \<Longrightarrow>
      data w' = (case saved w of Some d \<Rightarrow> d | None \<Rightarrow> data w)"
    and keeps_write_blocks: "keeps ok saved (gw_write_blocks W bs)" "keeps ok saved (gw_write_blocks_fast W bs)"
    and keeps_write_transactions: "keeps ok saved (gw_write_transactions W ts)" "keeps ok saved (gw_write_transactions_fast W ts)"
    and keeps_write_outputs: "keeps ok saved (gw_write_outputs W os)" "keeps ok saved (gw_write_outputs_fast W os)"
    and keeps_write_has_output: "keeps ok saved (gw_write_has_output W os)" "keeps ok saved (gw_write_has_output_fast W os)"
    and keeps_write_inputs: "keeps ok saved (gw_write_inputs W is)" "keeps ok saved (gw_write_inputs_fast W is)"
    and keeps_write_performs: "keeps ok saved (gw_write_performs W ps)"
    and keeps_write_benefits_to: "keeps ok saved (gw_write_benefits_to W bns)"
    and keeps_update_checkpoint: "keeps ok saved (gw_update_checkpoint W cp)"
    and keeps_lookup: "keeps ok saved (gw_lookup_outputs_batch W ids)"
    and lookup_data: "ok w \<Longrightarrow> data (snd (gw_lookup_outputs_batch W ids w)) = data w"
    and lookup_hash_ok: "ok w \<Longrightarrow> ok (snd (gw_lookup_block_hash W h w))"
    and lookup_hash_data: "ok w \<Longrightarrow> data (snd (gw_lookup_block_hash W h w)) = data w"
begin

lemmas keeps_writes = keeps_write_blocks keeps_write_transactions keeps_write_outputs keeps_write_has_output
  keeps_write_inputs keeps_write_performs keeps_write_benefits_to keeps_update_checkpoint keeps_lookup

text \<open>A failed transaction that is rolled back leaves the data as it was before.\<close>

lemma rolled_back:
  assumes "ok w" "gw_begin_transaction W w = (Inr (), w1)" "saved w2 = saved w1" "ok w2"
    "gw_rollback_transaction W w2 = (Inr (), w3)"
  shows "data w3 = data w"
  using rollback_data [OF assms(4,5)] begin_saved [OF assms(1,2)] assms(3) by simp

end

end
