(* ===== verification/CacheFile.thy ===== *)
theory CacheFile
  imports CacheStore
begin

text \<open>
  Persistence of the UTXO cache (\<open>save_to_file\<close>, \<open>load_from_file\<close> of
  \<open>src/src/domain/utxo/cache.rs\<close>): the binary format byte by byte, the temporary file
  and the rename, and the reader that validates the checksum before it inserts anything.
  The \<open>crc32fast\<close> hasher is a parameter, a function of the concatenated bytes. The disk
  is a map from paths to contents; an \<open>io_faults\<close> value says which of the writer's
  system calls fail.
\<close>

section \<open>The file format\<close>

definition CACHE_FILE_MAGIC :: "u8 list" where
  "CACHE_FILE_MAGIC = [0x55, 0x54, 0x58, 0x4F]"

definition CACHE_FILE_VERSION :: u32 where
  "CACHE_FILE_VERSION = 1"

fun tag_as_u8 :: "script_type_tag \<Rightarrow> u8" where
  "tag_as_u8 TagP2PKH = 0"
| "tag_as_u8 TagP2SH = 1"
| "tag_as_u8 TagP2WPKH = 2"
| "tag_as_u8 TagP2WSH = 3"
| "tag_as_u8 TagP2TR = 4"
| "tag_as_u8 TagP2PK = 5"
| "tag_as_u8 TagNullData = 6"
| "tag_as_u8 TagUnknown = 7"

definition tag_from_u8 :: "u8 \<Rightarrow> script_type_tag" where
  "tag_from_u8 b =
     (if b = 0 then TagP2PKH else if b = 1 then TagP2SH else if b = 2 then TagP2WPKH
      else if b = 3 then TagP2WSH else if b = 4 then TagP2TR else if b = 5 then TagP2PK
      else if b = 6 then TagNullData else TagUnknown)"

lemma tag_u8_roundtrip [simp]: "tag_from_u8 (tag_as_u8 t) = t"
  by (cases t) (simp_all add: tag_from_u8_def)

definition encode_address :: "string option \<Rightarrow> u8 list" where
  "encode_address a =
     (case a of
        Some addr \<Rightarrow> let bs = string_to_bytes addr in [1] @ u16_to_le (length bs) @ bs
      | None \<Rightarrow> [0])"

definition encode_entry :: "utxo_key \<times> cached_output \<Rightarrow> u8 list" where
  "encode_entry e =
     (case e of (key, v) \<Rightarrow>
        k_txid key @ u32_to_le (k_vout key) @ u32_to_le (co_output_index v)
        @ u64_to_le (co_amount v) @ [tag_as_u8 (co_script_type v)] @ encode_address (co_address v))"

definition cache_entries :: "'c utxo_lru_ops \<Rightarrow> 'c utxo_cache \<Rightarrow> (utxo_key \<times> cached_output) list" where
  "cache_entries L c = concat (map (lru_iter L) (uc_shards c))"

definition encode_header :: "u64 \<Rightarrow> u32 \<Rightarrow> u32 \<Rightarrow> u8 list" where
  "encode_header n h crc =
     CACHE_FILE_MAGIC @ u32_to_le CACHE_FILE_VERSION @ u64_to_le n @ u32_to_le h @ u32_to_le crc"

section \<open>Saving\<close>

type_synonym disk = "string \<rightharpoonup> u8 list"

datatype io_error =
    UnexpectedEof
  | InvalidMagic "u8 list"
  | UnsupportedVersion u32
  | InvalidUtf8
  | CrcMismatch u32 u32
  | SystemError

text \<open>\<open>Path::with_extension\<close> on a path that ends in a file name: a name with a dot after its
  first character loses the part from its last dot on.\<close>

definition with_extension :: "string \<Rightarrow> string \<Rightarrow> string" where
  "with_extension path ext =
     (let name = rev (takeWhile (\<lambda>c. c \<noteq> CHR ''/'') (rev path));
          dir = rev (dropWhile (\<lambda>c. c \<noteq> CHR ''/'') (rev path));
          prior = rev (drop 1 (dropWhile (\<lambda>c. c \<noteq> CHR ''.'') (rev name)));
          stem = (if prior = [] then name else prior)
      in dir @ stem @ ''.'' @ ext)"

record io_faults =
  create_fails :: bool
  write_fails_after :: "usize option"
  finish_fails :: bool
  rename_fails :: bool

text \<open>The body is written with a zero checksum first; the checksum is patched in at offset 20
  before the file is renamed over the target.\<close>

definition save_to_file :: "'c utxo_lru_ops \<Rightarrow> (u8 list \<Rightarrow> u32) \<Rightarrow> io_faults \<Rightarrow> string \<Rightarrow> u32
    \<Rightarrow> 'c utxo_cache \<Rightarrow> disk \<Rightarrow> (io_error + usize) \<times> disk" where
  "save_to_file L crc F path checkpoint_height c d =
     (let tmp_path = with_extension path ''bin.tmp'';
          total_entries = cache_len L c;
          entries = cache_entries L c;
          payload = concat (map encode_entry entries);
          unpatched = encode_header (of_nat total_entries) checkpoint_height 0 @ payload;
          patched = take 20 unpatched @ u32_to_le (crc payload) @ drop 24 unpatched
      in if create_fails F then (Inl SystemError, d)
         else case write_fails_after F of
           Some n \<Rightarrow> (Inl SystemError, d(tmp_path \<mapsto> take n unpatched))
         | None \<Rightarrow>
             if finish_fails F then (Inl SystemError, d(tmp_path \<mapsto> unpatched))
             else if rename_fails F then (Inl SystemError, d(tmp_path \<mapsto> patched))
             else (Inr (length entries), (d(tmp_path := None))(path \<mapsto> patched)))"

section \<open>Loading\<close>

text \<open>The reader's state is the rest of the file and the bytes fed to the hasher so far.\<close>

type_synonym 'a reader = "(u8 list \<times> u8 list, io_error, 'a) action"

definition read_plain :: "usize \<Rightarrow> u8 list reader" where
  "read_plain n s = (case s of (bs, hashed) \<Rightarrow>
     case read_exact n bs of
       None \<Rightarrow> (Inl UnexpectedEof, s)
     | Some (xs, rest) \<Rightarrow> (Inr xs, (rest, hashed)))"

definition read_hashed :: "usize \<Rightarrow> u8 list reader" where
  "read_hashed n s = (case s of (bs, hashed) \<Rightarrow>
     case read_exact n bs of
       None \<Rightarrow> (Inl UnexpectedEof, s)
     | Some (xs, rest) \<Rightarrow> (Inr xs, (rest, hashed @ xs)))"

definition read_header :: "(u64 \<times> u32 \<times> u32) reader" where
  "read_header =
     and_then (read_plain 4) (\<lambda>magic.
     if magic \<noteq> CACHE_FILE_MAGIC then fail (InvalidMagic magic) else
     and_then (read_plain 4) (\<lambda>vb.
     if u32_from_le vb \<noteq> CACHE_FILE_VERSION then fail (UnsupportedVersion (u32_from_le vb)) else
     and_then (read_plain 8) (\<lambda>cb.
     and_then (read_plain 4) (\<lambda>hb.
     and_then (read_plain 4) (\<lambda>xb.
       ret (u64_from_le cb, u32_from_le hb, u32_from_le xb))))))"

definition read_address :: "string option reader" where
  "read_address =
     and_then (read_hashed 1) (\<lambda>has.
     if has = [1] then
       and_then (read_hashed 2) (\<lambda>lb.
       and_then (read_hashed (nat_from_le lb)) (\<lambda>ab.
         if utf8_valid ab then ret (Some (bytes_to_string ab)) else fail InvalidUtf8))
     else ret None)"

definition read_entry :: "(utxo_key \<times> cached_output) reader" where
  "read_entry =
     and_then (read_hashed 32) (\<lambda>txid.
     and_then (read_hashed 4) (\<lambda>vb.
     and_then (read_hashed 4) (\<lambda>ib.
     and_then (read_hashed 8) (\<lambda>mb.
     and_then (read_hashed 1) (\<lambda>tb.
     and_then read_address (\<lambda>address.
       ret (key_new txid (u32_from_le vb),
            \<lparr>co_output_index = u32_from_le ib, co_amount = u64_from_le mb,
             co_script_type = tag_from_u8 (hd tb), co_address = address\<rparr>)))))))"

fun read_entries :: "nat \<Rightarrow> (utxo_key \<times> cached_output) list reader" where
  "read_entries 0 = ret []"
| "read_entries (Suc n) =
     and_then read_entry (\<lambda>e. and_then (read_entries n) (\<lambda>es. ret (e # es)))"

definition entries_of_shard :: "usize \<Rightarrow> (utxo_key \<times> cached_output) list \<Rightarrow> (utxo_key \<times> cached_output) list" where
  "entries_of_shard i es = filter (\<lambda>(k, v). shard_index k = i) es"

definition load_shard :: "'c utxo_lru_ops \<Rightarrow> (utxo_key \<times> cached_output) list \<Rightarrow> 'c \<Rightarrow> 'c" where
  "load_shard L es shard = fold (\<lambda>(k, v). lru_put L k v) (rev es) shard"

definition load_entries :: "'c utxo_lru_ops \<Rightarrow> (utxo_key \<times> cached_output) list \<Rightarrow> 'c utxo_cache \<Rightarrow> 'c utxo_cache" where
  "load_entries L es c =
     fold (\<lambda>i c. upd_shard i (load_shard L (entries_of_shard i es) (uc_shards c ! i)) c) [0..<NUM_SHARDS] c"

definition read_cache_file :: "(u8 list \<Rightarrow> u32) \<Rightarrow> u8 list \<Rightarrow> io_error + (utxo_key \<times> cached_output) list" where
  "read_cache_file crc file =
     (case read_header (file, []) of
        (Inl e, _) \<Rightarrow> Inl e
      | (Inr (entry_count, saved_height, expected_crc), s) \<Rightarrow>
          (case read_entries (unat entry_count) s of
             (Inl e, _) \<Rightarrow> Inl e
           | (Inr es, (_, hashed)) \<Rightarrow>
               if crc hashed \<noteq> expected_crc then Inl (CrcMismatch expected_crc (crc hashed))
               else Inr es))"

text \<open>A stale checkpoint height is only logged, so it is not an argument.\<close>

definition load_from_file :: "'c utxo_lru_ops \<Rightarrow> (u8 list \<Rightarrow> u32) \<Rightarrow> string \<Rightarrow> disk
    \<Rightarrow> 'c utxo_cache \<Rightarrow> (io_error + usize) \<times> 'c utxo_cache" where
  "load_from_file L crc path d c =
     (case d path of
        None \<Rightarrow> (Inr 0, c)
      | Some file \<Rightarrow>
          (case read_cache_file crc file of
             Inl e \<Rightarrow> (Inl e, c)
           | Inr es \<Rightarrow> (Inr (length es), load_entries L es c)))"

section \<open>The codec\<close>

text \<open>What the format can carry: a 32-byte hash, and an address that is UTF-8 text of at most
  65535 bytes.\<close>

definition address_wf :: "string option \<Rightarrow> bool" where
  "address_wf a \<longleftrightarrow> (case a of None \<Rightarrow> True
     | Some s \<Rightarrow> utf8_valid (string_to_bytes s) \<and> length s < 65536)"

definition entry_wf :: "utxo_key \<times> cached_output \<Rightarrow> bool" where
  "entry_wf e \<longleftrightarrow> key_wf (fst e) \<and> address_wf (co_address (snd e))"

definition cache_wf :: "'c utxo_lru_ops \<Rightarrow> 'c utxo_cache \<Rightarrow> bool" where
  "cache_wf L c \<longleftrightarrow> list_all entry_wf (cache_entries L c) \<and> length (cache_entries L c) < 2 ^ 64"

lemma read_plain_append [simp]: "length xs = n \<Longrightarrow> read_plain n (xs @ ys, h) = (Inr xs, (ys, h))"
  and read_hashed_append [simp]: "length xs = n \<Longrightarrow> read_hashed n (xs @ ys, h) = (Inr xs, (ys, h @ xs))"
  by (simp_all add: read_plain_def read_hashed_def)

lemma read_hashed_1 [simp]: "read_hashed (Suc 0) (b # ys, h) = (Inr [b], (ys, h @ [b]))"
  using read_hashed_append [of "[b]" "Suc 0" ys h] by simp

lemma read_address_encode:
  assumes "address_wf a"
  shows "read_address (encode_address a @ ys, h) = (Inr a, (ys, h @ encode_address a))"
proof (cases a)
  case (Some s)
  with assms have wf: "utf8_valid (string_to_bytes s)" "length s < 65536"
    by (auto simp: address_wf_def)
  have "read_hashed (length s) (string_to_bytes s @ ys, h') = (Inr (string_to_bytes s), (ys, h' @ string_to_bytes s))" for h'
    by simp
  with wf show ?thesis
    by (simp add: Some read_address_def encode_address_def u16_le_roundtrip)
qed (simp add: read_address_def encode_address_def)

lemma read_entry_encode:
  assumes "entry_wf e"
  shows "read_entry (encode_entry e @ ys, h) = (Inr e, (ys, h @ encode_entry e))"
proof -
  obtain k v where e: "e = (k, v)" by (cases e)
  have "length (k_txid k) = 32" and addr: "address_wf (co_address v)"
    using assms by (auto simp: entry_wf_def key_wf_def e)
  then show ?thesis
    by (simp add: e read_entry_def encode_entry_def read_address_encode [OF addr] key_new_def)
qed

lemma read_entries_encode:
  assumes "list_all entry_wf es"
  shows "read_entries (length es) (concat (map encode_entry es) @ ys, h) =
    (Inr es, (ys, h @ concat (map encode_entry es)))"
  using assms by (induction es arbitrary: h) (simp_all add: read_entry_encode)

lemma read_header_encode:
  "read_header (encode_header n h crc @ ys, hs) = (Inr (n, h, crc), (ys, hs))"
  by (simp add: read_header_def encode_header_def CACHE_FILE_MAGIC_def
    read_plain_append [of "[0x55, 0x54, 0x58, 0x4F]", simplified])

lemma length_encode_header [simp]: "length (encode_header n h crc) = 24"
  by (simp add: encode_header_def CACHE_FILE_MAGIC_def)

lemma patch_header:
  "take 20 (encode_header n h 0 @ ys) @ u32_to_le crc @ drop 24 (encode_header n h 0 @ ys) =
   encode_header n h crc @ ys"
  by (simp add: encode_header_def CACHE_FILE_MAGIC_def)

lemma read_cache_file_encode:
  assumes "list_all entry_wf es" "length es < 2 ^ 64"
  shows "read_cache_file crc (encode_header (of_nat (length es)) h (crc (concat (map encode_entry es)))
      @ concat (map encode_entry es)) = Inr es"
proof -
  have "unat (of_nat (length es) :: u64) = length es"
    using assms(2) by (simp add: unat_of_nat take_bit_eq_mod)
  then show ?thesis
    using read_entries_encode [OF assms(1), of "[]" "[]"]
    by (simp add: read_cache_file_def read_header_encode)
qed

section \<open>What loading does to the shards\<close>

lemma fold_put_front:
  assumes "distinct (map fst es)"
  shows "fold (\<lambda>(k, v). put_front n k v) (rev es) [] = take n es"
  using assms
proof (induction es)
  case (Cons e es)
  obtain k v where e: "e = (k, v)" by (cases e)
  have "k \<notin> fst ` set (take n es)"
    using Cons.prems in_set_takeD [of _ n es] by (force simp: e)
  then have "AList.delete k (take n es) = take n es"
    by (auto intro!: AList.delete_id simp: image_iff)
  then show ?case
    using Cons by (cases n) (simp_all add: e put_front_def min_def)
qed simp

lemma entries_of_shard_all:
  "(\<And>k v. (k, v) \<in> set es \<Longrightarrow> shard_index k = i) \<Longrightarrow> entries_of_shard i es = es"
  by (auto simp: entries_of_shard_def intro!: filter_True)

lemma entries_of_shard_concat:
  assumes "length shards = n" "i < n"
    "\<And>j k v. j < n \<Longrightarrow> (k, v) \<in> set (shards ! j) \<Longrightarrow> shard_index k = j"
  shows "entries_of_shard i (concat shards) = shards ! i"
proof -
  have part: "filter (\<lambda>(k, v). shard_index k = i) (shards ! j) = (if j = i then shards ! i else [])" if "j < n" for j
  proof (cases "j = i")
    case True
    with assms(3) [OF that] show ?thesis by (auto intro!: filter_True)
  next
    case False
    with assms(3) [OF that] show ?thesis by (auto intro!: filter_False)
  qed
  have shards: "shards = map ((!) shards) [0..<n]" using assms(1) map_nth [of shards] by simp
  have "entries_of_shard i (concat shards) = concat (map (\<lambda>j. if j = i then shards ! i else []) [0..<n])"
    unfolding entries_of_shard_def filter_concat
    by (subst shards, simp only: map_map o_def) (rule arg_cong [where f = concat], rule map_cong, simp_all add: part)
  also have "\<dots> = shards ! i"
  proof -
    have split: "[0..<n] = [0..<i] @ i # [Suc i..<n]"
      using assms(2) upt_add_eq_append [of 0 i "n - i"] by (simp add: upt_conv_Cons)
    have "concat (map (\<lambda>j. if j = i then shards ! i else []) [0..<i]) = []"
      "concat (map (\<lambda>j. if j = i then shards ! i else []) [Suc i..<n]) = []"
      by auto
    then show ?thesis by (subst split) (simp only: map_append concat_append list.map concat.simps if_True refl append_Nil append_Nil2)
  qed
  finally show ?thesis .
qed

lemma load_entries_shards:
  assumes "length (uc_shards c) = NUM_SHARDS"
  shows "uc_shards (load_entries L es c) =
      map (\<lambda>i. load_shard L (entries_of_shard i es) (uc_shards c ! i)) [0..<NUM_SHARDS]"
    "uc_stats (load_entries L es c) = uc_stats c"
proof -
  let ?step = "\<lambda>i c. upd_shard i (load_shard L (entries_of_shard i es) (uc_shards c ! i)) c"
  have gen: "uc_stats (fold ?step [0..<n] c) = uc_stats c \<and>
      uc_shards (fold ?step [0..<n] c) =
        map (\<lambda>i. load_shard L (entries_of_shard i es) (uc_shards c ! i)) [0..<n] @ drop n (uc_shards c)"
    if "n \<le> NUM_SHARDS" for n
    using that
  proof (induction n)
    case (Suc n)
    then have "n < length (uc_shards c)" using assms by simp
    with Suc show ?case
      by (simp add: nth_append list_update_append Cons_nth_drop_Suc [symmetric])
  qed simp
  show "uc_shards (load_entries L es c) =
      map (\<lambda>i. load_shard L (entries_of_shard i es) (uc_shards c ! i)) [0..<NUM_SHARDS]"
    "uc_stats (load_entries L es c) = uc_stats c"
    using gen [of NUM_SHARDS] assms by (simp_all add: load_entries_def)
qed

context utxo_lru
begin

lemma load_shard_ok:
  assumes "lru_ok L s"
  shows "lru_ok L (load_shard L es s) \<and> lru_cap L (load_shard L es s) = lru_cap L s \<and>
    lru_iter L (load_shard L es s) = fold (\<lambda>(k, v). put_front (lru_cap L s) k v) (rev es) (lru_iter L s)"
  using assms
proof (induction es)
  case (Cons e es)
  then show ?case by (cases e) (simp add: load_shard_def put_ok put_cap put_iter)
qed (simp add: load_shard_def)

lemma cache_len_entries: "cache_ok L c \<Longrightarrow> cache_len L c = length (cache_entries L c)"
  by (auto simp: cache_len_def cache_entries_def length_concat o_def cache_ok_def in_set_conv_nth len_eq
    intro!: arg_cong [where f = sum_list])

lemma save_ok:
  assumes "cache_ok L c" "\<not> create_fails F" "write_fails_after F = None" "\<not> finish_fails F" "\<not> rename_fails F"
  shows "save_to_file L crc F path h c d = (Inr (length (cache_entries L c)),
    (d(with_extension path ''bin.tmp'' := None))(path \<mapsto>
      encode_header (of_nat (length (cache_entries L c))) h (crc (concat (map encode_entry (cache_entries L c))))
      @ concat (map encode_entry (cache_entries L c))))"
  using assms by (simp add: save_to_file_def Let_def cache_len_entries patch_header del: take_append drop_append)

lemma load_saved_shard:
  assumes "cache_ok L c" "cache_new L n = Some c0" "i < NUM_SHARDS"
  shows "lru_iter L (uc_shards (load_entries L (cache_entries L c) c0) ! i) =
    take (max 1 (n div 16)) (lru_iter L (uc_shards c ! i))"
proof -
  let ?m = "max 1 (n div NUM_SHARDS)"
  have sh: "uc_shards c0 = map (\<lambda>_. lru_new L ?m) [0..<NUM_SHARDS]"
    using assms(2) by (auto simp: cache_new_def Let_def split: if_splits)
  have m: "0 < ?m" by simp
  have len: "length (map (lru_iter L) (uc_shards c)) = NUM_SHARDS" using assms(1) by (simp add: cache_ok_def)
  have own: "entries_of_shard i (cache_entries L c) = lru_iter L (uc_shards c ! i)"
  proof -
    have "entries_of_shard i (cache_entries L c) = map (lru_iter L) (uc_shards c) ! i"
      unfolding cache_entries_def
    proof (rule entries_of_shard_concat [OF len assms(3)])
      fix j k v assume "j < NUM_SHARDS" "(k, v) \<in> set (map (lru_iter L) (uc_shards c) ! j)"
      then show "shard_index k = j"
        using shard_keys [OF assms(1), of j k] len by force
    qed
    with len assms(3) show ?thesis by simp
  qed
  have d: "distinct (map fst (lru_iter L (uc_shards c ! i)))"
    using assms(1,3) by (auto simp: cache_ok_def lru_ok_def)
  have "uc_shards (load_entries L (cache_entries L c) c0) ! i =
      load_shard L (lru_iter L (uc_shards c ! i)) (lru_new L ?m)"
    using assms(3) by (simp add: load_entries_shards sh own)
  moreover have "lru_iter L (load_shard L (lru_iter L (uc_shards c ! i)) (lru_new L ?m)) =
      take ?m (lru_iter L (uc_shards c ! i))"
    using load_shard_ok [OF new_ok [OF m], of "lru_iter L (uc_shards c ! i)"]
    by (simp only: new_cap [OF m] new_iter [OF m] fold_put_front [OF d])
  ultimately show ?thesis by (simp only: NUM_SHARDS_def)
qed

end

section \<open>Properties of the persistence\<close>

definition no_faults :: io_faults where
  "no_faults = \<lparr>create_fails = False, write_fails_after = None, finish_fails = False, rename_fails = False\<rparr>"

lemma no_faults_sel [simp]:
  "\<not> create_fails no_faults" "write_fails_after no_faults = None" "\<not> finish_fails no_faults" "\<not> rename_fails no_faults"
  by (simp_all add: no_faults_def)

lemma with_extension_neq: "with_extension path ''bin.tmp'' \<noteq> path"
proof
  assume eq: "with_extension path ''bin.tmp'' = path"
  define name where "name = rev (takeWhile (\<lambda>c. c \<noteq> CHR ''/'') (rev path))"
  define prior where "prior = rev (drop 1 (dropWhile (\<lambda>c. c \<noteq> CHR ''.'') (rev name)))"
  have "path = rev (dropWhile (\<lambda>c. c \<noteq> CHR ''/'') (rev path)) @ name"
    unfolding name_def by (metis rev_append rev_rev_ident takeWhile_dropWhile_id)
  then have name: "name = (if prior = [] then name else prior) @ ''.bin.tmp''"
    using eq unfolding with_extension_def Let_def name_def [symmetric] prior_def [symmetric]
    by (metis append_Cons append_Nil same_append_eq)
  then have ne: "prior \<noteq> []" by auto
  let ?d = "dropWhile (\<lambda>c. c \<noteq> CHR ''.'') (rev name)"
  have "?d \<noteq> []" using ne unfolding prior_def by (metis drop_Nil rev.simps(1))
  then have "?d = CHR ''.'' # rev prior"
    using hd_dropWhile [of "\<lambda>c. c \<noteq> CHR ''.''" "rev name"] by (cases ?d) (auto simp: prior_def)
  then have split: "rev name = takeWhile (\<lambda>c. c \<noteq> CHR ''.'') (rev name) @ CHR ''.'' # rev prior"
    by (metis takeWhile_dropWhile_id)
  have nm: "name = prior @ ''.bin.tmp''" using name unfolding if_not_P [OF ne] .
  have "rev name = rev ''.bin.tmp'' @ rev prior" by (subst nm) (rule rev_append)
  then have "takeWhile (\<lambda>c. c \<noteq> CHR ''.'') (rev name) = ''pmt''" by simp
  moreover have "takeWhile (\<lambda>c. c \<noteq> CHR ''.'') (rev name) @ CHR ''.'' # rev prior = ''pmt.nib.'' @ rev prior"
    using split \<open>rev name = rev ''.bin.tmp'' @ rev prior\<close> by simp
  ultimately show False by simp
qed

lemma save_write_fails:
  "write_fails_after F = Some n \<Longrightarrow> fst (save_to_file L crc F path h c d) = Inl SystemError"
  by (simp add: save_to_file_def Let_def)

context utxo_lru
begin

lemma save_load:
  assumes "cache_ok L c" "cache_wf L c" "cache_new L n = Some c0"
    "save_to_file L crc no_faults path h c d = (r, d')"
  shows "r = Inr (length (cache_entries L c)) \<and>
    load_from_file L crc path d' c0 = (Inr (length (cache_entries L c)), load_entries L (cache_entries L c) c0)"
  using save_ok [OF assms(1), of no_faults crc path h d] assms(2,4)
    read_cache_file_encode [of "cache_entries L c" crc h]
  by (simp add: load_from_file_def cache_wf_def)

lemma save_load_restores:
  assumes "cache_ok L c" "cache_wf L c" "cache_new L n = Some c0"
    "save_to_file L crc no_faults path h c d = (r, d')" "load_from_file L crc path d' c0 = (r', c1)"
  shows "r = Inr (length (cache_entries L c)) \<and> r' = r \<and>
    (\<forall>i \<in> {..<16}. lru_iter L (uc_shards c1 ! i) = take (max 1 (n div 16)) (lru_iter L (uc_shards c ! i))) \<and>
    uc_stats c1 = stats_new"
proof -
  have c1: "r = Inr (length (cache_entries L c))" "r' = r" "c1 = load_entries L (cache_entries L c) c0"
    using save_load [OF assms(1-4)] assms(5) by auto
  have "length (uc_shards c0) = NUM_SHARDS" using new_cache(1) [OF assms(3)] by (simp add: cache_ok_def)
  then have "uc_stats c1 = stats_new"
    using new_cache(5) [OF assms(3)] by (simp add: c1 load_entries_shards)
  then show ?thesis using load_saved_shard [OF assms(1,3)] c1 by (simp add: NUM_SHARDS_def)
qed

lemma save_atomic:
  assumes "cache_ok L c" "cache_wf L c" "save_to_file L crc F path h c d = (r, d')"
  shows "case r of
      Inl e \<Rightarrow> d' path = d path
    | Inr n \<Rightarrow> n = cache_len L c \<and> d' (with_extension path ''bin.tmp'') = None \<and>
        (\<exists>file. d' path = Some file \<and> read_cache_file crc file = Inr (cache_entries L c))"
proof (cases "create_fails F \<or> write_fails_after F \<noteq> None \<or> finish_fails F \<or> rename_fails F")
  case True
  then obtain e where "r = Inl e" "d' path = d path"
    using assms(3) with_extension_neq [of path]
    by (auto simp: save_to_file_def Let_def split: if_splits option.splits)
  then show ?thesis by simp
next
  case False
  then have ok: "\<not> create_fails F" "write_fails_after F = None" "\<not> finish_fails F" "\<not> rename_fails F" by auto
  have reads: "read_cache_file crc (encode_header (of_nat (length (cache_entries L c))) h
      (crc (concat (map encode_entry (cache_entries L c)))) @ concat (map encode_entry (cache_entries L c))) =
      Inr (cache_entries L c)"
    using assms(2) by (intro read_cache_file_encode) (simp_all add: cache_wf_def)
  show ?thesis
    using save_ok [OF assms(1) ok, of crc path h d] assms(3) reads with_extension_neq [of path]
    by (simp add: cache_len_entries [OF assms(1)])
qed

text \<open>Loading into a cache that already has entries.\<close>

lemma load_entries_ok:
  assumes "cache_ok L c"
  shows "cache_ok L (load_entries L es c)"
proof -
  let ?sh = "\<lambda>i. load_shard L (entries_of_shard i es) (uc_shards c ! i)"
  have n: "length (uc_shards c) = NUM_SHARDS" using assms by (simp add: cache_ok_def)
  have keys: "fst ` set (fold (\<lambda>(k, v). put_front m k v) xs ys) \<subseteq> fst ` set xs \<union> fst ` set ys"
    for m and xs ys :: "(utxo_key \<times> cached_output) list"
  proof (induction xs arbitrary: ys)
    case (Cons x xs)
    obtain k v where x: "x = (k, v)" by (cases x)
    have "fst ` set (fold (\<lambda>(k, v). put_front m k v) xs (put_front m k v ys)) \<subseteq>
        fst ` set xs \<union> insert k (fst ` set ys)"
      using Cons.IH [of "put_front m k v ys"] set_put_front [of m k v ys] by blast
    then show ?case by (simp add: x)
  qed simp
  have "lru_ok L (?sh i) \<and> (\<forall>k \<in> fst ` set (lru_iter L (?sh i)). shard_index k = i)" if "i < NUM_SHARDS" for i
  proof
    have ok: "lru_ok L (uc_shards c ! i)" using assms that by (simp add: cache_ok_def)
    then show "lru_ok L (?sh i)" using load_shard_ok by blast
    have "lru_iter L (?sh i) = fold (\<lambda>(k, v). put_front (lru_cap L (uc_shards c ! i)) k v)
        (rev (entries_of_shard i es)) (lru_iter L (uc_shards c ! i))"
      using load_shard_ok [OF ok] by blast
    moreover have "\<forall>k \<in> fst ` set (entries_of_shard i es). shard_index k = i"
      by (auto simp: entries_of_shard_def)
    ultimately show "\<forall>k \<in> fst ` set (lru_iter L (?sh i)). shard_index k = i"
      using keys [of "lru_cap L (uc_shards c ! i)" "rev (entries_of_shard i es)" "lru_iter L (uc_shards c ! i)"]
        shard_keys [OF assms that] by fastforce
  qed
  then show ?thesis by (simp add: cache_ok_def load_entries_shards n)
qed

lemma load_checked:
  assumes "cache_ok L c" "load_from_file L crc path d c = (r, c')"
  shows "cache_ok L c' \<and> uc_stats c' = uc_stats c \<and>
    (case r of Inl e \<Rightarrow> c' = c
     | Inr n \<Rightarrow> (d path = None \<and> n = 0 \<and> c' = c) \<or>
         (\<exists>file es. d path = Some file \<and> read_cache_file crc file = Inr es \<and> n = length es \<and> c' = load_entries L es c))"
proof -
  have "length (uc_shards c) = NUM_SHARDS" using assms(1) by (simp add: cache_ok_def)
  then show ?thesis using assms load_entries_ok [OF assms(1)] load_entries_shards(2)
    by (auto simp: load_from_file_def split: option.splits sum.splits)
qed

end

text \<open>What the reader accepted: the payload's checksum is the one in the header.\<close>

lemma read_plain_Inr: "read_plain n (bs, h) = (Inr xs, s') \<Longrightarrow> length xs = n \<and> (\<exists>rest. bs = xs @ rest \<and> s' = (rest, h))"
  by (auto simp: read_plain_def dest!: read_exact_Some split: option.splits)

lemma read_hashed_Inr: "read_hashed n (bs, h) = (Inr xs, s') \<Longrightarrow> length xs = n \<and> (\<exists>rest. bs = xs @ rest \<and> s' = (rest, h @ xs))"
  by (auto simp: read_hashed_def dest!: read_exact_Some split: option.splits)

text \<open>A step consumes bytes from the front and hashes exactly those.\<close>

definition hashes_consumed :: "'a reader \<Rightarrow> bool" where
  "hashes_consumed m \<longleftrightarrow> (\<forall>bs h x rest h'. m (bs, h) = (Inr x, (rest, h')) \<longrightarrow> (\<exists>used. bs = used @ rest \<and> h' = h @ used))"

lemma hashes_consumed_ret [intro]: "hashes_consumed (ret x)" "hashes_consumed (fail e)"
  by (simp_all add: hashes_consumed_def)

lemma hashes_consumed_read [intro]: "hashes_consumed (read_hashed n)"
  by (auto simp: hashes_consumed_def dest: read_hashed_Inr)

lemma hashes_consumed_then [intro]:
  assumes "hashes_consumed m" "\<And>x. hashes_consumed (f x)"
  shows "hashes_consumed (and_then m f)"
  unfolding hashes_consumed_def
proof (intro allI impI)
  fix bs h x rest h' assume "and_then m f (bs, h) = (Inr x, (rest, h'))"
  then obtain y s where m: "m (bs, h) = (Inr y, s)" and f: "f y s = (Inr x, (rest, h'))" by (rule and_then_InrE)
  obtain r1 h1 where s: "s = (r1, h1)" by (cases s)
  obtain u1 where "bs = u1 @ r1" "h1 = h @ u1" using assms(1) m unfolding s hashes_consumed_def by blast
  moreover obtain u2 where "r1 = u2 @ rest" "h' = h1 @ u2" using assms(2) f unfolding s hashes_consumed_def by blast
  ultimately show "\<exists>used. bs = used @ rest \<and> h' = h @ used" by auto
qed

lemma hashes_consumed_address: "hashes_consumed read_address"
  unfolding read_address_def
proof (rule hashes_consumed_then [OF hashes_consumed_read])
  fix x :: "u8 list"
  have body: "hashes_consumed (if utf8_valid ab then ret (Some (bytes_to_string ab)) else fail InvalidUtf8)" for ab
    using hashes_consumed_ret by (cases "utf8_valid ab") (simp_all only: if_True if_False)
  show "hashes_consumed (if x = [1] then and_then (read_hashed 2) (\<lambda>lb. and_then (read_hashed (nat_from_le lb))
      (\<lambda>ab. if utf8_valid ab then ret (Some (bytes_to_string ab)) else fail InvalidUtf8)) else ret None)"
  proof (cases "x = [1]")
    case True
    show ?thesis unfolding if_P [OF True] by (intro hashes_consumed_then hashes_consumed_read body)
  next
    case False
    show ?thesis unfolding if_not_P [OF False] by (rule hashes_consumed_ret)
  qed
qed

lemma hashes_consumed_entry: "hashes_consumed read_entry"
  unfolding read_entry_def
  by (intro hashes_consumed_then hashes_consumed_read hashes_consumed_address hashes_consumed_ret)

lemma hashes_consumed_entries: "hashes_consumed (read_entries n)"
proof (induction n)
  case 0
  show ?case unfolding read_entries.simps by (rule hashes_consumed_ret)
next
  case (Suc n)
  then show ?case unfolding read_entries.simps
    by (intro hashes_consumed_then hashes_consumed_entry hashes_consumed_ret)
qed

lemma read_header_Inr:
  assumes "read_header (bs, h) = (Inr (n, ht, crc), (rest, h'))"
  shows "h' = h \<and> take 4 bs = CACHE_FILE_MAGIC \<and> u32_from_le (take 4 (drop 4 bs)) = CACHE_FILE_VERSION \<and>
    n = u64_from_le (take 8 (drop 8 bs)) \<and> crc = u32_from_le (take 4 (drop 20 bs)) \<and> rest = drop 24 bs"
  using assms unfolding read_header_def
  by (auto elim!: and_then_InrE dest!: read_plain_Inr split: if_splits)

lemma read_cache_file_Inr:
  assumes "read_cache_file crc file = Inr es"
  shows "take 4 file = CACHE_FILE_MAGIC \<and> u32_from_le (take 4 (drop 4 file)) = CACHE_FILE_VERSION \<and>
    (\<exists>payload rest. drop 24 file = payload @ rest \<and> crc payload = u32_from_le (take 4 (drop 20 file)))"
proof -
  obtain n ht x rest h' where hd: "read_header (file, []) = (Inr (n, ht, x), (rest, h'))"
    using assms by (auto simp: read_cache_file_def split: prod.splits sum.splits)
  note header = read_header_Inr [OF hd]
  obtain r2 h2 where en: "read_entries (unat n) (rest, h') = (Inr es, (r2, h2))" and crc: "crc h2 = x"
    using assms hd by (auto simp: read_cache_file_def split: prod.splits sum.splits if_splits)
  obtain used where "rest = used @ r2" "h2 = h' @ used"
    using hashes_consumed_entries [of "unat n"] en unfolding hashes_consumed_def by blast
  then have "drop 24 file = used @ r2 \<and> crc used = u32_from_le (take 4 (drop 20 file))" using header crc by simp
  then show ?thesis using header by blast
qed

text \<open>
  C18. Saving is atomic: if any system call of the save fails, the file at the target path is
  untouched; if the save succeeds, the temporary file is gone and the target is a file that
  the reader accepts and that lists exactly the entries of the cache, in recency order.
\<close>
theorem cache_save_atomic:
  "lru L \<Longrightarrow> cache_ok L c \<Longrightarrow> cache_wf L c \<Longrightarrow> save_to_file L crc F path h c d = (r, d') \<Longrightarrow>
    (case r of
       Inl e \<Rightarrow> d' path = d path
     | Inr n \<Rightarrow> n = cache_len L c \<and> d' (with_extension path ''bin.tmp'') = None \<and>
        (\<exists>file. d' path = Some file \<and> read_cache_file crc file = Inr (cache_entries L c)))"
  by (rule utxo_lru.save_atomic) (simp_all add: utxo_lru_iff)

definition ex_filled :: "(utxo_key, cached_output) ref_lru utxo_cache" where
  "ex_filled = cache_insert ref_lru_ops (ex_key 1) (ex_out 5) ex_cache"

lemma ex_filled_ok: "cache_ok ref_lru_ops ex_filled"
  unfolding ex_filled_def by (rule ref_cache.insert_ok [OF ex_cache_ok])

lemma ex_filled_wf: "cache_wf ref_lru_ops ex_filled"
proof -
  have "cache_entries ref_lru_ops ex_filled = [(ex_key 1, ex_out 5)]" by code_simp
  moreover have "utf8_valid (string_to_bytes ''addr'')"
    by (rule utf8_valid_ascii) (simp add: string_to_bytes_def)
  ultimately show ?thesis
    by (simp add: cache_wf_def entry_wf_def key_wf_def address_wf_def ex_key_def ex_out_def)
qed

definition ex_crc :: "u8 list \<Rightarrow> u32" where
  "ex_crc bs = fold (\<lambda>b acc. acc + ucast b) bs 0"

theorem cache_save_atomic_witness:
  "snd (save_to_file ref_lru_ops ex_crc \<lparr>create_fails = False, write_fails_after = Some 30, finish_fails = False,
      rename_fails = False\<rparr> ''cache.bin'' 9 ex_filled [''cache.bin'' \<mapsto> [1]]) ''cache.bin'' = Some [1]"
proof -
  obtain r d' where run: "save_to_file ref_lru_ops ex_crc \<lparr>create_fails = False, write_fails_after = Some 30,
      finish_fails = False, rename_fails = False\<rparr> ''cache.bin'' 9 ex_filled [''cache.bin'' \<mapsto> [1]] = (r, d')"
    by (metis prod.collapse)
  then have "r = Inl SystemError"
    using save_write_fails [of "\<lparr>create_fails = False, write_fails_after = Some 30, finish_fails = False, rename_fails = False\<rparr>" 30
        ref_lru_ops ex_crc "''cache.bin''" 9 ex_filled "[''cache.bin'' \<mapsto> [1]]"] by simp
  with cache_save_atomic [OF ref_lru_is_lru ex_filled_ok ex_filled_wf run] show ?thesis by (simp add: run)
qed

text \<open>
  C17. Saving a cache and loading the file into a fresh cache of any capacity restores, in
  every shard, the most recently used entries up to the new shard capacity, in their recency
  order, and leaves the new cache's statistics at zero; both report the number of entries
  saved.
\<close>
theorem cache_save_load_roundtrip:
  "lru L \<Longrightarrow> cache_ok L c \<Longrightarrow> cache_wf L c \<Longrightarrow> cache_new L n = Some c0 \<Longrightarrow>
    save_to_file L crc no_faults path h c d = (r, d') \<Longrightarrow> load_from_file L crc path d' c0 = (r', c1) \<Longrightarrow>
    r = Inr (length (cache_entries L c)) \<and> r' = r \<and>
    (\<forall>i \<in> {..<16}. lru_iter L (uc_shards c1 ! i) = take (max 1 (n div 16)) (lru_iter L (uc_shards c ! i))) \<and>
    uc_stats c1 = stats_new"
  by (rule utxo_lru.save_load_restores) (simp_all add: utxo_lru_iff)

theorem cache_save_load_roundtrip_witness:
  "\<exists>d' c1. save_to_file ref_lru_ops ex_crc no_faults ''cache.bin'' 9 ex_filled Map.empty = (Inr (length (cache_entries ref_lru_ops ex_filled)), d')
     \<and> load_from_file ref_lru_ops ex_crc ''cache.bin'' d' ex_cache = (Inr (length (cache_entries ref_lru_ops ex_filled)), c1)
     \<and> uc_stats c1 = stats_new"
proof -
  obtain r d' where s: "save_to_file ref_lru_ops ex_crc no_faults ''cache.bin'' 9 ex_filled Map.empty = (r, d')"
    by (metis prod.collapse)
  obtain r' c1 where l: "load_from_file ref_lru_ops ex_crc ''cache.bin'' d' ex_cache = (r', c1)" by (metis prod.collapse)
  show ?thesis
    using cache_save_load_roundtrip [OF ref_lru_is_lru ex_filled_ok ex_filled_wf ex_cache_new s l] s l by blast
qed



end
