(* ===== verification/Ingestion.thy ===== *)
theory Ingestion
  imports Chunking AddressConv GraphWriter CacheFile
begin

text \<open>
  The ingestion orchestrator (\<open>src/src/domain/ingestion.rs\<close>): the single-block path
  \<open>ingest_block\<close> and the batch path \<open>ingest_blocks_batch\<close> with every phase of
  \<open>process_batch_chunk\<close>. Actions run on the state of the whole orchestrator: the writer,
  the cache, the disk that holds cache snapshots, and the bucket tasks that were spawned
  but not awaited. Sums of \<open>u64\<close> amounts wrap as in a release build. The iteration order
  of a \<open>HashMap\<close> and the interleaving of the bucket tasks are parameters.
\<close>

section \<open>State and environment\<close>

record ('w, 'c) orchestrator =
  or_writer :: "'w graph_writer"
  or_lru :: "'c utxo_lru_ops"
  or_btc :: btc
  or_network :: network
  or_max_transaction_memory_bytes :: usize
  or_now :: i64
  or_hash_order :: "(string \<times> u32 \<times> u64) list \<Rightarrow> (string \<times> u32 \<times> u64) list"
  or_string_hash :: "string \<Rightarrow> u64"
  or_schedule :: "nat list"
  or_crc :: "u8 list \<Rightarrow> u32"
  or_io_faults :: io_faults

datatype bucket_step = WritePerforms "performs_data list" | WriteBenefits "benefits_to_data list"

type_synonym bucket_task = "bucket_step list \<times> werror option"

record ('w, 'c) orch_state =
  os_db :: 'w
  os_cache :: "'c utxo_cache"
  os_disk :: disk
  os_snapshot_path :: "string option"
  os_detached :: "bucket_task list"

type_synonym ('w, 'c, 'a) orch = "(('w, 'c) orch_state, werror, 'a) action"

definition in_db :: "('w, 'a) db \<Rightarrow> ('w, 'c, 'a) orch" where
  "in_db m st = (case m (os_db st) of (r, w) \<Rightarrow> (r, st\<lparr>os_db := w\<rparr>))"

definition in_cache :: "('c utxo_cache \<Rightarrow> 'c utxo_cache) \<Rightarrow> ('w, 'c, unit) orch" where
  "in_cache f st = (Inr (), st\<lparr>os_cache := f (os_cache st)\<rparr>)"

text \<open>\<open>chunk.iter()...map(...)\<close> over the transactions of a chunk, with the height of the block.\<close>

definition chunk_txs :: "chunk \<Rightarrow> (u32 \<times> btc_block \<times> btc_tx) list" where
  "chunk_txs chunk = concat (map (\<lambda>(h, b, _). map (\<lambda>tx. (h, b, tx)) (bl_txdata b)) chunk)"

definition txid_string :: "btc \<Rightarrow> btc_tx \<Rightarrow> string" where
  "txid_string B tx = btc_hash_to_string B (btc_txid B tx)"

definition tx_output_data :: "('w, 'c) orchestrator \<Rightarrow> btc_tx \<Rightarrow> output_data list" where
  "tx_output_data E tx =
     map (\<lambda>(i, out). from_output (or_btc E) out (txid_string (or_btc E) tx) (usize_as_u32 i) (or_network E))
       (enumerate 0 (tx_output tx))"

definition tx_input_data :: "('w, 'c) orchestrator \<Rightarrow> u32 \<Rightarrow> btc_tx \<Rightarrow> input_data list" where
  "tx_input_data E height tx =
     map (\<lambda>(i, inp). from_input (or_btc E) inp (txid_string (or_btc E) tx) (usize_as_u32 i) height)
       (enumerate 0 (tx_input tx))"

section \<open>Aggregation per address\<close>

text \<open>\<open>entry(address).or_insert((0, 0))\<close>, then one more item and its amount.\<close>

type_synonym agg = "(string \<times> u32 \<times> u64) list"

definition agg_entry :: "string \<Rightarrow> u64 \<Rightarrow> agg \<Rightarrow> agg" where
  "agg_entry address amount m =
     (let (n, amt_sum) = (case map_of m address of Some e \<Rightarrow> e | None \<Rightarrow> (0, 0))
      in AList.update address (n + 1, amt_sum + amount) m)"

definition agg_output :: "output_data \<Rightarrow> agg \<Rightarrow> agg" where
  "agg_output out m = (case od_address out of Some address \<Rightarrow> agg_entry address (od_amount out) m | None \<Rightarrow> m)"

definition tx_benefits :: "('w, 'c) orchestrator \<Rightarrow> btc_tx \<Rightarrow> benefits_to_data list" where
  "tx_benefits E tx =
     map (\<lambda>(address, output_count, amount_received).
           \<lparr> ben_from_txid = txid_string (or_btc E) tx, ben_to_address = address,
             ben_output_count = output_count, ben_amount_received = amount_received \<rparr>)
       (or_hash_order E (fold agg_output (tx_output_data E tx) []))"

text \<open>The loop over the keys of one transaction: the sum of the amounts found and the totals
  per spending address. A key that is not found contributes nothing.\<close>

definition sum_input :: "(utxo_key \<rightharpoonup> cached_output) \<Rightarrow> utxo_key \<Rightarrow> u64 \<times> agg \<Rightarrow> u64 \<times> agg" where
  "sum_input all_outputs key acc =
     (case acc of (amt_sum, performs_map) \<Rightarrow>
        case all_outputs key of
          Some out \<Rightarrow> (amt_sum + co_amount out,
            (case co_address out of Some address \<Rightarrow> agg_entry address (co_amount out) performs_map | None \<Rightarrow> performs_map))
        | None \<Rightarrow> (amt_sum, performs_map))"

definition performs_of :: "('w, 'c) orchestrator \<Rightarrow> string \<Rightarrow> agg \<Rightarrow> performs_data list" where
  "performs_of E txid m =
     map (\<lambda>(address, input_count, amount_spent).
           \<lparr> pd_from_address = address, pd_to_txid = txid, pd_input_count = input_count,
             pd_amount_spent = amount_spent \<rparr>) (or_hash_order E m)"

definition sum_outputs :: "btc_tx \<Rightarrow> u64" where
  "sum_outputs tx = sum_list (map to_value (tx_output tx))"

section \<open>The cache side of Phase 2\<close>

definition cached_of_output :: "output_data \<Rightarrow> cached_output" where
  "cached_of_output out =
     \<lparr> co_output_index = od_output_index out, co_amount = od_amount out,
       co_script_type = tag_from_str (od_script_type out), co_address = od_address out \<rparr>"

definition cache_output :: "('w, 'c) orchestrator \<Rightarrow> output_data \<Rightarrow> 'c utxo_cache \<Rightarrow> 'c utxo_cache" where
  "cache_output E out c =
     (case key_from_hex_txid (or_btc E) (od_txid out) (od_output_index out) of
        Some key \<Rightarrow> cache_insert (or_lru E) key (cached_of_output out) c
      | None \<Rightarrow> c)"

text \<open>\<open>tokio::join!\<close>: both futures run to completion, then the result of the write is
  propagated; the cache is populated even when the write fails.\<close>

definition write_and_cache :: "('w, 'c) orchestrator \<Rightarrow> ('w, unit) db \<Rightarrow> output_data list \<Rightarrow> ('w, 'c, unit) orch" where
  "write_and_cache E wr outputs st =
     (case in_db wr st of (r, st') \<Rightarrow> (r, st'\<lparr>os_cache := fold (cache_output E) outputs (os_cache st')\<rparr>))"

section \<open>The single-block path\<close>

definition validate_parent_hash :: "('w, 'c) orchestrator \<Rightarrow> btc_block \<Rightarrow> u32 \<Rightarrow> ('w, 'c, unit) orch" where
  "validate_parent_hash E block height =
     (if height = 0 then ret ()
      else and_then (in_db (gw_lookup_block_hash (or_writer E) (height - 1))) (\<lambda>stored_hash.
        let expected_hash = btc_hash_to_string (or_btc E) (hd_prev_blockhash (bl_header block)) in
        case stored_hash of
          Some hash \<Rightarrow> if hash = expected_hash then ret () else fail (ReorgDetected height expected_hash hash)
        | None \<Rightarrow> ret ()))"

definition ingest_block_node :: "('w, 'c) orchestrator \<Rightarrow> btc_block \<Rightarrow> u32 \<Rightarrow> ('w, 'c, unit) orch" where
  "ingest_block_node E block height =
     in_db (gw_write_blocks (or_writer E) [from_block (or_btc E) block height])"

definition ingest_outputs_and_cache :: "('w, 'c) orchestrator \<Rightarrow> btc_block \<Rightarrow> u32 \<Rightarrow> ('w, 'c, output_data list) orch" where
  "ingest_outputs_and_cache E block height =
     (let all_outputs = concat (map (tx_output_data E) (bl_txdata block)) in
      and_then (write_and_cache E (gw_write_outputs (or_writer E) all_outputs) all_outputs) (\<lambda>_.
      ret all_outputs))"

text \<open>The input keys of all transactions, with the range of keys of each transaction.\<close>

definition collect_key_range :: "btc \<Rightarrow> btc_tx \<Rightarrow> utxo_key list \<times> range list \<Rightarrow> utxo_key list \<times> range list" where
  "collect_key_range B tx acc =
     (case acc of (all_input_keys, tx_key_ranges) \<Rightarrow>
        let start = length all_input_keys;
            all_input_keys = (if btc_is_coinbase B tx then all_input_keys
              else all_input_keys @ map (\<lambda>i. key_from_outpoint (ti_previous_output i)) (tx_input tx))
        in (all_input_keys, tx_key_ranges @ [(start, length all_input_keys)]))"

definition tx_with_amounts :: "('w, 'c) orchestrator \<Rightarrow> (utxo_key \<rightharpoonup> cached_output) \<Rightarrow> utxo_key list \<Rightarrow> u32 \<Rightarrow> string
    \<Rightarrow> i64 \<Rightarrow> btc_tx \<times> range \<Rightarrow> transaction_data \<times> performs_data list" where
  "tx_with_amounts E all_outputs all_input_keys height block_hash timestamp = (\<lambda>(tx, key_range).
     let B = or_btc E;
         tx_data = from_transaction B tx height block_hash timestamp;
         total_output = sum_outputs tx;
         (total_input, performs) =
           (if btc_is_coinbase B tx then (0, [])
            else case fold (sum_input all_outputs) (slice key_range all_input_keys) (0, []) of
              (amt_sum, m) \<Rightarrow> (amt_sum, performs_of E (txid_string B tx) m));
         fee = (if btc_is_coinbase B tx then 0 else saturating_sub total_input total_output)
     in (tx_data\<lparr>td_total_input := Some total_input, td_total_output := Some total_output, td_fee := Some fee\<rparr>,
         performs))"

definition ingest_transactions_with_amounts :: "('w, 'c) orchestrator \<Rightarrow> btc_block \<Rightarrow> u32 \<Rightarrow> ('w, 'c, performs_data list) orch" where
  "ingest_transactions_with_amounts E block height =
     (let B = or_btc E;
          block_hash = btc_hash_to_string B (btc_block_hash B block);
          timestamp = uint (hd_time (bl_header block));
          (all_input_keys, tx_key_ranges) = fold (collect_key_range B) (bl_txdata block) ([], []) in
      and_then (\<lambda>st. case get_many_with_fallback (or_lru E) B (gw_lookup_outputs_batch (or_writer E)) all_input_keys
                            (os_db st, os_cache st) of
                   (r, w, c) \<Rightarrow> (r, st\<lparr>os_db := w, os_cache := c\<rparr>)) (\<lambda>all_outputs.
      let results = map (tx_with_amounts E all_outputs all_input_keys height block_hash timestamp)
                      (zip (bl_txdata block) tx_key_ranges) in
      and_then (in_db (gw_write_transactions (or_writer E) (map fst results))) (\<lambda>_.
      ret (concat (map snd results)))))"

definition ingest_inputs :: "('w, 'c) orchestrator \<Rightarrow> btc_block \<Rightarrow> u32 \<Rightarrow> ('w, 'c, unit) orch" where
  "ingest_inputs E block height =
     in_db (gw_write_inputs (or_writer E) (concat (map (tx_input_data E height) (bl_txdata block))))"

definition write_simplified_layer_rust :: "('w, 'c) orchestrator \<Rightarrow> btc_block \<Rightarrow> performs_data list \<Rightarrow> ('w, 'c, unit) orch" where
  "write_simplified_layer_rust E block performs =
     (let benefits = concat (map (tx_benefits E) (bl_txdata block)) in
      and_then (if performs \<noteq> [] then in_db (gw_write_performs (or_writer E) performs) else ret ()) (\<lambda>_.
      if benefits \<noteq> [] then in_db (gw_write_benefits_to (or_writer E) benefits) else ret ()))"

definition remove_spent_outputs_from_cache :: "('w, 'c) orchestrator \<Rightarrow> btc_block \<Rightarrow> ('w, 'c, unit) orch" where
  "remove_spent_outputs_from_cache E block =
     in_cache (cache_remove_many (or_lru E) (spent_keys_of_block (or_btc E) block))"

definition checkpoint_at :: "('w, 'c) orchestrator \<Rightarrow> i32 \<Rightarrow> string \<Rightarrow> string \<Rightarrow> u64 option \<Rightarrow> checkpoint_data" where
  "checkpoint_at E height hash file offset =
     \<lparr> cp_last_processed_height = height, cp_last_processed_hash = hash, cp_last_processed_file = file,
       cp_last_processed_file_offset = offset, cp_timestamp = or_now E, cp_status = ''in_progress'' \<rparr>"

definition ingest_block :: "('w, 'c) orchestrator \<Rightarrow> btc_block \<Rightarrow> u32 \<Rightarrow> string \<Rightarrow> u64 option \<Rightarrow> ('w, 'c, unit) orch" where
  "ingest_block E block height file_name file_offset =
     and_then (validate_parent_hash E block height) (\<lambda>_.
     and_then (ingest_block_node E block height) (\<lambda>_.
     and_then (ingest_outputs_and_cache E block height) (\<lambda>output_data.
     and_then (ingest_transactions_with_amounts E block height) (\<lambda>performs_data.
     and_then (in_db (gw_write_has_output (or_writer E) output_data)) (\<lambda>_.
     and_then (ingest_inputs E block height) (\<lambda>_.
     and_then (write_simplified_layer_rust E block performs_data) (\<lambda>_.
     and_then (remove_spent_outputs_from_cache E block) (\<lambda>_.
     in_db (gw_update_checkpoint (or_writer E)
       (checkpoint_at E (u32_as_i32 height) (btc_hash_to_string (or_btc E) (btc_block_hash (or_btc E) block))
          file_name file_offset))))))))))"

section \<open>Phase 6: parallel bucket writes\<close>

text \<open>A spawned task is what it has left to do and the error it stopped with. One turn of a
  task performs its next write; a task that failed does nothing more.\<close>

fun run_step :: "'w graph_writer \<Rightarrow> bucket_step \<Rightarrow> ('w, unit) db" where
  "run_step W (WritePerforms ps) = gw_write_performs W ps"
| "run_step W (WriteBenefits bs) = gw_write_benefits_to W bs"

fun task_turn :: "'w graph_writer \<Rightarrow> bucket_task \<Rightarrow> 'w \<Rightarrow> bucket_task \<times> 'w" where
  "task_turn W ([], e) w = (([], e), w)"
| "task_turn W (s # ss, e) w =
     (case run_step W s w of
        (Inr _, w') \<Rightarrow> ((ss, e), w')
      | (Inl err, w') \<Rightarrow> (([], Some err), w'))"

definition turn_of :: "'w graph_writer \<Rightarrow> nat \<Rightarrow> bucket_task list \<times> 'w \<Rightarrow> bucket_task list \<times> 'w" where
  "turn_of W i st =
     (case st of (tasks, w) \<Rightarrow>
        if i < length tasks then (case task_turn W (tasks ! i) w of (t, w') \<Rightarrow> (tasks[i := t], w')) else st)"

text \<open>Before the spawner awaits, the tasks have made the turns of the schedule. Awaiting a
  task lets it finish; the first task that failed, in bucket order, decides the result, and
  the tasks after it are left running, detached.\<close>

definition finish_task :: "'w graph_writer \<Rightarrow> bucket_task \<Rightarrow> 'w \<Rightarrow> bucket_task \<times> 'w" where
  "finish_task W t w = fold (\<lambda>_ (t, w). task_turn W t w) (fst t) (t, w)"

fun await_all :: "'w graph_writer \<Rightarrow> bucket_task list \<Rightarrow> 'w \<Rightarrow> (werror + unit) \<times> bucket_task list \<times> 'w" where
  "await_all W [] w = (Inr (), [], w)"
| "await_all W (t # ts) w =
     (case finish_task W t w of
        ((_, None), w') \<Rightarrow> await_all W ts w'
      | ((_, Some err), w') \<Rightarrow> (Inl err, ts, w'))"

definition NUM_BUCKETS :: usize where
  "NUM_BUCKETS = 8"

definition bucket_tasks :: "('w, 'c) orchestrator \<Rightarrow> performs_data list \<Rightarrow> benefits_to_data list \<Rightarrow> bucket_task list" where
  "bucket_tasks E performs benefits =
     map (\<lambda>(ps, bs). ((if ps \<noteq> [] then [WritePerforms ps] else []) @ (if bs \<noteq> [] then [WriteBenefits bs] else []), None))
       (zip (partition_performs_by_address (or_string_hash E) performs NUM_BUCKETS)
            (partition_benefits_by_address (or_string_hash E) benefits NUM_BUCKETS))"

definition write_buckets :: "('w, 'c) orchestrator \<Rightarrow> performs_data list \<Rightarrow> benefits_to_data list \<Rightarrow> ('w, 'c, unit) orch" where
  "write_buckets E performs benefits st =
     (let W = or_writer E;
          (tasks, w) = fold (turn_of W) (or_schedule E) (bucket_tasks E performs benefits, os_db st)
      in case await_all W tasks w of
           (r, rest, w') \<Rightarrow> (r, st\<lparr>os_db := w', os_detached := os_detached st @ filter (\<lambda>t. fst t \<noteq> []) rest\<rparr>))"

section \<open>The batch path\<close>

definition BIP30_DUPLICATE_HEIGHTS :: "u32 list" where
  "BIP30_DUPLICATE_HEIGHTS = [91842, 91880]"

definition has_bip30 :: "chunk \<Rightarrow> bool" where
  "has_bip30 chunk = list_ex (\<lambda>(h, _, _). h \<in> set BIP30_DUPLICATE_HEIGHTS) chunk"

definition phase1_blocks :: "('w, 'c) orchestrator \<Rightarrow> chunk \<Rightarrow> ('w, 'c, unit) orch" where
  "phase1_blocks E chunk =
     in_db (gw_write_blocks_fast (or_writer E) (map (\<lambda>(height, block, _). from_block (or_btc E) block height) chunk))"

text \<open>Phase 2 collects the outputs and the BENEFITS_TO records transaction by transaction.\<close>

definition phase2_accumulate :: "('w, 'c) orchestrator \<Rightarrow> chunk \<Rightarrow> output_data list \<times> benefits_to_data list" where
  "phase2_accumulate E chunk =
     fold (\<lambda>(h, b, tx) (outputs, benefits). (outputs @ tx_output_data E tx, benefits @ tx_benefits E tx))
       (chunk_txs chunk) ([], [])"

definition phase2_write :: "('w, 'c) orchestrator \<Rightarrow> chunk \<Rightarrow> output_data list \<Rightarrow> ('w, 'c, unit) orch" where
  "phase2_write E chunk outputs =
     write_and_cache E
       (if has_bip30 chunk then gw_write_outputs (or_writer E) outputs else gw_write_outputs_fast (or_writer E) outputs)
       outputs"

record pending_tx =
  pt_tx :: btc_tx
  pt_block_height :: u32
  pt_block_hash :: string
  pt_timestamp :: i64
  pt_key_range :: range

definition collect_pending :: "btc \<Rightarrow> u32 \<times> btc_block \<times> btc_tx \<Rightarrow> utxo_key list \<times> pending_tx list \<Rightarrow> utxo_key list \<times> pending_tx list" where
  "collect_pending B = (\<lambda>(height, block, tx) (all_input_keys, pending_txs).
     let start = length all_input_keys;
         all_input_keys = (if btc_is_coinbase B tx then all_input_keys
           else all_input_keys @ map (\<lambda>i. key_from_outpoint (ti_previous_output i)) (tx_input tx))
     in (all_input_keys,
         pending_txs @ [\<lparr> pt_tx = tx, pt_block_height = height,
           pt_block_hash = btc_hash_to_string B (btc_block_hash B block),
           pt_timestamp = uint (hd_time (bl_header block)),
           pt_key_range = (start, length all_input_keys) \<rparr>]))"

definition phase3_collect :: "('w, 'c) orchestrator \<Rightarrow> chunk \<Rightarrow> utxo_key list \<times> pending_tx list" where
  "phase3_collect E chunk = fold (collect_pending (or_btc E)) (chunk_txs chunk) ([], [])"

text \<open>Supplement the pre-fetched outputs with what the cache holds after Phase 2.\<close>

definition supplement :: "('w, 'c) orchestrator \<Rightarrow> utxo_key \<Rightarrow> (utxo_key \<rightharpoonup> cached_output) \<times> 'c utxo_cache
    \<Rightarrow> (utxo_key \<rightharpoonup> cached_output) \<times> 'c utxo_cache" where
  "supplement E key acc =
     (case acc of (all_outputs, c) \<Rightarrow>
        if all_outputs key \<noteq> None then (all_outputs, c)
        else case cache_get_quiet (or_lru E) (or_btc E) key c of
          (Inr cached, c') \<Rightarrow> (all_outputs(key \<mapsto> cached), c')
        | (Inl _, c') \<Rightarrow> (all_outputs, c'))"

definition phase3_lookup :: "('w, 'c) orchestrator \<Rightarrow> (utxo_key \<rightharpoonup> cached_output) \<Rightarrow> utxo_key list
    \<Rightarrow> ('w, 'c, utxo_key \<rightharpoonup> cached_output) orch" where
  "phase3_lookup E prefetched all_input_keys st =
     (case fold (supplement E) all_input_keys (prefetched, os_cache st) of
        (all_outputs, c) \<Rightarrow> (Inr all_outputs, st\<lparr>os_cache := c\<rparr>))"

definition phase3_amounts :: "('w, 'c) orchestrator \<Rightarrow> (utxo_key \<rightharpoonup> cached_output) \<Rightarrow> utxo_key list \<Rightarrow> pending_tx
    \<Rightarrow> transaction_data \<times> performs_data list" where
  "phase3_amounts E all_outputs all_input_keys pending =
     (let B = or_btc E; tx = pt_tx pending;
          tx_data = from_transaction B tx (pt_block_height pending) (pt_block_hash pending) (pt_timestamp pending);
          total_output = sum_outputs tx;
          (total_input, performs) =
            (if btc_is_coinbase B tx then (0, [])
             else case fold (sum_input all_outputs) (slice (pt_key_range pending) all_input_keys) (0, []) of
               (amt_sum, m) \<Rightarrow> (amt_sum, performs_of E (txid_string B tx) m))
      in (tx_data\<lparr>td_total_input := Some total_input, td_total_output := Some total_output,
            td_fee := Some (saturating_sub total_input total_output)\<rparr>, performs))"

definition phase3_write :: "('w, 'c) orchestrator \<Rightarrow> chunk \<Rightarrow> transaction_data list \<Rightarrow> ('w, 'c, unit) orch" where
  "phase3_write E chunk txs =
     in_db (if has_bip30 chunk then gw_write_transactions (or_writer E) txs else gw_write_transactions_fast (or_writer E) txs)"

definition phase4_inputs :: "('w, 'c) orchestrator \<Rightarrow> chunk \<Rightarrow> ('w, 'c, unit) orch" where
  "phase4_inputs E chunk =
     (let inputs = concat (map (\<lambda>(h, b, tx). tx_input_data E h tx) (chunk_txs chunk)) in
      in_db (if has_bip30 chunk then gw_write_inputs (or_writer E) inputs else gw_write_inputs_fast (or_writer E) inputs))"

definition phase7_cleanup :: "('w, 'c) orchestrator \<Rightarrow> chunk \<Rightarrow> ('w, 'c, unit) orch" where
  "phase7_cleanup E chunk =
     in_cache (cache_remove_many (or_lru E)
       (concat (map (\<lambda>(_, block, _). spent_keys_of_block (or_btc E) block) chunk)))"

definition chunk_checkpoint :: "('w, 'c) orchestrator \<Rightarrow> chunk \<Rightarrow> ('w, 'c, unit) orch" where
  "chunk_checkpoint E chunk =
     (if chunk = [] then ret ()
      else case last chunk of (height, block, file_name) \<Rightarrow>
        in_db (gw_update_checkpoint (or_writer E)
          (checkpoint_at E (u32_as_i32 height) (btc_hash_to_string (or_btc E) (btc_block_hash (or_btc E) block))
             file_name None)))"

definition process_batch_chunk :: "('w, 'c) orchestrator \<Rightarrow> chunk \<Rightarrow> (utxo_key \<rightharpoonup> cached_output)
    \<Rightarrow> ('w, 'c, usize \<times> usize \<times> usize) orch" where
  "process_batch_chunk E chunk prefetched =
     and_then (phase1_blocks E chunk) (\<lambda>_.
     let (outputs, benefits) = phase2_accumulate E chunk in
     and_then (phase2_write E chunk outputs) (\<lambda>_.
     let (all_input_keys, pending_txs) = phase3_collect E chunk in
     and_then (phase3_lookup E prefetched all_input_keys) (\<lambda>all_outputs.
     let results = map (phase3_amounts E all_outputs all_input_keys) pending_txs in
     and_then (phase3_write E chunk (map fst results)) (\<lambda>_.
     and_then (in_db (gw_write_has_output_fast (or_writer E) outputs)) (\<lambda>_.
     and_then (phase4_inputs E chunk) (\<lambda>_.
     and_then (write_buckets E (concat (map snd results)) benefits) (\<lambda>_.
     and_then (phase7_cleanup E chunk) (\<lambda>_.
     and_then (chunk_checkpoint E chunk) (\<lambda>_.
     ret (length (chunk_txs chunk),
          sum_list (map (\<lambda>(_, _, tx). length (tx_output tx)) (chunk_txs chunk)),
          sum_list (map (\<lambda>(_, _, tx). length (tx_input tx)) (chunk_txs chunk))))))))))))"

section \<open>Batches\<close>

text \<open>Pre-fetching before the transaction: the cache first, then the database; what is found
  there is inserted into the cache, and the misses that stay open are taken off the
  statistics. The subtraction is \<open>usize\<close>; it panics in a debug build when the database
  returns more rows than keys were asked for.\<close>

definition resolve_prefetch :: "('w, 'c) orchestrator \<Rightarrow> (string \<rightharpoonup> output_lookup_result) \<Rightarrow> utxo_key
    \<Rightarrow> (utxo_key \<rightharpoonup> cached_output) \<times> 'c utxo_cache \<Rightarrow> (utxo_key \<rightharpoonup> cached_output) \<times> 'c utxo_cache" where
  "resolve_prefetch E rm key acc =
     (case acc of (found, c) \<Rightarrow>
        case rm (to_output_id_string (or_btc E) key) of
          Some r \<Rightarrow> (found(key \<mapsto> lookup_to_cached r), cache_insert (or_lru E) key (lookup_to_cached r) c)
        | None \<Rightarrow> (found, c))"

definition usize_sub :: "usize \<Rightarrow> usize \<Rightarrow> u64" where
  "usize_sub a b = of_nat a - of_nat b"

definition prefetch :: "('w, 'c) orchestrator \<Rightarrow> chunk \<Rightarrow> ('w, 'c, utxo_key \<rightharpoonup> cached_output) orch" where
  "prefetch E chunk st =
     (let input_keys = collect_input_keys (or_btc E) chunk in
      if input_keys = [] then (Inr Map.empty, st)
      else case cache_get_many (or_lru E) input_keys (os_cache st) of (c1, found, misses) \<Rightarrow>
        if misses = [] then (Inr found, st\<lparr>os_cache := c1\<rparr>)
        else case gw_lookup_outputs_batch (or_writer E) (map (to_output_id_string (or_btc E)) misses) (os_db st) of
          (Inl e, w) \<Rightarrow> (Inl e, st\<lparr>os_db := w, os_cache := c1\<rparr>)
        | (Inr rows, w) \<Rightarrow>
            (case fold (resolve_prefetch E (result_map rows)) misses (found, c1) of (found', c2) \<Rightarrow>
               let same_block_deferred = usize_sub (length misses) (length rows);
                   c3 = (if same_block_deferred > 0 then cache_adjust_misses same_block_deferred c2 else c2)
               in (Inr found', st\<lparr>os_db := w, os_cache := c3\<rparr>)))"

definition try_save_snapshot :: "('w, 'c) orchestrator \<Rightarrow> u32 \<Rightarrow> ('w, 'c, unit) orch" where
  "try_save_snapshot E height st =
     (case os_snapshot_path st of
        Some path \<Rightarrow> (Inr (), st\<lparr>os_disk := snd (save_to_file (or_lru E) (or_crc E) (or_io_faults E) path height (os_cache st) (os_disk st))\<rparr>)
      | None \<Rightarrow> (Inr (), st))"

definition set_cache_snapshot_path :: "string option \<Rightarrow> ('w, 'c) orch_state \<Rightarrow> ('w, 'c) orch_state" where
  "set_cache_snapshot_path path st = st\<lparr>os_snapshot_path := path\<rparr>"

record batch_stats =
  bs_transactions :: usize
  bs_outputs :: usize
  bs_inputs :: usize
  bs_chunks :: usize

text \<open>The transaction around one chunk: a failed chunk is rolled back, and the chunk's error
  is returned whether or not the rollback succeeds.\<close>

definition chunk_transaction :: "('w, 'c) orchestrator \<Rightarrow> chunk \<Rightarrow> (utxo_key \<rightharpoonup> cached_output)
    \<Rightarrow> ('w, 'c, usize \<times> usize \<times> usize) orch" where
  "chunk_transaction E chunk prefetched =
     and_then (in_db (gw_begin_transaction (or_writer E))) (\<lambda>_ st.
     case process_batch_chunk E chunk prefetched st of
       (Inr counts, st') \<Rightarrow>
         and_then (in_db (gw_commit_transaction (or_writer E))) (\<lambda>_.
         and_then (try_save_snapshot E (fst (last chunk))) (\<lambda>_. ret counts)) st'
     | (Inl e, st') \<Rightarrow> (Inl e, snd (in_db (gw_rollback_transaction (or_writer E)) st')))"

definition ingest_chunk :: "('w, 'c) orchestrator \<Rightarrow> chunk \<Rightarrow> batch_stats \<Rightarrow> ('w, 'c, batch_stats) orch" where
  "ingest_chunk E chunk stats =
     and_then (case chunk of [] \<Rightarrow> ret () | (height, block, _) # _ \<Rightarrow> validate_parent_hash E block height) (\<lambda>_.
     and_then (prefetch E chunk) (\<lambda>prefetched.
     and_then (chunk_transaction E chunk prefetched) (\<lambda>(txs, outputs, inputs).
     ret (stats\<lparr>bs_transactions := bs_transactions stats + txs, bs_outputs := bs_outputs stats + outputs,
                bs_inputs := bs_inputs stats + inputs\<rparr>))))"

fun ingest_chunks :: "('w, 'c) orchestrator \<Rightarrow> chunk list \<Rightarrow> batch_stats \<Rightarrow> ('w, 'c, batch_stats) orch" where
  "ingest_chunks E [] stats = ret stats"
| "ingest_chunks E (c # cs) stats = and_then (ingest_chunk E c stats) (ingest_chunks E cs)"

definition ingest_blocks_batch :: "('w, 'c) orchestrator \<Rightarrow> chunk \<Rightarrow> ('w, 'c, batch_stats) orch" where
  "ingest_blocks_batch E blocks =
     (let block_memories = map (\<lambda>(_, b, _). estimate_block_memory b) blocks;
          chunk_ranges = compute_adaptive_chunks block_memories (or_max_transaction_memory_bytes E)
      in ingest_chunks E (map (\<lambda>r. slice r blocks) chunk_ranges)
           \<lparr>bs_transactions = 0, bs_outputs = 0, bs_inputs = 0, bs_chunks = length chunk_ranges\<rparr>)"

end
