(* ===== verification/MockWriter.thy ===== *)
theory MockWriter
  imports GraphWriter
begin

text \<open>
  The in-memory implementation of the writer (\<open>src/src/writer/mock.rs\<close>): its storage, the
  configured failures, the transaction snapshot and every method of the trait. It is an
  instance of the transaction contract.
\<close>

section \<open>Storage\<close>

record mock_snapshot =
  sn_blocks_len :: usize
  sn_transactions_len :: usize
  sn_outputs_len :: usize
  sn_inputs_len :: usize
  sn_performs_len :: usize
  sn_benefits_to_len :: usize
  sn_checkpoint :: "checkpoint_data option"

record mock_storage =
  ms_blocks :: "block_data list"
  ms_transactions :: "transaction_data list"
  ms_outputs :: "output_data list"
  ms_inputs :: "input_data list"
  ms_performs :: "performs_data list"
  ms_benefits_to :: "benefits_to_data list"
  ms_checkpoint :: "checkpoint_data option"
  ms_schema_initialized :: bool
  ms_transaction_commit_count :: u32
  ms_in_transaction :: bool
  ms_checkpoint_written_in_txn :: bool
  ms_snapshot :: "mock_snapshot option"
  ms_lookup_outputs_responses :: "output_lookup_result list"
  ms_call_log :: "string list"
  ms_failures :: "string \<rightharpoonup> werror option"
  ms_transient_failures :: "string \<rightharpoonup> werror \<times> u32"
  ms_failure_after_n :: "string \<rightharpoonup> u32 \<times> u32 \<times> werror"

definition mock_new :: mock_storage where
  "mock_new =
     \<lparr> ms_blocks = [], ms_transactions = [], ms_outputs = [], ms_inputs = [], ms_performs = [],
       ms_benefits_to = [], ms_checkpoint = None, ms_schema_initialized = False,
       ms_transaction_commit_count = 0, ms_in_transaction = False, ms_checkpoint_written_in_txn = False,
       ms_snapshot = None, ms_lookup_outputs_responses = [], ms_call_log = [],
       ms_failures = Map.empty, ms_transient_failures = Map.empty, ms_failure_after_n = Map.empty \<rparr>"

definition mock_clear :: "mock_storage \<Rightarrow> mock_storage" where
  "mock_clear s = s\<lparr>ms_blocks := [], ms_transactions := [], ms_outputs := [], ms_inputs := [],
     ms_performs := [], ms_benefits_to := [], ms_checkpoint := None, ms_schema_initialized := False\<rparr>"

definition set_lookup_outputs_response :: "output_lookup_result list \<Rightarrow> mock_storage \<Rightarrow> mock_storage" where
  "set_lookup_outputs_response results s = s\<lparr>ms_lookup_outputs_responses := results\<rparr>"

definition set_failure_on :: "string \<Rightarrow> werror \<Rightarrow> mock_storage \<Rightarrow> mock_storage" where
  "set_failure_on method err s = s\<lparr>ms_failures := (ms_failures s)(method \<mapsto> Some err)\<rparr>"

definition set_transient_failure_on :: "string \<Rightarrow> werror \<Rightarrow> u32 \<Rightarrow> mock_storage \<Rightarrow> mock_storage" where
  "set_transient_failure_on method err n s =
     s\<lparr>ms_transient_failures := (ms_transient_failures s)(method \<mapsto> (err, n))\<rparr>"

definition set_failure_after_n_calls :: "string \<Rightarrow> u32 \<Rightarrow> werror \<Rightarrow> mock_storage \<Rightarrow> mock_storage" where
  "set_failure_after_n_calls method n err s =
     s\<lparr>ms_failure_after_n := (ms_failure_after_n s)(method \<mapsto> (n, 0, err))\<rparr>"

definition clear_failures :: "mock_storage \<Rightarrow> mock_storage" where
  "clear_failures s = s\<lparr>ms_failures := Map.empty, ms_transient_failures := Map.empty, ms_failure_after_n := Map.empty\<rparr>"

definition check_failure_after :: "string \<Rightarrow> mock_storage \<Rightarrow> werror option \<times> mock_storage" where
  "check_failure_after method s =
     (case ms_failure_after_n s method of
        Some (threshold, cnt, err) \<Rightarrow>
          let cnt' = cnt + 1;
              s' = s\<lparr>ms_failure_after_n := (ms_failure_after_n s)(method \<mapsto> (threshold, cnt', err))\<rparr>
          in (if cnt' > threshold then Some err else None, s')
      | None \<Rightarrow> (None, s))"

definition check_failure :: "string \<Rightarrow> mock_storage \<Rightarrow> werror option \<times> mock_storage" where
  "check_failure method s =
     (case ms_failures s method of
        Some (Some err) \<Rightarrow> (Some err, s)
      | _ \<Rightarrow>
        (case ms_transient_failures s method of
           Some (err, remaining) \<Rightarrow>
             if remaining > 0
             then (Some err, s\<lparr>ms_transient_failures := (ms_transient_failures s)(method \<mapsto> (err, remaining - 1))\<rparr>)
             else check_failure_after method s
         | None \<Rightarrow> check_failure_after method s))"

type_synonym 'a mock = "(mock_storage, 'a) db"

definition unless_failing :: "string \<Rightarrow> (mock_storage \<Rightarrow> mock_storage) \<Rightarrow> unit mock" where
  "unless_failing method upd s =
     (case check_failure method s of
        (Some err, s') \<Rightarrow> (Inl err, s')
      | (None, s') \<Rightarrow> (Inr (), upd s'))"

section \<open>The methods of the trait\<close>

definition mock_init_schema :: "unit mock" where
  "mock_init_schema s = (Inr (), s\<lparr>ms_schema_initialized := True\<rparr>)"

definition mock_write_blocks :: "block_data list \<Rightarrow> unit mock" where
  "mock_write_blocks bs = unless_failing ''write_blocks'' (\<lambda>s. s\<lparr>ms_blocks := ms_blocks s @ bs\<rparr>)"

definition mock_write_transactions :: "transaction_data list \<Rightarrow> unit mock" where
  "mock_write_transactions ts =
     unless_failing ''write_transactions'' (\<lambda>s. s\<lparr>ms_transactions := ms_transactions s @ ts\<rparr>)"

definition mock_write_outputs :: "output_data list \<Rightarrow> unit mock" where
  "mock_write_outputs os = unless_failing ''write_outputs'' (\<lambda>s. s\<lparr>ms_outputs := ms_outputs s @ os\<rparr>)"

definition mock_write_has_output :: "output_data list \<Rightarrow> unit mock" where
  "mock_write_has_output os s = (Inr (), s)"

text \<open>The search for the spent outputs that follows the append has no effect.\<close>

definition mock_write_inputs :: "input_data list \<Rightarrow> unit mock" where
  "mock_write_inputs is = unless_failing ''write_inputs'' (\<lambda>s. s\<lparr>ms_inputs := ms_inputs s @ is\<rparr>)"

definition mock_write_performs :: "performs_data list \<Rightarrow> unit mock" where
  "mock_write_performs ps = unless_failing ''write_performs'' (\<lambda>s. s\<lparr>ms_performs := ms_performs s @ ps\<rparr>)"

definition mock_write_benefits_to :: "benefits_to_data list \<Rightarrow> unit mock" where
  "mock_write_benefits_to bns =
     unless_failing ''write_benefits_to'' (\<lambda>s. s\<lparr>ms_benefits_to := ms_benefits_to s @ bns\<rparr>)"

definition mock_lookup_outputs_batch :: "string list \<Rightarrow> output_lookup_result list mock" where
  "mock_lookup_outputs_batch output_ids s =
     (case check_failure ''lookup_outputs_batch'' s of
        (Some err, s') \<Rightarrow> (Inl err, s')
      | (None, s') \<Rightarrow>
          (Inr (filter (\<lambda>r. olr_output_id r \<in> set output_ids) (ms_lookup_outputs_responses s')),
           s'\<lparr>ms_call_log := ms_call_log s' @ [''lookup_outputs_batch'']\<rparr>))"

definition mock_mark_output_spent :: "string \<Rightarrow> string \<Rightarrow> u32 \<Rightarrow> unit mock" where
  "mock_mark_output_spent output_id spent_in spent_at s =
     (if \<not> list_ex (\<lambda>out. od_output_id out = output_id) (ms_outputs s) then (Inl (OutputNotFound output_id), s)
      else (Inr (), s))"

definition mock_create_checkpoint :: "i64 \<Rightarrow> unit mock" where
  "mock_create_checkpoint now s =
     (Inr (), s\<lparr>ms_checkpoint := Some
        \<lparr> cp_last_processed_height = 0,
          cp_last_processed_hash = replicate 64 CHR ''0'',
          cp_last_processed_file = ''blk00000.dat'',
          cp_last_processed_file_offset = Some 0,
          cp_timestamp = now,
          cp_status = ''in_progress'' \<rparr>\<rparr>)"

definition mock_update_checkpoint :: "checkpoint_data \<Rightarrow> unit mock" where
  "mock_update_checkpoint cp =
     unless_failing ''update_checkpoint''
       (\<lambda>s. (if ms_in_transaction s then s\<lparr>ms_checkpoint_written_in_txn := True\<rparr> else s)\<lparr>ms_checkpoint := Some cp\<rparr>)"

definition mock_get_checkpoint :: "checkpoint_data option mock" where
  "mock_get_checkpoint s = (Inr (ms_checkpoint s), s)"

definition mock_mark_checkpoint_complete :: "unit mock" where
  "mock_mark_checkpoint_complete s =
     (Inr (), s\<lparr>ms_checkpoint := map_option (cp_status_update (\<lambda>_. ''completed'')) (ms_checkpoint s)\<rparr>)"

definition mock_set_checkpoint_status :: "i64 \<Rightarrow> string \<Rightarrow> unit mock" where
  "mock_set_checkpoint_status now status s =
     (Inr (), s\<lparr>ms_checkpoint := map_option (\<lambda>cp. cp\<lparr>cp_status := status, cp_timestamp := now\<rparr>) (ms_checkpoint s)\<rparr>)"

definition mock_lookup_block_hash :: "u32 \<Rightarrow> string option mock" where
  "mock_lookup_block_hash height s =
     (Inr (map_option bd_hash (List.find (\<lambda>b. bd_height b = height) (ms_blocks s))), s)"

definition mock_rollback_block :: "u32 \<Rightarrow> unit mock" where
  "mock_rollback_block height s =
     (let txids = map td_txid (filter (\<lambda>t. td_block_height t = height) (ms_transactions s))
      in (Inr (),
          s\<lparr> ms_performs := filter (\<lambda>p. pd_to_txid p \<notin> set txids) (ms_performs s),
             ms_benefits_to := filter (\<lambda>b. ben_from_txid b \<notin> set txids) (ms_benefits_to s),
             ms_inputs := filter (\<lambda>i. id_txid i \<notin> set txids) (ms_inputs s),
             ms_outputs := filter (\<lambda>out. od_txid out \<notin> set txids) (ms_outputs s),
             ms_transactions := filter (\<lambda>t. td_block_height t \<noteq> height) (ms_transactions s),
             ms_blocks := filter (\<lambda>b. bd_height b \<noteq> height) (ms_blocks s) \<rparr>))"

definition mock_get_max_block_height :: "u32 option mock" where
  "mock_get_max_block_height s =
     (Inr (case map bd_height (ms_blocks s) of [] \<Rightarrow> None | h # hs \<Rightarrow> Some (fold max hs h)), s)"

definition mock_write_blocks_fast :: "block_data list \<Rightarrow> unit mock" where
  "mock_write_blocks_fast bs =
     and_then (unless_failing ''write_blocks_fast'' id) (\<lambda>_. mock_write_blocks bs)"

definition mock_write_transactions_fast :: "transaction_data list \<Rightarrow> unit mock" where
  "mock_write_transactions_fast ts =
     and_then (unless_failing ''write_transactions_fast'' id) (\<lambda>_. mock_write_transactions ts)"

definition mock_write_outputs_fast :: "output_data list \<Rightarrow> unit mock" where
  "mock_write_outputs_fast os =
     and_then (unless_failing ''write_outputs_fast'' id) (\<lambda>_. mock_write_outputs os)"

definition mock_write_inputs_fast :: "input_data list \<Rightarrow> unit mock" where
  "mock_write_inputs_fast is =
     and_then (unless_failing ''write_inputs_fast'' id) (\<lambda>_. mock_write_inputs is)"

definition mock_begin_transaction :: "unit mock" where
  "mock_begin_transaction =
     unless_failing ''begin_transaction''
       (\<lambda>s. s\<lparr>ms_call_log := ms_call_log s @ [''begin_transaction''],
              ms_in_transaction := True,
              ms_snapshot := Some
                \<lparr> sn_blocks_len = length (ms_blocks s),
                  sn_transactions_len = length (ms_transactions s),
                  sn_outputs_len = length (ms_outputs s),
                  sn_inputs_len = length (ms_inputs s),
                  sn_performs_len = length (ms_performs s),
                  sn_benefits_to_len = length (ms_benefits_to s),
                  sn_checkpoint = ms_checkpoint s \<rparr>\<rparr>)"

definition mock_restore :: "mock_storage \<Rightarrow> mock_storage" where
  "mock_restore s =
     (case ms_snapshot s of
        Some snap \<Rightarrow>
          s\<lparr> ms_snapshot := None,
             ms_blocks := take (sn_blocks_len snap) (ms_blocks s),
             ms_transactions := take (sn_transactions_len snap) (ms_transactions s),
             ms_outputs := take (sn_outputs_len snap) (ms_outputs s),
             ms_inputs := take (sn_inputs_len snap) (ms_inputs s),
             ms_performs := take (sn_performs_len snap) (ms_performs s),
             ms_benefits_to := take (sn_benefits_to_len snap) (ms_benefits_to s),
             ms_checkpoint := sn_checkpoint snap \<rparr>
      | None \<Rightarrow> s)"

definition mock_commit_transaction :: "unit mock" where
  "mock_commit_transaction s =
     (case check_failure ''commit_transaction''
             (s\<lparr>ms_call_log := ms_call_log s @ [''commit_transaction'']\<rparr>) of
        (Some err, s') \<Rightarrow> (Inl err, (mock_restore s')\<lparr>ms_in_transaction := False\<rparr>)
      | (None, s') \<Rightarrow>
          (Inr (), s'\<lparr>ms_in_transaction := False, ms_snapshot := None,
                      ms_transaction_commit_count := ms_transaction_commit_count s' + 1\<rparr>))"

definition mock_rollback_transaction :: "unit mock" where
  "mock_rollback_transaction =
     unless_failing ''rollback_transaction'' (\<lambda>s. (mock_restore s)\<lparr>ms_in_transaction := False\<rparr>)"

definition mock_check_block_complete :: "u32 \<Rightarrow> (u32 \<times> u32) mock" where
  "mock_check_block_complete height s =
     (case List.find (\<lambda>b. bd_height b = height) (ms_blocks s) of
        None \<Rightarrow> (Inl (QueryFailed (BlockNotFound height)), s)
      | Some block \<Rightarrow>
          (Inr (bd_tx_count block,
                usize_as_u32 (length (filter (\<lambda>t. td_block_height t = height) (ms_transactions s)))), s))"

definition mock_writer :: "i64 \<Rightarrow> mock_storage graph_writer" where
  "mock_writer now =
     \<lparr> gw_init_schema = mock_init_schema,
       gw_write_blocks = mock_write_blocks,
       gw_write_transactions = mock_write_transactions,
       gw_write_outputs = mock_write_outputs,
       gw_write_has_output = mock_write_has_output,
       gw_write_inputs = mock_write_inputs,
       gw_write_performs = mock_write_performs,
       gw_write_benefits_to = mock_write_benefits_to,
       gw_mark_output_spent = mock_mark_output_spent,
       gw_create_checkpoint = mock_create_checkpoint now,
       gw_update_checkpoint = mock_update_checkpoint,
       gw_get_checkpoint = mock_get_checkpoint,
       gw_mark_checkpoint_complete = mock_mark_checkpoint_complete,
       gw_set_checkpoint_status = mock_set_checkpoint_status now,
       gw_lookup_outputs_batch = mock_lookup_outputs_batch,
       gw_lookup_block_hash = mock_lookup_block_hash,
       gw_rollback_block = mock_rollback_block,
       gw_get_max_block_height = mock_get_max_block_height,
       gw_check_block_complete = mock_check_block_complete,
       gw_write_blocks_fast = mock_write_blocks_fast,
       gw_write_transactions_fast = mock_write_transactions_fast,
       gw_write_outputs_fast = mock_write_outputs_fast,
       gw_write_has_output_fast = mock_write_has_output,
       gw_write_inputs_fast = mock_write_inputs_fast,
       gw_begin_transaction = mock_begin_transaction,
       gw_commit_transaction = mock_commit_transaction,
       gw_rollback_transaction = mock_rollback_transaction \<rparr>"

lemma mock_writer_sel [simp]:
  "gw_init_schema (mock_writer now) = mock_init_schema"
  "gw_write_blocks (mock_writer now) = mock_write_blocks"
  "gw_write_transactions (mock_writer now) = mock_write_transactions"
  "gw_write_outputs (mock_writer now) = mock_write_outputs"
  "gw_write_has_output (mock_writer now) = mock_write_has_output"
  "gw_write_inputs (mock_writer now) = mock_write_inputs"
  "gw_write_performs (mock_writer now) = mock_write_performs"
  "gw_write_benefits_to (mock_writer now) = mock_write_benefits_to"
  "gw_mark_output_spent (mock_writer now) = mock_mark_output_spent"
  "gw_create_checkpoint (mock_writer now) = mock_create_checkpoint now"
  "gw_update_checkpoint (mock_writer now) = mock_update_checkpoint"
  "gw_get_checkpoint (mock_writer now) = mock_get_checkpoint"
  "gw_mark_checkpoint_complete (mock_writer now) = mock_mark_checkpoint_complete"
  "gw_set_checkpoint_status (mock_writer now) = mock_set_checkpoint_status now"
  "gw_lookup_outputs_batch (mock_writer now) = mock_lookup_outputs_batch"
  "gw_lookup_block_hash (mock_writer now) = mock_lookup_block_hash"
  "gw_rollback_block (mock_writer now) = mock_rollback_block"
  "gw_get_max_block_height (mock_writer now) = mock_get_max_block_height"
  "gw_check_block_complete (mock_writer now) = mock_check_block_complete"
  "gw_write_blocks_fast (mock_writer now) = mock_write_blocks_fast"
  "gw_write_transactions_fast (mock_writer now) = mock_write_transactions_fast"
  "gw_write_outputs_fast (mock_writer now) = mock_write_outputs_fast"
  "gw_write_has_output_fast (mock_writer now) = mock_write_has_output"
  "gw_write_inputs_fast (mock_writer now) = mock_write_inputs_fast"
  "gw_begin_transaction (mock_writer now) = mock_begin_transaction"
  "gw_commit_transaction (mock_writer now) = mock_commit_transaction"
  "gw_rollback_transaction (mock_writer now) = mock_rollback_transaction"
  by (simp_all add: mock_writer_def)

section \<open>The transaction contract\<close>

type_synonym mock_data = "block_data list \<times> transaction_data list \<times> output_data list \<times> input_data list
  \<times> performs_data list \<times> benefits_to_data list \<times> checkpoint_data option"

definition mock_data :: "mock_storage \<Rightarrow> mock_data" where
  "mock_data s = (ms_blocks s, ms_transactions s, ms_outputs s, ms_inputs s, ms_performs s, ms_benefits_to s, ms_checkpoint s)"

definition mock_saved :: "mock_storage \<Rightarrow> mock_data option" where
  "mock_saved s = map_option (\<lambda>sn.
     (take (sn_blocks_len sn) (ms_blocks s), take (sn_transactions_len sn) (ms_transactions s),
      take (sn_outputs_len sn) (ms_outputs s), take (sn_inputs_len sn) (ms_inputs s),
      take (sn_performs_len sn) (ms_performs s), take (sn_benefits_to_len sn) (ms_benefits_to s),
      sn_checkpoint sn)) (ms_snapshot s)"

definition mock_ok :: "mock_storage \<Rightarrow> bool" where
  "mock_ok s \<longleftrightarrow> (case ms_snapshot s of None \<Rightarrow> True
     | Some sn \<Rightarrow> sn_blocks_len sn \<le> length (ms_blocks s) \<and> sn_transactions_len sn \<le> length (ms_transactions s) \<and>
         sn_outputs_len sn \<le> length (ms_outputs s) \<and> sn_inputs_len sn \<le> length (ms_inputs s) \<and>
         sn_performs_len sn \<le> length (ms_performs s) \<and> sn_benefits_to_len sn \<le> length (ms_benefits_to s))"

lemmas mock_view_defs = mock_data_def mock_saved_def mock_ok_def

lemma mock_frame [simp]:
  "mock_ok (s\<lparr>ms_call_log := l\<rparr>) = mock_ok s" "mock_data (s\<lparr>ms_call_log := l\<rparr>) = mock_data s"
  "mock_saved (s\<lparr>ms_call_log := l\<rparr>) = mock_saved s"
  by (simp_all add: mock_view_defs split: option.split)

text \<open>The failure machinery touches only its own counters.\<close>

lemma check_failure_frame:
  assumes "check_failure method s = (r, s')"
  shows "mock_data s' = mock_data s" "mock_saved s' = mock_saved s" "mock_ok s' = mock_ok s"
    "ms_snapshot s' = ms_snapshot s"
  using assms
  by (auto simp: check_failure_def check_failure_after_def mock_view_defs Let_def
      split: option.splits if_splits prod.splits)

lemma keeps_unless_failing:
  assumes "\<And>s. mock_ok s \<Longrightarrow> mock_ok (upd s) \<and> mock_saved (upd s) = mock_saved s"
  shows "keeps mock_ok mock_saved (unless_failing method upd)"
  unfolding keeps_def
proof (intro allI impI)
  fix s assume ok: "mock_ok s"
  obtain r s' where c: "check_failure method s = (r, s')" by (metis prod.collapse)
  show "mock_ok (snd (unless_failing method upd s)) \<and> mock_saved (snd (unless_failing method upd s)) = mock_saved s"
    using check_failure_frame [OF c] assms [of s'] ok
    by (cases r) (simp_all add: unless_failing_def c)
qed

lemma mock_appends:
  "keeps mock_ok mock_saved (mock_write_blocks bs)"
  "keeps mock_ok mock_saved (mock_write_transactions ts)"
  "keeps mock_ok mock_saved (mock_write_outputs os)"
  "keeps mock_ok mock_saved (mock_write_inputs is)"
  "keeps mock_ok mock_saved (mock_write_performs ps)"
  "keeps mock_ok mock_saved (mock_write_benefits_to bns)"
  "keeps mock_ok mock_saved (mock_update_checkpoint cp)"
  unfolding mock_write_blocks_def mock_write_transactions_def mock_write_outputs_def mock_write_inputs_def
    mock_write_performs_def mock_write_benefits_to_def mock_update_checkpoint_def
  by (rule keeps_unless_failing, auto simp: mock_view_defs split: option.splits)+

lemma mock_fast_guard: "keeps mock_ok mock_saved (unless_failing method id)"
  by (rule keeps_unless_failing) simp

lemma mock_fasts:
  "keeps mock_ok mock_saved (mock_write_blocks_fast bs)"
  "keeps mock_ok mock_saved (mock_write_transactions_fast ts)"
  "keeps mock_ok mock_saved (mock_write_outputs_fast os)"
  "keeps mock_ok mock_saved (mock_write_inputs_fast is)"
  unfolding mock_write_blocks_fast_def mock_write_transactions_fast_def mock_write_outputs_fast_def
    mock_write_inputs_fast_def
  by (intro keeps_and_then mock_fast_guard mock_appends)+

lemma mock_lookup_keeps: "keeps mock_ok mock_saved (mock_lookup_outputs_batch ids)"
  unfolding keeps_def
proof (intro allI impI)
  fix s assume ok: "mock_ok s"
  obtain r s' where c: "check_failure ''lookup_outputs_batch'' s = (r, s')" by (metis prod.collapse)
  show "mock_ok (snd (mock_lookup_outputs_batch ids s)) \<and> mock_saved (snd (mock_lookup_outputs_batch ids s)) = mock_saved s"
    using check_failure_frame [OF c] ok by (cases r) (simp_all add: mock_lookup_outputs_batch_def c)
qed

lemma mock_lookup_data: "mock_data (snd (mock_lookup_outputs_batch ids s)) = mock_data s"
proof -
  obtain r s' where c: "check_failure ''lookup_outputs_batch'' s = (r, s')" by (metis prod.collapse)
  show ?thesis using check_failure_frame [OF c] by (cases r) (simp_all add: mock_lookup_outputs_batch_def c)
qed

lemma mock_begin_spec:
  assumes "mock_ok s" "mock_begin_transaction s = (r, s')"
  shows "mock_ok s'" "mock_data s' = mock_data s" "r = Inr () \<Longrightarrow> mock_saved s' = Some (mock_data s)"
proof -
  obtain f s1 where c: "check_failure ''begin_transaction'' s = (f, s1)" by (metis prod.collapse)
  note frame = check_failure_frame [OF c]
  show "mock_ok s'" "mock_data s' = mock_data s" "r = Inr () \<Longrightarrow> mock_saved s' = Some (mock_data s)"
    using assms frame
    by (auto simp: mock_begin_transaction_def unless_failing_def c mock_view_defs split: option.splits)
qed

lemma mock_restore_spec:
  assumes "mock_ok s"
  shows "mock_ok ((mock_restore s)\<lparr>ms_in_transaction := b\<rparr>)"
    "mock_data ((mock_restore s)\<lparr>ms_in_transaction := b\<rparr>) = (case mock_saved s of Some d \<Rightarrow> d | None \<Rightarrow> mock_data s)"
    "mock_saved ((mock_restore s)\<lparr>ms_in_transaction := b\<rparr>) = None"
  using assms by (auto simp: mock_restore_def mock_view_defs split: option.splits)

lemma mock_commit_spec:
  assumes "mock_ok s" "mock_commit_transaction s = (r, s')"
  shows "mock_ok s'" "r = Inr () \<Longrightarrow> mock_data s' = mock_data s"
    "r = Inl e \<Longrightarrow> mock_data s' = (case mock_saved s of Some d \<Rightarrow> d | None \<Rightarrow> mock_data s) \<and> mock_saved s' = None"
proof -
  let ?s = "s\<lparr>ms_call_log := ms_call_log s @ [''commit_transaction'']\<rparr>"
  obtain f s1 where c: "check_failure ''commit_transaction'' ?s = (f, s1)" by (metis prod.collapse)
  note frame = check_failure_frame [OF c]
  have eq: "mock_ok s1 = mock_ok s" "mock_data s1 = mock_data s" "mock_saved s1 = mock_saved s"
    using frame by simp_all
  have ok1: "mock_ok s1" using eq(1) assms(1) by simp
  have "mock_ok s' \<and> (r = Inr () \<longrightarrow> mock_data s' = mock_data s) \<and>
    (r = Inl e \<longrightarrow> mock_data s' = (case mock_saved s of Some d \<Rightarrow> d | None \<Rightarrow> mock_data s) \<and> mock_saved s' = None)"
  proof (cases f)
    case None
    then have "r = Inr ()" "s' = s1\<lparr>ms_in_transaction := False, ms_snapshot := None,
        ms_transaction_commit_count := ms_transaction_commit_count s1 + 1\<rparr>"
      using assms(2) by (simp_all add: mock_commit_transaction_def c)
    then show ?thesis using eq(2) by (simp add: mock_ok_def mock_data_def)
  next
    case (Some err)
    then have "r = Inl err" "s' = (mock_restore s1)\<lparr>ms_in_transaction := False\<rparr>"
      using assms(2) by (simp_all add: mock_commit_transaction_def c)
    then show ?thesis using mock_restore_spec [OF ok1, of False] eq by (simp split: option.split)
  qed
  then show "mock_ok s'" "r = Inr () \<Longrightarrow> mock_data s' = mock_data s"
    "r = Inl e \<Longrightarrow> mock_data s' = (case mock_saved s of Some d \<Rightarrow> d | None \<Rightarrow> mock_data s) \<and> mock_saved s' = None"
    by blast+
qed

lemma mock_rollback_spec:
  assumes "mock_ok s" "mock_rollback_transaction s = (r, s')"
  shows "mock_ok s'" "r = Inr () \<Longrightarrow> mock_data s' = (case mock_saved s of Some d \<Rightarrow> d | None \<Rightarrow> mock_data s)"
proof -
  obtain f s1 where c: "check_failure ''rollback_transaction'' s = (f, s1)" by (metis prod.collapse)
  note frame = check_failure_frame [OF c]
  have ok1: "mock_ok s1" using frame assms(1) by simp
  have "mock_ok s' \<and> (r = Inr () \<longrightarrow> mock_data s' = (case mock_saved s of Some d \<Rightarrow> d | None \<Rightarrow> mock_data s))"
  proof (cases f)
    case None
    then have "s' = (mock_restore s1)\<lparr>ms_in_transaction := False\<rparr>"
      using assms(2) by (simp add: mock_rollback_transaction_def unless_failing_def c)
    then show ?thesis using mock_restore_spec [OF ok1, of False] frame by (simp split: option.split)
  next
    case (Some err)
    then have "r = Inl err" "s' = s1"
      using assms(2) by (simp_all add: mock_rollback_transaction_def unless_failing_def c)
    then show ?thesis using ok1 by simp
  qed
  then show "mock_ok s'" "r = Inr () \<Longrightarrow> mock_data s' = (case mock_saved s of Some d \<Rightarrow> d | None \<Rightarrow> mock_data s)"
    by blast+
qed

lemma keeps_skip: "keeps mock_ok mock_saved (mock_write_has_output os)"
  by (simp add: keeps_def mock_write_has_output_def)

interpretation mock: txn_writer "mock_writer now" mock_ok mock_data mock_saved
proof unfold_locales
  fix w :: mock_storage
  assume ok: "mock_ok w"
  show "mock_ok (snd (gw_begin_transaction (mock_writer now) w))"
    "mock_data (snd (gw_begin_transaction (mock_writer now) w)) = mock_data w"
    using mock_begin_spec(1,2) [OF ok] by (simp_all add: prod_eq_iff)
  show "mock_saved w' = Some (mock_data w)" if "gw_begin_transaction (mock_writer now) w = (Inr (), w')" for w'
    using mock_begin_spec(3) [OF ok] that by simp
  show "mock_ok (snd (gw_commit_transaction (mock_writer now) w))"
    using mock_commit_spec(1) [OF ok] by (simp add: prod_eq_iff)
  show "mock_data w' = mock_data w" if "gw_commit_transaction (mock_writer now) w = (Inr (), w')" for w'
    using mock_commit_spec(2) [OF ok] that by simp
  show "mock_data w' = d \<and> mock_saved w' \<in> {None, Some d}"
    if "gw_commit_transaction (mock_writer now) w = (Inl e, w')" "mock_saved w = Some d" for w' e d
    using mock_commit_spec(3) [OF ok, of "Inl e" w' e] that by simp
  show "mock_ok (snd (gw_rollback_transaction (mock_writer now) w))"
    using mock_rollback_spec(1) [OF ok] by (simp add: prod_eq_iff)
  show "mock_data w' = (case mock_saved w of Some d \<Rightarrow> d | None \<Rightarrow> mock_data w)"
    if "gw_rollback_transaction (mock_writer now) w = (Inr (), w')" for w'
    using mock_rollback_spec(2) [OF ok] that by simp
qed (simp_all add: mock_appends mock_fasts keeps_skip mock_lookup_keeps mock_lookup_data
    mock_lookup_block_hash_def)

end
