(* ===== verification/Amounts.thy ===== *)
theory Amounts
  imports Ingestion MockWriter
begin

text \<open>
  The pure computations of the ingestion against reference definitions: the aggregation per
  address, the slicing of the batched input keys, and the amounts and fees of transactions.
  The batch path and the single-block path are shown to compute the same records.
\<close>

section \<open>Aggregation\<close>

definition agg_items :: "(string \<times> u64) list \<Rightarrow> agg \<Rightarrow> agg" where
  "agg_items items m = fold (\<lambda>(a, x). agg_entry a x) items m"

definition amounts_of :: "string \<Rightarrow> (string \<times> u64) list \<Rightarrow> u64 list" where
  "amounts_of a items = map snd (filter (\<lambda>i. fst i = a) items)"

lemma agg_items_simps [simp]:
  "agg_items [] m = m" "agg_items (i # is) m = agg_items is (agg_entry (fst i) (snd i) m)"
  by (simp_all add: agg_items_def case_prod_beta)

lemma agg_entry_map: "map_of (agg_entry a x m) = (map_of m)(a \<mapsto>
    (case map_of m a of Some (n, t) \<Rightarrow> (n + 1, t + x) | None \<Rightarrow> (1, x)))"
  by (simp add: agg_entry_def AList.update_conv' split: option.split prod.split)

lemma agg_entry_distinct: "distinct (map fst m) \<Longrightarrow> distinct (map fst (agg_entry a x m))"
  by (simp add: agg_entry_def AList.distinct_update split: prod.split)

lemma agg_items_distinct: "distinct (map fst m) \<Longrightarrow> distinct (map fst (agg_items is m))"
  by (induction "is" arbitrary: m) (simp_all add: agg_entry_distinct)

lemma amounts_of_simps [simp]:
  "amounts_of a [] = []" "amounts_of a (i # is) = (if fst i = a then snd i # amounts_of a is else amounts_of a is)"
  by (simp_all add: amounts_of_def)

lemma agg_items_append: "agg_items (is @ js) m = agg_items js (agg_items is m)"
  by (simp add: agg_items_def)

lemma agg_items_map:
  "map_of (agg_items items m) a =
    (if amounts_of a items = [] then map_of m a
     else Some (case map_of m a of
        Some (n, t) \<Rightarrow> (n + of_nat (length (amounts_of a items)), t + sum_list (amounts_of a items))
      | None \<Rightarrow> (of_nat (length (amounts_of a items)), sum_list (amounts_of a items))))"
proof (induction items arbitrary: m)
  case (Cons i items)
  show ?case
  proof (cases "fst i = a")
    case True
    then show ?thesis
      by (cases "map_of m a") (auto simp: Cons agg_entry_map algebra_simps)
  next
    case False
    then have "map_of (agg_entry (fst i) (snd i) m) a = map_of m a" by (simp add: agg_entry_map)
    with False show ?thesis by (simp add: Cons split: option.split)
  qed
qed simp

lemma agg_update_sum:
  "distinct (map fst m) \<Longrightarrow>
    sum_list (map (\<lambda>e. snd (snd e)) (AList.update a (n, t) m)) =
    sum_list (map (\<lambda>e. snd (snd e)) m) + t - (case map_of m a of Some e \<Rightarrow> snd e | None \<Rightarrow> (0 :: u64))"
proof (induction m)
  case (Cons e m)
  then show ?case
    by (cases "fst e = a") (auto simp: algebra_simps split: option.split)
qed simp

lemma agg_entry_sum:
  "distinct (map fst m) \<Longrightarrow>
    sum_list (map (\<lambda>e. snd (snd e)) (agg_entry a x m)) = sum_list (map (\<lambda>e. snd (snd e)) m) + x"
  by (auto simp: agg_entry_def agg_update_sum split: option.split prod.split)

lemma agg_items_sum:
  "distinct (map fst m) \<Longrightarrow>
    sum_list (map (\<lambda>e. snd (snd e)) (agg_items is m)) = sum_list (map (\<lambda>e. snd (snd e)) m) + sum_list (map snd is)"
  by (induction "is" arbitrary: m) (simp_all add: agg_entry_sum agg_entry_distinct algebra_simps)

lemma set_distinct_map_of: "distinct (map fst m) \<Longrightarrow> (a, v) \<in> set m \<longleftrightarrow> map_of m a = Some v"
  by auto

text \<open>The records built from an aggregation: one per address, with the number and the sum of
  that address's items.\<close>

lemma agg_items_spec:
  "distinct (map fst (agg_items items [])) \<and>
   (\<forall>a n t. (a, n, t) \<in> set (agg_items items []) \<longleftrightarrow>
      amounts_of a items \<noteq> [] \<and> n = of_nat (length (amounts_of a items)) \<and> t = sum_list (amounts_of a items))"
proof -
  have d: "distinct (map fst (agg_items items []))" by (rule agg_items_distinct) simp
  have "(a, n, t) \<in> set (agg_items items []) \<longleftrightarrow> amounts_of a items \<noteq> [] \<and>
      n = of_nat (length (amounts_of a items)) \<and> t = sum_list (amounts_of a items)" for a n t
    unfolding set_distinct_map_of [OF d] agg_items_map by (cases "amounts_of a items = []") auto
  with d show ?thesis by blast
qed

section \<open>Inputs and outputs of a transaction\<close>

definition input_items :: "(utxo_key \<rightharpoonup> cached_output) \<Rightarrow> utxo_key list \<Rightarrow> (string \<times> u64) list" where
  "input_items ao keys = concat (map (\<lambda>k. case ao k of
     Some out \<Rightarrow> (case co_address out of Some a \<Rightarrow> [(a, co_amount out)] | None \<Rightarrow> []) | None \<Rightarrow> []) keys)"

definition amount_at :: "(utxo_key \<rightharpoonup> cached_output) \<Rightarrow> utxo_key \<Rightarrow> u64" where
  "amount_at ao k = (case ao k of Some out \<Rightarrow> co_amount out | None \<Rightarrow> 0)"

lemma sum_input_step:
  "sum_input ao k (s, m) = (s + amount_at ao k, agg_items (input_items ao [k]) m)"
  by (auto simp: sum_input_def amount_at_def input_items_def split: option.split)

lemma input_items_Cons: "input_items ao (k # ks) = input_items ao [k] @ input_items ao ks"
  by (simp add: input_items_def)

lemma fold_sum_input:
  "fold (sum_input ao) keys (s, m) =
    (s + sum_list (map (amount_at ao) keys), agg_items (input_items ao keys) m)"
proof (induction keys arbitrary: s m)
  case (Cons k keys)
  have "fold (sum_input ao) (k # keys) (s, m) = fold (sum_input ao) keys (s + amount_at ao k, agg_items (input_items ao [k]) m)"
    by (simp only: fold_simps sum_input_step)
  also have "\<dots> = (s + sum_list (map (amount_at ao) (k # keys)), agg_items (input_items ao (k # keys)) m)"
    unfolding Cons.IH input_items_Cons [of ao k keys] agg_items_append by (simp add: algebra_simps)
  finally show ?case .
qed (simp add: input_items_def)

definition output_items :: "('w, 'c) orchestrator \<Rightarrow> btc_tx \<Rightarrow> (string \<times> u64) list" where
  "output_items E tx = concat (map (\<lambda>out. case od_address out of
     Some a \<Rightarrow> [(a, od_amount out)] | None \<Rightarrow> []) (tx_output_data E tx))"

lemma fold_agg_output:
  "fold agg_output outs m = agg_items (concat (map (\<lambda>out. case od_address out of
     Some a \<Rightarrow> [(a, od_amount out)] | None \<Rightarrow> []) outs)) m"
  by (induction outs arbitrary: m) (simp_all add: agg_output_def split: option.split)

definition tx_keys :: "btc \<Rightarrow> btc_tx \<Rightarrow> utxo_key list" where
  "tx_keys B tx = (if btc_is_coinbase B tx then []
     else map (\<lambda>i. key_from_outpoint (ti_previous_output i)) (tx_input tx))"

text \<open>The reference: a transaction's record and its PERFORMS records, from its own keys.\<close>

definition tx_record :: "('w, 'c) orchestrator \<Rightarrow> (utxo_key \<rightharpoonup> cached_output) \<Rightarrow> u32 \<Rightarrow> btc_block \<Rightarrow> btc_tx \<Rightarrow> transaction_data" where
  "tx_record E ao h b tx =
     (let total_in = sum_list (map (amount_at ao) (tx_keys (or_btc E) tx)); total_out = sum_outputs tx in
      (from_transaction (or_btc E) tx h (btc_hash_to_string (or_btc E) (btc_block_hash (or_btc E) b))
         (uint (hd_time (bl_header b))))
        \<lparr>td_total_input := Some total_in, td_total_output := Some total_out,
         td_fee := Some (saturating_sub total_in total_out)\<rparr>)"

definition tx_performs :: "('w, 'c) orchestrator \<Rightarrow> (utxo_key \<rightharpoonup> cached_output) \<Rightarrow> btc_tx \<Rightarrow> performs_data list" where
  "tx_performs E ao tx =
     (if btc_is_coinbase (or_btc E) tx then []
      else performs_of E (txid_string (or_btc E) tx) (agg_items (input_items ao (tx_keys (or_btc E) tx)) []))"

section \<open>Slices of the batched keys\<close>

lemma slice_append: "snd r \<le> length xs \<Longrightarrow> slice r (xs @ ys) = slice r xs"
  by (auto simp: slice_def)

lemma slice_last: "slice (length xs, length (xs @ ys)) (xs @ ys) = ys"
  by (simp add: slice_def)

definition pending_view :: "utxo_key list \<Rightarrow> pending_tx \<Rightarrow> btc_tx \<times> u32 \<times> string \<times> i64 \<times> utxo_key list" where
  "pending_view ks p = (pt_tx p, pt_block_height p, pt_block_hash p, pt_timestamp p, slice (pt_key_range p) ks)"

definition ranges_ok :: "utxo_key list \<Rightarrow> pending_tx list \<Rightarrow> bool" where
  "ranges_ok ks ps \<longleftrightarrow> (\<forall>p \<in> set ps. snd (pt_key_range p) \<le> length ks)"

lemma collect_pending_fold:
  "ranges_ok ks ps \<Longrightarrow> fold (collect_pending B) xs (ks, ps) = (ks', ps') \<Longrightarrow>
    ks' = ks @ concat (map (\<lambda>(h, b, tx). tx_keys B tx) xs) \<and> ranges_ok ks' ps' \<and>
    map (pending_view ks') ps' = map (pending_view ks) ps @
      map (\<lambda>(h, b, tx). (tx, h, btc_hash_to_string B (btc_block_hash B b), uint (hd_time (bl_header b)), tx_keys B tx)) xs"
proof (induction xs arbitrary: ks ps)
  case (Cons x xs)
  obtain h b tx where x: "x = (h, b, tx)" by (cases x)
  let ?ks = "ks @ tx_keys B tx"
  let ?p = "\<lparr> pt_tx = tx, pt_block_height = h, pt_block_hash = btc_hash_to_string B (btc_block_hash B b),
     pt_timestamp = uint (hd_time (bl_header b)), pt_key_range = (length ks, length ?ks) \<rparr>"
  have step: "collect_pending B x (ks, ps) = (?ks, ps @ [?p])"
    by (simp add: x collect_pending_def tx_keys_def Let_def)
  have ok: "ranges_ok ?ks (ps @ [?p])" using Cons.prems(1) by (auto simp: ranges_ok_def)
  have mv: "map (pending_view ?ks) ps = map (pending_view ks) ps"
    using Cons.prems(1) by (auto simp: ranges_ok_def pending_view_def slice_append)
  have pv: "pending_view ?ks ?p = (tx, h, btc_hash_to_string B (btc_block_hash B b), uint (hd_time (bl_header b)), tx_keys B tx)"
    using slice_last [of ks "tx_keys B tx"] by (simp add: pending_view_def)
  have "fold (collect_pending B) xs (?ks, ps @ [?p]) = (ks', ps')" using Cons.prems(2) by (simp only: fold_simps step)
  note r = Cons.IH [OF ok this]
  show ?case
  proof (intro conjI)
    show "ks' = ks @ concat (map (\<lambda>(h, b, tx). tx_keys B tx) (x # xs))" using r by (simp add: x)
    show "ranges_ok ks' ps'" using r by blast
    have "map (pending_view ks') ps' = map (pending_view ?ks) (ps @ [?p]) @
      map (\<lambda>(h, b, tx). (tx, h, btc_hash_to_string B (btc_block_hash B b), uint (hd_time (bl_header b)), tx_keys B tx)) xs"
      using r by blast
    then show "map (pending_view ks') ps' = map (pending_view ks) ps @
      map (\<lambda>(h, b, tx). (tx, h, btc_hash_to_string B (btc_block_hash B b), uint (hd_time (bl_header b)), tx_keys B tx)) (x # xs)"
      unfolding map_append mv list.map pv x by simp
  qed
qed (simp add: ranges_ok_def)

lemma phase3_amounts_view:
  "phase3_amounts E ao ks p =
    (case pending_view ks p of (tx, h, hash, ts, keys) \<Rightarrow>
      (let total_in = (if btc_is_coinbase (or_btc E) tx then 0 else sum_list (map (amount_at ao) keys)) in
       ((from_transaction (or_btc E) tx h hash ts)\<lparr>td_total_input := Some total_in,
           td_total_output := Some (sum_outputs tx), td_fee := Some (saturating_sub total_in (sum_outputs tx))\<rparr>,
        if btc_is_coinbase (or_btc E) tx then [] else performs_of E (txid_string (or_btc E) tx) (agg_items (input_items ao keys) []))))"
  by (simp add: phase3_amounts_def pending_view_def Let_def fold_sum_input)

lemma phase3_results:
  assumes "phase3_collect E chunk = (ks, ps)"
  shows "ks = concat (map (\<lambda>(h, b, tx). tx_keys (or_btc E) tx) (chunk_txs chunk))"
    "map (phase3_amounts E ao ks) ps =
      map (\<lambda>(h, b, tx). (tx_record E ao h b tx, tx_performs E ao tx)) (chunk_txs chunk)"
proof -
  have coll: "ks = [] @ concat (map (\<lambda>(h, b, tx). tx_keys (or_btc E) tx) (chunk_txs chunk)) \<and> ranges_ok ks ps \<and>
    map (pending_view ks) ps = map (pending_view []) [] @
      map (\<lambda>(h, b, tx). (tx, h, btc_hash_to_string (or_btc E) (btc_block_hash (or_btc E) b), uint (hd_time (bl_header b)),
        tx_keys (or_btc E) tx)) (chunk_txs chunk)"
    using assms unfolding phase3_collect_def by (intro collect_pending_fold) (simp_all add: ranges_ok_def)
  then show "ks = concat (map (\<lambda>(h, b, tx). tx_keys (or_btc E) tx) (chunk_txs chunk))" by simp
  define g where "g = (\<lambda>(tx, h, hash, ts, keys).
      (let total_in = (if btc_is_coinbase (or_btc E) tx then 0 else sum_list (map (amount_at ao) keys)) in
       ((from_transaction (or_btc E) tx h hash ts)\<lparr>td_total_input := Some total_in,
           td_total_output := Some (sum_outputs tx), td_fee := Some (saturating_sub total_in (sum_outputs tx))\<rparr>,
        if btc_is_coinbase (or_btc E) tx then [] else performs_of E (txid_string (or_btc E) tx) (agg_items (input_items ao keys) []))))"
  have "map (phase3_amounts E ao ks) ps = map g (map (pending_view ks) ps)"
    by (simp add: g_def phase3_amounts_view)
  also have "\<dots> = map (\<lambda>(h, b, tx). g (tx, h, btc_hash_to_string (or_btc E) (btc_block_hash (or_btc E) b),
      uint (hd_time (bl_header b)), tx_keys (or_btc E) tx)) (chunk_txs chunk)"
    using coll [THEN conjunct2, THEN conjunct2] by (simp add: case_prod_beta o_def)
  also have "\<dots> = map (\<lambda>(h, b, tx). (tx_record E ao h b tx, tx_performs E ao tx)) (chunk_txs chunk)"
    by (auto simp: g_def tx_record_def tx_performs_def tx_keys_def Let_def)
  finally show "map (phase3_amounts E ao ks) ps =
      map (\<lambda>(h, b, tx). (tx_record E ao h b tx, tx_performs E ao tx)) (chunk_txs chunk)" .
qed

text \<open>The single-block path.\<close>

lemma collect_key_range_fold:
  "(\<forall>r \<in> set rs. snd r \<le> length ks) \<Longrightarrow> fold (collect_key_range B) txs (ks, rs) = (ks', rs') \<Longrightarrow>
    ks' = ks @ concat (map (tx_keys B) txs) \<and> (\<forall>r \<in> set rs'. snd r \<le> length ks') \<and>
    map (\<lambda>r. slice r ks') rs' = map (\<lambda>r. slice r ks) rs @ map (tx_keys B) txs \<and> length rs' = length rs + length txs"
proof (induction txs arbitrary: ks rs)
  case (Cons tx txs)
  let ?ks = "ks @ tx_keys B tx" and ?rs = "rs @ [(length ks, length (ks @ tx_keys B tx))]"
  have step: "collect_key_range B tx (ks, rs) = (?ks, ?rs)"
    by (simp add: collect_key_range_def tx_keys_def Let_def)
  have ok: "\<forall>r \<in> set ?rs. snd r \<le> length ?ks" using Cons.prems(1) by auto
  have mv: "map (\<lambda>r. slice r ?ks) rs = map (\<lambda>r. slice r ks) rs"
    using Cons.prems(1) by (auto simp: slice_append)
  have "fold (collect_key_range B) txs (?ks, ?rs) = (ks', rs')" using Cons.prems(2) by (simp only: fold_simps step)
  note r = Cons.IH [OF ok this]
  show ?case
  proof (intro conjI)
    show "ks' = ks @ concat (map (tx_keys B) (tx # txs))" "length rs' = length rs + length (tx # txs)"
      using r by simp_all
    show "\<forall>r \<in> set rs'. snd r \<le> length ks'" using r by blast
    have "map (\<lambda>r. slice r ks') rs' = map (\<lambda>r. slice r ?ks) ?rs @ map (tx_keys B) txs" using r by blast
    then show "map (\<lambda>r. slice r ks') rs' = map (\<lambda>r. slice r ks) rs @ map (tx_keys B) (tx # txs)"
      unfolding map_append mv list.map slice_last by simp
  qed
qed simp

lemma single_results:
  assumes "fold (collect_key_range (or_btc E)) (bl_txdata b) ([], []) = (ks, rs)"
  shows "ks = concat (map (tx_keys (or_btc E)) (bl_txdata b))"
    "map (tx_with_amounts E ao ks h (btc_hash_to_string (or_btc E) (btc_block_hash (or_btc E) b)) (uint (hd_time (bl_header b))))
       (zip (bl_txdata b) rs) = map (\<lambda>tx. (tx_record E ao h b tx, tx_performs E ao tx)) (bl_txdata b)"
proof -
  have coll: "ks = [] @ concat (map (tx_keys (or_btc E)) (bl_txdata b)) \<and> (\<forall>r \<in> set rs. snd r \<le> length ks) \<and>
    map (\<lambda>r. slice r ks) rs = map (\<lambda>r. slice r []) [] @ map (tx_keys (or_btc E)) (bl_txdata b) \<and>
    length rs = length ([] :: range list) + length (bl_txdata b)"
    using assms by (intro collect_key_range_fold) simp_all
  then show "ks = concat (map (tx_keys (or_btc E)) (bl_txdata b))" by simp
  have nth: "slice (rs ! i) ks = tx_keys (or_btc E) (bl_txdata b ! i)" if "i < length (bl_txdata b)" for i
  proof -
    have len: "length rs = length (bl_txdata b)" and eq: "map (\<lambda>r. slice r ks) rs = map (tx_keys (or_btc E)) (bl_txdata b)"
      using coll [THEN conjunct2] by simp_all
    from that len have "slice (rs ! i) ks = map (\<lambda>r. slice r ks) rs ! i" by simp
    also have "\<dots> = tx_keys (or_btc E) (bl_txdata b ! i)" unfolding eq using that by simp
    finally show ?thesis .
  qed
  have one: "tx_with_amounts E ao ks h hash ts (tx, r) =
      ((from_transaction (or_btc E) tx h hash ts)\<lparr>td_total_input := Some (sum_list (map (amount_at ao) (tx_keys (or_btc E) tx))),
         td_total_output := Some (sum_outputs tx),
         td_fee := Some (saturating_sub (sum_list (map (amount_at ao) (tx_keys (or_btc E) tx))) (sum_outputs tx))\<rparr>,
       tx_performs E ao tx)" if "slice r ks = tx_keys (or_btc E) tx" for hash ts tx r
    using that by (simp add: tx_with_amounts_def Let_def fold_sum_input tx_performs_def)
      (simp add: tx_keys_def saturating_sub_def word_greater_zero_iff)
  show "map (tx_with_amounts E ao ks h (btc_hash_to_string (or_btc E) (btc_block_hash (or_btc E) b)) (uint (hd_time (bl_header b))))
       (zip (bl_txdata b) rs) = map (\<lambda>tx. (tx_record E ao h b tx, tx_performs E ao tx)) (bl_txdata b)"
  proof (rule nth_equalityI)
    have len: "length rs = length (bl_txdata b)" using coll by simp
    then show "length (map (tx_with_amounts E ao ks h (btc_hash_to_string (or_btc E) (btc_block_hash (or_btc E) b)) (uint (hd_time (bl_header b))))
       (zip (bl_txdata b) rs)) = length (map (\<lambda>tx. (tx_record E ao h b tx, tx_performs E ao tx)) (bl_txdata b))" by simp
    fix i assume "i < length (map (tx_with_amounts E ao ks h (btc_hash_to_string (or_btc E) (btc_block_hash (or_btc E) b))
       (uint (hd_time (bl_header b)))) (zip (bl_txdata b) rs))"
    then have i: "i < length (bl_txdata b)" by simp
    show "map (tx_with_amounts E ao ks h (btc_hash_to_string (or_btc E) (btc_block_hash (or_btc E) b)) (uint (hd_time (bl_header b))))
       (zip (bl_txdata b) rs) ! i = map (\<lambda>tx. (tx_record E ao h b tx, tx_performs E ao tx)) (bl_txdata b) ! i"
      using i len by (simp add: one [OF nth [OF i]] tx_record_def Let_def)
  qed
qed

section \<open>Sums without overflow\<close>

lemma unat_sum_list:
  "sum_list (map unat xs) < 2 ^ 64 \<Longrightarrow> unat (sum_list (xs :: u64 list)) = sum_list (map unat xs)"
proof (induction xs)
  case (Cons x xs)
  then have "unat (sum_list xs) = sum_list (map unat xs)" by simp
  with Cons.prems have "unat x + unat (sum_list xs) < 2 ^ LENGTH(64)" by simp
  then have "unat (x + sum_list xs) = unat x + unat (sum_list xs)"
    by (simp only: unat_add_lem)
  then show ?case using Cons by simp
qed simp

section \<open>Properties\<close>

definition ex_orch :: "(mock_storage, (utxo_key, cached_output) ref_lru) orchestrator" where
  "ex_orch =
     \<lparr> or_writer = mock_writer 0, or_lru = ref_lru_ops, or_btc = ex_btc, or_network = Bitcoin,
       or_max_transaction_memory_bytes = 20000, or_now = 0, or_hash_order = (\<lambda>m. m),
       or_string_hash = (\<lambda>s. of_nat (length s)), or_schedule = [3, 0, 3], or_crc = ex_crc, or_io_faults = no_faults \<rparr>"

definition ex_spend :: "u32 \<Rightarrow> hash \<Rightarrow> btc_tx" where
  "ex_spend n txid = \<lparr>tx_version = 1, tx_lock_time = n,
     tx_input = [\<lparr>ti_previous_output = \<lparr>op_txid = txid, op_vout = 0\<rparr>, ti_script_sig = [], ti_sequence = 0, ti_witness = []\<rparr>],
     tx_output = [\<lparr>to_value = 30, to_script_pubkey = ex_p2pkh\<rparr>]\<rparr>"

text \<open>
  Batching loses no input: although Phase 3 looks up the keys of all transactions of a
  chunk in one list and hands each transaction a range of it, every transaction's record and
  its PERFORMS records are those computed from its own inputs alone, in block order.
\<close>
lemma batched_amounts_per_transaction:
  "case phase3_collect E chunk of (ks, ps) \<Rightarrow>
     ks = concat (map (\<lambda>(h, b, tx). tx_keys (or_btc E) tx) (chunk_txs chunk)) \<and>
     map (phase3_amounts E ao ks) ps =
       map (\<lambda>(h, b, tx). (tx_record E ao h b tx, tx_performs E ao tx)) (chunk_txs chunk)"
  using phase3_results [of E chunk] by (cases "phase3_collect E chunk") auto

text \<open>
  C12. The batch path and the single-block path agree: from the same resolved outputs they
  look up the same keys and compute the same transaction records and PERFORMS records for a
  block.
\<close>
theorem single_and_batch_agree:
  "case (phase3_collect E [(h, b, f)], fold (collect_key_range (or_btc E)) (bl_txdata b) ([], [])) of
     ((ks, ps), (ks', rs)) \<Rightarrow>
       ks = ks' \<and>
       map (phase3_amounts E ao ks) ps =
       map (tx_with_amounts E ao ks' h (btc_hash_to_string (or_btc E) (btc_block_hash (or_btc E) b))
              (uint (hd_time (bl_header b)))) (zip (bl_txdata b) rs)"
proof -
  obtain ks ps where c: "phase3_collect E [(h, b, f)] = (ks, ps)" by (cases "phase3_collect E [(h, b, f)]")
  obtain ks' rs where d: "fold (collect_key_range (or_btc E)) (bl_txdata b) ([], []) = (ks', rs)"
    by (cases "fold (collect_key_range (or_btc E)) (bl_txdata b) ([], [])")
  have "chunk_txs [(h, b, f)] = map (\<lambda>tx. (h, b, tx)) (bl_txdata b)" by (simp add: chunk_txs_def)
  then show ?thesis
    using phase3_results(1) [OF c] phase3_results(2) [OF c, of ao] single_results(1) [OF d] single_results(2) [OF d, of ao h] by (simp add: c d o_def)
qed


definition ex_pending :: pending_tx where
  "ex_pending = \<lparr>pt_tx = ex_spend 7 (replicate 32 2), pt_block_height = 5, pt_block_hash = ''h'', pt_timestamp = 0,
     pt_key_range = (0, 1)\<rparr>"


text \<open>
  C14. The PERFORMS records of a transaction are the exact aggregation of its inputs: one
  record per spending address, with the number of that address's inputs and the sum of their
  amounts, whatever order the hash map is iterated in; together they account for every
  resolved input that has an address.
\<close>
theorem performs_aggregation_exact:
  "(\<And>m. mset (or_hash_order E m) = mset m) \<Longrightarrow> \<not> btc_is_coinbase (or_btc E) (pt_tx p) \<Longrightarrow>
   (case snd (phase3_amounts E ao ks p) of performs \<Rightarrow>
     distinct (map pd_from_address performs) \<and>
     (\<forall>r \<in> set performs. pd_to_txid r = txid_string (or_btc E) (pt_tx p) \<and>
        (case amounts_of (pd_from_address r) (input_items ao (slice (pt_key_range p) ks)) of amounts \<Rightarrow>
           amounts \<noteq> [] \<and> pd_input_count r = of_nat (length amounts) \<and> pd_amount_spent r = sum_list amounts)) \<and>
     pd_from_address ` set performs = fst ` set (input_items ao (slice (pt_key_range p) ks)) \<and>
     sum_list (map pd_amount_spent performs) = sum_list (map snd (input_items ao (slice (pt_key_range p) ks))))"
proof -
  assume ord: "\<And>m. mset (or_hash_order E m) = mset m" and nc: "\<not> btc_is_coinbase (or_btc E) (pt_tx p)"
  define items where "items = input_items ao (slice (pt_key_range p) ks)"
  define m where "m = agg_items items []"
  have perf: "snd (phase3_amounts E ao ks p) = performs_of E (txid_string (or_btc E) (pt_tx p)) m"
    using nc by (simp add: phase3_amounts_view pending_view_def Let_def items_def m_def)
  note spec = agg_items_spec [of items, folded m_def]
  have set: "set (or_hash_order E m) = set m" using ord [of m] by (rule mset_eq_setD)
  have "distinct (map fst (or_hash_order E m))"
    using spec ord [of m] by (metis mset_eq_imp_distinct_iff mset_map)
  then have dist: "distinct (map pd_from_address (snd (phase3_amounts E ao ks p)))"
    by (simp add: perf performs_of_def o_def case_prod_beta')
  have recs: "\<forall>r \<in> set (snd (phase3_amounts E ao ks p)). pd_to_txid r = txid_string (or_btc E) (pt_tx p) \<and>
      amounts_of (pd_from_address r) items \<noteq> [] \<and> pd_input_count r = of_nat (length (amounts_of (pd_from_address r) items)) \<and>
      pd_amount_spent r = sum_list (amounts_of (pd_from_address r) items)"
    using spec by (auto simp: perf performs_of_def set)
  have doms: "fst ` set m = fst ` set items"
  proof (rule set_eqI)
    fix a
    have "a \<in> fst ` set m \<longleftrightarrow> (\<exists>n t. (a, n, t) \<in> set m)" by force
    also have "\<dots> \<longleftrightarrow> amounts_of a items \<noteq> []" using spec by blast
    also have "\<dots> \<longleftrightarrow> a \<in> fst ` set items" by (induction items) auto
    finally show "a \<in> fst ` set m \<longleftrightarrow> a \<in> fst ` set items" .
  qed
  have addrs: "pd_from_address ` set (snd (phase3_amounts E ao ks p)) = fst ` set items"
  proof -
    have "map pd_from_address (performs_of E t xs) = map fst (or_hash_order E xs)" for t xs
      by (simp add: performs_of_def o_def case_prod_beta')
    then have "pd_from_address ` set (performs_of E t m) = fst ` set m" for t
      by (metis list.set_map set)
    then show ?thesis by (simp only: perf doms)
  qed
  have "sum_list (map pd_amount_spent (snd (phase3_amounts E ao ks p))) = sum_list (map (\<lambda>e. snd (snd e)) (or_hash_order E m))"
    by (simp add: perf performs_of_def o_def case_prod_beta')
  also have "\<dots> = sum_list (map (\<lambda>e. snd (snd e)) m)"
  proof -
    have "mset (map (\<lambda>e. snd (snd e)) (or_hash_order E m)) = mset (map (\<lambda>e. snd (snd e)) m)"
      by (simp only: mset_map ord)
    then show ?thesis by (simp only: sum_mset_sum_list [symmetric])
  qed
  also have "\<dots> = sum_list (map snd items)" using agg_items_sum [of "[]" items] by (simp add: m_def)
  finally show ?thesis using dist recs addrs by (simp add: items_def [symmetric])
qed

theorem performs_aggregation_exact_witness:
  "sum_list (map pd_amount_spent (snd (phase3_amounts ex_orch [ex_key 2 \<mapsto> ex_out 50] [ex_key 2] ex_pending))) =
   sum_list (map snd (input_items [ex_key 2 \<mapsto> ex_out 50] (slice (pt_key_range ex_pending) [ex_key 2])))"
proof -
  have "\<not> btc_is_coinbase (or_btc ex_orch) (pt_tx ex_pending)"
    by (simp add: ex_orch_def ex_pending_def ex_spend_def ex_btc_def)
  moreover have "mset (or_hash_order ex_orch m) = mset m" for m by (simp add: ex_orch_def)
  ultimately show ?thesis
    using performs_aggregation_exact [of ex_orch ex_pending "[ex_key 2 \<mapsto> ex_out 50]" "[ex_key 2]"] by simp
qed

end
