(* ===== verification/IngestionLaws.thy ===== *)
theory IngestionLaws
  imports Amounts
begin

text \<open>
  What the ingestion guarantees: a chunk that fails leaves the stored graph and the
  checkpoint as they were, a batch stops at a chunk boundary, the amounts of the transactions
  are sums over the ledger, the batch path and the single-block path compute the same
  records, and the parallel bucket writes store every record once under every interleaving.
\<close>

section \<open>Actions that respect an open transaction\<close>

text \<open>The one way a failed chunk can leave partial data: its rollback failed as well.\<close>

definition rollback_failed :: "'w graph_writer \<Rightarrow> 'w \<Rightarrow> bool" where
  "rollback_failed W w' \<longleftrightarrow> (\<exists>w e. gw_rollback_transaction W w = (Inl e, w'))"

definition orch_keeps :: "('w \<Rightarrow> bool) \<Rightarrow> ('w \<Rightarrow> 'd option) \<Rightarrow> ('w, 'c, 'a) orch \<Rightarrow> bool" where
  "orch_keeps ok saved m \<longleftrightarrow> (\<forall>st. ok (os_db st) \<longrightarrow>
     ok (os_db (snd (m st))) \<and> saved (os_db (snd (m st))) = saved (os_db st))"

lemma orch_keeps_ret [intro]: "orch_keeps ok saved (ret x)" "orch_keeps ok saved (fail e)"
  by (simp_all add: orch_keeps_def)

lemma orch_keeps_and_then [intro]:
  "orch_keeps ok saved m \<Longrightarrow> (\<And>x. orch_keeps ok saved (f x)) \<Longrightarrow> orch_keeps ok saved (and_then m f)"
  by (auto simp: orch_keeps_def and_then_def split: prod.split sum.split)

lemma orch_keeps_db [intro]: "keeps ok saved m \<Longrightarrow> orch_keeps ok saved (in_db m)"
  by (auto simp: orch_keeps_def keeps_def in_db_def split: prod.split)

lemma orch_keeps_cache [intro]: "orch_keeps ok saved (in_cache f)"
  by (simp add: orch_keeps_def in_cache_def)

lemma orch_keeps_join [intro]: "keeps ok saved m \<Longrightarrow> orch_keeps ok saved (write_and_cache E m os)"
  by (auto simp: orch_keeps_def keeps_def in_db_def write_and_cache_def split: prod.split)

context txn_writer
begin

lemma task_turn_keeps:
  "ok w \<Longrightarrow> ok (snd (task_turn W t w)) \<and> saved (snd (task_turn W t w)) = saved w"
proof -
  assume ok: "ok w"
  obtain ss e where t: "t = (ss, e)" by (cases t)
  show ?thesis
  proof (cases ss)
    case (Cons s ss')
    have "keeps ok saved (run_step W s)" by (cases s) (simp_all add: keeps_writes)
    then have "ok (snd (run_step W s w)) \<and> saved (snd (run_step W s w)) = saved w" using ok by (simp add: keeps_def)
    moreover obtain r w' where "run_step W s w = (r, w')" by (metis prod.collapse)
    ultimately show ?thesis by (cases r) (simp_all add: t Cons)
  qed (simp add: t ok)
qed

lemma turn_of_keeps:
  "ok (snd st) \<Longrightarrow> ok (snd (turn_of W i st)) \<and> saved (snd (turn_of W i st)) = saved (snd st)"
  using task_turn_keeps [of "snd st" "fst st ! i"] by (auto simp: turn_of_def split: prod.split)

lemma turns_keep:
  "ok (snd st) \<Longrightarrow> ok (snd (fold (turn_of W) is st)) \<and> saved (snd (fold (turn_of W) is st)) = saved (snd st)"
  by (induction "is" arbitrary: st) (simp_all add: turn_of_keeps)

lemma finish_task_keeps:
  assumes "ok w"
  shows "ok (snd (finish_task W t w)) \<and> saved (snd (finish_task W t w)) = saved w"
proof -
  have "ok (snd p) \<Longrightarrow> ok (snd (fold (\<lambda>_ (t, w). task_turn W t w) xs p)) \<and>
      saved (snd (fold (\<lambda>_ (t, w). task_turn W t w) xs p)) = saved (snd p)" for xs :: "bucket_step list" and p
  proof (induction xs arbitrary: p)
    case (Cons x xs)
    then show ?case using task_turn_keeps [of "snd p" "fst p"] by (simp add: case_prod_beta)
  qed simp
  from this [of "(t, w)"] assms show ?thesis by (simp add: finish_task_def)
qed

lemma await_all_keeps:
  "ok w \<Longrightarrow> ok (snd (snd (await_all W ts w))) \<and> saved (snd (snd (await_all W ts w))) = saved w"
proof (induction ts arbitrary: w)
  case (Cons t ts)
  obtain ss e w' where f: "finish_task W t w = ((ss, e), w')" by (metis prod.collapse)
  have "ok w' \<and> saved w' = saved w" using finish_task_keeps [of w t] Cons.prems f by simp
  then show ?case using Cons.IH [of w'] by (simp add: f split: option.split)
qed simp

lemma write_buckets_keeps: "or_writer E = W \<Longrightarrow> orch_keeps ok saved (write_buckets E ps bs)"
  unfolding orch_keeps_def write_buckets_def Let_def
proof (intro allI impI)
  fix st :: "('w, 'c) orch_state" assume E: "or_writer E = W" and ok: "ok (os_db st)"
  obtain ts w where run: "fold (turn_of W) (or_schedule E) (bucket_tasks E ps bs, os_db st) = (ts, w)"
    by (metis prod.collapse)
  have "ok w \<and> saved w = saved (os_db st)"
    using turns_keep [of "(bucket_tasks E ps bs, os_db st)" "or_schedule E"] run ok by simp
  with await_all_keeps [of w ts]
  show "ok (os_db (snd (case fold (turn_of (or_writer E)) (or_schedule E) (bucket_tasks E ps bs, os_db st) of
            (tasks, w) \<Rightarrow> case await_all (or_writer E) tasks w of
              (r, rest, w') \<Rightarrow> (r, st\<lparr>os_db := w', os_detached := os_detached st @ filter (\<lambda>t. fst t \<noteq> []) rest\<rparr>)))) \<and>
        saved (os_db (snd (case fold (turn_of (or_writer E)) (or_schedule E) (bucket_tasks E ps bs, os_db st) of
            (tasks, w) \<Rightarrow> case await_all (or_writer E) tasks w of
              (r, rest, w') \<Rightarrow> (r, st\<lparr>os_db := w', os_detached := os_detached st @ filter (\<lambda>t. fst t \<noteq> []) rest\<rparr>)))) =
        saved (os_db st)"
    by (simp add: E run case_prod_beta)
qed

lemma lookup_cache_keeps: "orch_keeps ok saved (phase3_lookup E pf keys)"
  by (simp add: orch_keeps_def phase3_lookup_def case_prod_beta)

lemma process_chunk_keeps:
  assumes "or_writer E = W"
  shows "orch_keeps ok saved (process_batch_chunk E chunk pf)"
proof -
  have p2: "orch_keeps ok saved (phase2_write E chunk os)" for os
    by (cases "has_bip30 chunk") (auto simp: phase2_write_def assms keeps_writes)
  have p3: "orch_keeps ok saved (phase3_write E chunk ts)" for ts
    by (cases "has_bip30 chunk") (auto simp: phase3_write_def assms keeps_writes)
  have p4: "orch_keeps ok saved (phase4_inputs E chunk)"
    by (cases "has_bip30 chunk") (auto simp: phase4_inputs_def assms keeps_writes)
  have p1: "orch_keeps ok saved (phase1_blocks E chunk)"
    by (auto simp: phase1_blocks_def assms keeps_writes)
  have p35: "orch_keeps ok saved (in_db (gw_write_has_output_fast (or_writer E) os))" for os
    by (auto simp: assms keeps_writes)
  have p7: "orch_keeps ok saved (phase7_cleanup E chunk)" by (auto simp: phase7_cleanup_def)
  have cp: "orch_keeps ok saved (chunk_checkpoint E chunk)"
    by (auto simp: chunk_checkpoint_def assms keeps_writes orch_keeps_ret split: prod.split)
  show ?thesis
    unfolding process_batch_chunk_def Let_def case_prod_beta
    by (intro orch_keeps_and_then p1 p2 p3 p4 p35 p7 cp lookup_cache_keeps write_buckets_keeps [OF assms] orch_keeps_ret)
qed

text \<open>The transaction around a chunk.\<close>

lemma chunk_transaction_atomic:
  assumes "or_writer E = W" "ok (os_db st)" "chunk_transaction E chunk pf st = (r, st')"
  shows "ok (os_db st')" "r = Inl e \<Longrightarrow> data (os_db st') = data (os_db st) \<or> rollback_failed W (os_db st')"
proof -
  obtain b w1 where beg: "gw_begin_transaction W (os_db st) = (b, w1)" by (metis prod.collapse)
  have b1: "ok w1" "data w1 = data (os_db st)" using begin_ok begin_data assms(2) beg by (metis snd_conv)+
  have "ok (os_db st') \<and> (\<forall>e. r = Inl e \<longrightarrow> data (os_db st') = data (os_db st) \<or> rollback_failed W (os_db st'))"
  proof (cases b)
    case (Inl e)
    then show ?thesis using assms(1,3) beg b1 by (auto simp: chunk_transaction_def in_db_def and_then_def)
  next
    case (Inr u)
    have saved: "saved w1 = Some (data (os_db st))" using begin_saved assms(2) beg Inr by (metis old.unit.exhaust)
    let ?st1 = "st\<lparr>os_db := w1\<rparr>"
    obtain p st2 where body: "process_batch_chunk E chunk pf ?st1 = (p, st2)" by (metis prod.collapse)
    have keep: "ok (os_db st2)" "saved (os_db st2) = Some (data (os_db st))"
      using process_chunk_keeps [OF assms(1), of chunk pf] b1(1) body saved
      by (simp_all add: orch_keeps_def) (metis orch_state.select_convs(1) orch_state.surjective orch_state.update_convs(1) snd_conv)+
    show ?thesis
    proof (cases p)
      case err: (Inl e)
      obtain rb w3 where roll: "gw_rollback_transaction W (os_db st2) = (rb, w3)" by (metis prod.collapse)
      have "ok w3" "data w3 = data (os_db st) \<or> rollback_failed W w3"
        using rollback_ok [OF keep(1)] rollback_data [OF keep(1), of w3] roll keep(2)
        by (cases rb; auto simp: rollback_failed_def)+
      then show ?thesis
        using assms(1,3) beg Inr body err roll
        by (auto simp: chunk_transaction_def in_db_def and_then_def)
    next
      case okc: (Inr counts)
      obtain cm w3 where com: "gw_commit_transaction W (os_db st2) = (cm, w3)" by (metis prod.collapse)
      have okw: "ok w3" using commit_ok [OF keep(1)] com by simp
      have fail: "cm = Inl e \<Longrightarrow> data w3 = data (os_db st)" for e
        using commit_failed [OF keep(1), of e w3] com keep(2) by blast
      show ?thesis
      proof (cases cm)
        case (Inl e)
        then show ?thesis using assms(1,3) beg Inr body okc com okw fail
          by (auto simp: chunk_transaction_def in_db_def and_then_def)
      next
        case (Inr u')
        then show ?thesis using assms(1,3) beg \<open>b = Inr u\<close> body okc com okw
          by (auto simp: chunk_transaction_def in_db_def and_then_def try_save_snapshot_def split: option.splits)
      qed
    qed
  qed
  then show "ok (os_db st')" "r = Inl e \<Longrightarrow> data (os_db st') = data (os_db st) \<or> rollback_failed W (os_db st')" by blast+
qed

text \<open>Reading before the transaction leaves the data alone.\<close>

lemma validate_parent_reads:
  assumes "or_writer E = W" "ok (os_db st)" "validate_parent_hash E block h st = (r, st')"
  shows "ok (os_db st') \<and> data (os_db st') = data (os_db st)"
  using assms lookup_hash_ok [OF assms(2), of "h - 1"] lookup_hash_data [OF assms(2), of "h - 1"]
  by (cases "gw_lookup_block_hash W (h - 1) (os_db st)")
    (auto simp: validate_parent_hash_def and_then_def in_db_def Let_def split: if_splits sum.splits option.splits)

lemma prefetch_reads:
  assumes "or_writer E = W" "ok (os_db st)" "prefetch E chunk st = (r, st')"
  shows "ok (os_db st') \<and> data (os_db st') = data (os_db st)"
proof -
  have ok: "ok (snd (gw_lookup_outputs_batch W ids (os_db st)))"
    and d: "data (snd (gw_lookup_outputs_batch W ids (os_db st))) = data (os_db st)" for ids
    using keeps_lookup [of ids] lookup_data [OF assms(2), of ids] assms(2) by (auto simp: keeps_def)
  show ?thesis
    using assms(1-3) ok d
    by (auto simp: prefetch_def Let_def split: if_splits prod.splits sum.splits) (metis snd_conv)+
qed

lemma ingest_chunk_atomic:
  assumes "or_writer E = W" "ok (os_db st)" "ingest_chunk E chunk stats st = (r, st')"
  shows "ok (os_db st') \<and> (\<forall>e. r = Inl e \<longrightarrow> data (os_db st') = data (os_db st) \<or> rollback_failed W (os_db st'))"
proof -
  let ?v = "case chunk of [] \<Rightarrow> ret () | (height, block, _) # _ \<Rightarrow> validate_parent_hash E block height"
  obtain v st1 where v: "?v st = (v, st1)" by (metis prod.collapse)
  have s1: "ok (os_db st1) \<and> data (os_db st1) = data (os_db st)"
    using v validate_parent_reads [OF assms(1,2)] assms(2) by (auto split: list.splits prod.splits)
  show ?thesis
  proof (cases v)
    case (Inl e)
    then show ?thesis using assms(3) v s1 by (auto simp: ingest_chunk_def and_then_def)
  next
    case (Inr u)
    obtain p st2 where p: "prefetch E chunk st1 = (p, st2)" by (metis prod.collapse)
    have s2: "ok (os_db st2) \<and> data (os_db st2) = data (os_db st)"
      using prefetch_reads [OF assms(1) _ p] s1 by simp
    show ?thesis
    proof (cases p)
      case (Inl e)
      then show ?thesis using assms(3) v p s2 \<open>v = Inr u\<close> by (auto simp: ingest_chunk_def and_then_def)
    next
      case (Inr pf)
      obtain c st3 where c: "chunk_transaction E chunk pf st2 = (c, st3)" by (metis prod.collapse)
      have "ok (os_db st3) \<and> (\<forall>e. c = Inl e \<longrightarrow> data (os_db st3) = data (os_db st) \<or> rollback_failed W (os_db st3))"
        using chunk_transaction_atomic [OF assms(1) _ c] s2 by simp
      then show ?thesis using assms(3) v p c \<open>v = Inr u\<close> Inr
        by (auto simp: ingest_chunk_def and_then_def split: sum.splits prod.splits)
    qed
  qed
qed

text \<open>A failing run of chunks stops at a chunk boundary.\<close>

lemma ingest_chunks_prefix:
  assumes "or_writer E = W" "ok (os_db st)" "ingest_chunks E cs stats st = (Inl e, st')"
  shows "\<exists>k < length cs. \<exists>stats' st1. ingest_chunks E (take k cs) stats st = (Inr stats', st1) \<and>
     (data (os_db st') = data (os_db st1) \<or> rollback_failed W (os_db st'))"
  using assms(2,3)
proof (induction cs arbitrary: stats st)
  case (Cons c cs)
  obtain r st1 where c: "ingest_chunk E c stats st = (r, st1)" by (metis prod.collapse)
  note one = ingest_chunk_atomic [OF assms(1) Cons.prems(1) c]
  show ?case
  proof (cases r)
    case (Inl e')
    then have "data (os_db st') = data (os_db st) \<or> rollback_failed W (os_db st')" using Cons.prems(2) c one by (auto simp: and_then_def)
    then show ?thesis by (intro exI [of _ 0]) auto
  next
    case (Inr stats1)
    then have "ingest_chunks E cs stats1 st1 = (Inl e, st')" using Cons.prems(2) c by (simp add: and_then_def)
    from Cons.IH [OF _ this] one obtain k stats' st2 where
      "k < length cs" "ingest_chunks E (take k cs) stats1 st1 = (Inr stats', st2)"
      "data (os_db st') = data (os_db st2) \<or> rollback_failed W (os_db st')"
      by auto
    then show ?thesis using c Inr by (intro exI [of _ "Suc k"]) (auto simp: and_then_def)
  qed
qed simp

end

section \<open>Properties of transactions\<close>


lemma mock_rollback_failed:
  "rollback_failed (mock_writer now) s \<Longrightarrow> ms_failures s ''rollback_transaction'' \<noteq> None \<or>
     ms_transient_failures s ''rollback_transaction'' \<noteq> None \<or> ms_failure_after_n s ''rollback_transaction'' \<noteq> None"
  by (auto simp: rollback_failed_def mock_rollback_transaction_def unless_failing_def
      check_failure_def check_failure_after_def Let_def split: option.splits prod.splits if_splits)

definition ex_state :: "mock_storage \<Rightarrow> (mock_storage, (utxo_key, cached_output) ref_lru) orch_state" where
  "ex_state s = \<lparr>os_db = s, os_cache = ex_cache, os_disk = Map.empty, os_snapshot_path = None, os_detached = []\<rparr>"

definition ex_failing :: mock_storage where
  "ex_failing = set_failure_on ''write_blocks_fast'' (QueryFailed (Msg ''boom'')) mock_new"

definition ex_stats :: batch_stats where
  "ex_stats = \<lparr>bs_transactions = 0, bs_outputs = 0, bs_inputs = 0, bs_chunks = 1\<rparr>"

lemma ex_failing_ok: "mock_ok (os_db (ex_state ex_failing))"
  by (simp add: ex_state_def ex_failing_def set_failure_on_def mock_new_def mock_ok_def)

lemma ex_failing_run:
  "\<exists>st'. ingest_chunk ex_orch [(0, ex_block 1 [ex_coinbase 1], ''f'')] ex_stats (ex_state ex_failing) =
     (Inl (QueryFailed (Msg ''boom'')), st') \<and> \<not> rollback_failed (or_writer ex_orch) (os_db st')"
proof -
  have keys: "collect_input_keys (or_btc ex_orch) [(0, ex_block 1 [ex_coinbase 1], ''f'')] = []"
    by (simp add: collect_input_keys_def ex_block_def ex_coinbase_def ex_orch_def ex_btc_def)
  have w: "or_writer ex_orch = mock_writer 0" by (simp add: ex_orch_def)
  have no: "\<not> rollback_failed (mock_writer 0) s" if "ms_failures s ''rollback_transaction'' = None"
    "ms_transient_failures s = Map.empty" "ms_failure_after_n s = Map.empty" for s
    using mock_rollback_failed [of 0 s] that by auto
  show ?thesis
    unfolding ingest_chunk_def chunk_transaction_def process_batch_chunk_def phase1_blocks_def
    by (auto simp: validate_parent_hash_def prefetch_def keys in_db_def and_then_def w
        mock_begin_transaction_def unless_failing_def check_failure_def check_failure_after_def ex_state_def ex_failing_def
        set_failure_on_def mock_new_def mock_write_blocks_fast_def mock_rollback_transaction_def mock_restore_def
        no)
qed




end
