(* ===== verification/Recovery.thy ===== *)
theory Recovery
  imports IngestionLaws
begin

text \<open>
  The orchestrator's setup, resume, crash recovery and rollback operations
  (\<open>src/src/domain/ingestion.rs\<close>, the part before the ingestion phases) and the shutdown
  height tracker (\<open>src/src/domain/shutdown_height.rs\<close>). What recovery relies on of a writer
  is the locale \<open>chain_writer\<close>: the stored chain as a map from heights to a block's hash, its
  announced and its stored number of transactions. The in-memory writer is an instance.
  Casts and additions of heights wrap as in a release build.
\<close>

section \<open>Setup and resume\<close>

definition orchestrator_new :: 
  "('w, 'c) orchestrator \<Rightarrow> 'w graph_writer \<Rightarrow> network \<Rightarrow> usize \<Rightarrow> 'w \<Rightarrow> disk \<Rightarrow>
     (('w, 'c) orchestrator \<times> ('w, 'c) orch_state) option" where
  "orchestrator_new E writer network cache_size w d =
     (case cache_new (or_lru E) cache_size of
        None \<Rightarrow> None
      | Some cache \<Rightarrow>
          Some (E\<lparr>or_writer := writer, or_network := network,
                  or_max_transaction_memory_bytes := 256 * 1024 * 1024\<rparr>,
                \<lparr>os_db = w, os_cache = cache, os_disk = d, os_snapshot_path = None, os_detached = []\<rparr>))"

definition with_max_transaction_memory_mb :: "usize \<Rightarrow> ('w, 'c) orchestrator \<Rightarrow> ('w, 'c) orchestrator" where
  "with_max_transaction_memory_mb mb E =
     E\<lparr>or_max_transaction_memory_bytes := (mb * 1024 * 1024) mod 2 ^ 64\<rparr>"

definition with_max_transaction_memory_bytes :: "usize \<Rightarrow> ('w, 'c) orchestrator \<Rightarrow> ('w, 'c) orchestrator" where
  "with_max_transaction_memory_bytes bytes E = E\<lparr>or_max_transaction_memory_bytes := bytes\<rparr>"

definition init_schema :: "('w, 'c) orchestrator \<Rightarrow> ('w, 'c, unit) orch" where
  "init_schema E =
     and_then (in_db (gw_init_schema (or_writer E))) (\<lambda>_.
     and_then (in_db (gw_get_checkpoint (or_writer E))) (\<lambda>checkpoint.
     if checkpoint = None then in_db (gw_create_checkpoint (or_writer E)) else ret ()))"

definition resume_height_of :: "checkpoint_data option \<Rightarrow> u32" where
  "resume_height_of cp =
     (case cp of
        Some checkpoint \<Rightarrow>
          if cp_last_processed_height checkpoint < 0 then 0
          else i32_as_u32 (cp_last_processed_height checkpoint + 1)
      | None \<Rightarrow> 0)"

definition get_resume_height :: "('w, 'c) orchestrator \<Rightarrow> ('w, 'c, u32) orch" where
  "get_resume_height E =
     and_then (in_db (gw_get_checkpoint (or_writer E))) (\<lambda>cp. ret (resume_height_of cp))"

definition mark_complete :: "('w, 'c) orchestrator \<Rightarrow> ('w, 'c, unit) orch" where
  "mark_complete E = in_db (gw_mark_checkpoint_complete (or_writer E))"

definition get_checkpoint :: "('w, 'c) orchestrator \<Rightarrow> ('w, 'c, checkpoint_data option) orch" where
  "get_checkpoint E = in_db (gw_get_checkpoint (or_writer E))"

definition set_checkpoint_status :: "('w, 'c) orchestrator \<Rightarrow> string \<Rightarrow> ('w, 'c, unit) orch" where
  "set_checkpoint_status E status = in_db (gw_set_checkpoint_status (or_writer E) status)"

definition update_checkpoint :: "('w, 'c) orchestrator \<Rightarrow> checkpoint_data \<Rightarrow> ('w, 'c, unit) orch" where
  "update_checkpoint E checkpoint = in_db (gw_update_checkpoint (or_writer E) checkpoint)"

definition lookup_block_hash :: "('w, 'c) orchestrator \<Rightarrow> u32 \<Rightarrow> ('w, 'c, string option) orch" where
  "lookup_block_hash E height = in_db (gw_lookup_block_hash (or_writer E) height)"

section \<open>Crash recovery\<close>

text \<open>\<open>(a..=b).rev()\<close>\<close>

definition heights_down :: "u32 \<Rightarrow> u32 \<Rightarrow> u32 list" where
  "heights_down a b = rev (map word_of_nat [unat a ..< Suc (unat b)])"

text \<open>The walk from the highest block down, which stops at the first complete one and rolls the
  incomplete ones back.\<close>

fun sync_walk :: "('w, 'c) orchestrator \<Rightarrow> u32 list \<Rightarrow> i32 \<Rightarrow> ('w, 'c, i32) orch" where
  "sync_walk E [] highest_complete = ret highest_complete"
| "sync_walk E (height # hs) highest_complete =
     and_then (in_db (gw_check_block_complete (or_writer E) height)) (\<lambda>counts.
     if fst counts = snd counts \<and> snd counts > 0 then ret (u32_as_i32 height)
     else and_then (in_db (gw_rollback_block (or_writer E) height)) (\<lambda>_.
          sync_walk E hs highest_complete))"

definition checkpoint_height_of :: "checkpoint_data option \<Rightarrow> i32" where
  "checkpoint_height_of cp = (case cp of Some c \<Rightarrow> cp_last_processed_height c | None \<Rightarrow> - 1)"

definition recovered_checkpoint :: 
  "('w, 'c) orchestrator \<Rightarrow> checkpoint_data option \<Rightarrow> i32 \<Rightarrow> string option \<Rightarrow> checkpoint_data" where
  "recovered_checkpoint E checkpoint highest_complete block_hash =
     \<lparr> cp_last_processed_height = highest_complete,
       cp_last_processed_hash = (case block_hash of Some h \<Rightarrow> h | None \<Rightarrow> ''unknown''),
       cp_last_processed_file = (case checkpoint of Some c \<Rightarrow> cp_last_processed_file c | None \<Rightarrow> ''recovered''),
       cp_last_processed_file_offset = None,
       cp_timestamp = or_now E,
       cp_status = ''in_progress'' \<rparr>"

definition sync_update :: "('w, 'c) orchestrator \<Rightarrow> checkpoint_data option \<Rightarrow> i32 \<Rightarrow> i32 \<Rightarrow> ('w, 'c, unit) orch" where
  "sync_update E checkpoint checkpoint_height highest_complete =
     (if highest_complete > checkpoint_height then
        and_then (in_db (gw_lookup_block_hash (or_writer E) (i32_as_u32 highest_complete))) (\<lambda>block_hash.
        in_db (gw_update_checkpoint (or_writer E)
          (recovered_checkpoint E checkpoint highest_complete block_hash)))
      else ret ())"

definition sync_beyond :: "('w, 'c) orchestrator \<Rightarrow> checkpoint_data option \<Rightarrow> i32 \<Rightarrow> u32 \<Rightarrow> ('w, 'c, u32) orch" where
  "sync_beyond E checkpoint checkpoint_height db_height =
     and_then (sync_walk E (heights_down (i32_as_u32 checkpoint_height + 1) db_height) checkpoint_height)
       (\<lambda>highest_complete.
     and_then (sync_update E checkpoint checkpoint_height highest_complete)
       (\<lambda>_. ret (i32_as_u32 (highest_complete + 1))))"

definition sync_checkpoint_with_db :: "('w, 'c) orchestrator \<Rightarrow> ('w, 'c, u32) orch" where
  "sync_checkpoint_with_db E =
     and_then (in_db (gw_get_checkpoint (or_writer E))) (\<lambda>checkpoint.
     let checkpoint_height = checkpoint_height_of checkpoint in
     and_then (in_db (gw_get_max_block_height (or_writer E))) (\<lambda>max_db_height.
     case max_db_height of
       Some db_height \<Rightarrow>
         if u32_as_i32 db_height > checkpoint_height then sync_beyond E checkpoint checkpoint_height db_height
         else get_resume_height E
     | None \<Rightarrow> get_resume_height E))"

lemma in_db_Inr: "in_db m st = (Inr x, st') \<longleftrightarrow> (\<exists>w. m (os_db st) = (Inr x, w) \<and> st' = st\<lparr>os_db := w\<rparr>)"
  by (auto simp: in_db_def split: prod.splits)

section \<open>Rollback\<close>

definition rollback_block :: "('w, 'c) orchestrator \<Rightarrow> u32 \<Rightarrow> ('w, 'c, unit) orch" where
  "rollback_block E height = in_db (gw_rollback_block (or_writer E) height)"

fun rollback_each :: "('w, 'c) orchestrator \<Rightarrow> u32 list \<Rightarrow> ('w, 'c, unit) orch" where
  "rollback_each E [] = ret ()"
| "rollback_each E (height # hs) = and_then (rollback_block E height) (\<lambda>_. rollback_each E hs)"

definition fork_checkpoint :: "('w, 'c) orchestrator \<Rightarrow> u32 \<Rightarrow> string \<Rightarrow> checkpoint_data" where
  "fork_checkpoint E fork_point hash =
     \<lparr> cp_last_processed_height = u32_as_i32 fork_point,
       cp_last_processed_hash = hash,
       cp_last_processed_file = ''rpc'',
       cp_last_processed_file_offset = None,
       cp_timestamp = or_now E,
       cp_status = ''in_progress'' \<rparr>"

definition rollback_to_height :: "('w, 'c) orchestrator \<Rightarrow> u32 \<Rightarrow> u32 \<Rightarrow> ('w, 'c, u32) orch" where
  "rollback_to_height E current_tip fork_point =
     (if fork_point \<ge> current_tip then ret 0
      else
        let blocks_to_rollback = current_tip - fork_point in
        and_then (rollback_each E (heights_down (fork_point + 1) current_tip)) (\<lambda>_.
        and_then (in_db (gw_lookup_block_hash (or_writer E) fork_point)) (\<lambda>found.
        and_then
          (case found of
             Some hash \<Rightarrow> in_db (gw_update_checkpoint (or_writer E) (fork_checkpoint E fork_point hash))
           | None \<Rightarrow> ret ())
          (\<lambda>_. ret blocks_to_rollback))))"

section \<open>The shutdown height\<close>

record shutdown_height_tracker =
  last_committed_height :: "u32 option"

definition tracker_new :: shutdown_height_tracker where
  "tracker_new = \<lparr> last_committed_height = None \<rparr>"

definition record_batch_commit :: "u32 \<Rightarrow> shutdown_height_tracker \<Rightarrow> shutdown_height_tracker" where
  "record_batch_commit batch_end t = t\<lparr>last_committed_height := Some batch_end\<rparr>"

definition record_block_commit :: "u32 \<Rightarrow> shutdown_height_tracker \<Rightarrow> shutdown_height_tracker" where
  "record_block_commit height t = t\<lparr>last_committed_height := Some height\<rparr>"

definition save_height :: "shutdown_height_tracker \<Rightarrow> u32 option" where
  "save_height t = last_committed_height t"

section \<open>The stored chain\<close>

record stored_block =
  sb_hash :: string
  sb_expected :: u32
  sb_actual :: u32

type_synonym chain_view = "u32 \<rightharpoonup> stored_block"

definition complete_at :: "chain_view \<Rightarrow> u32 \<Rightarrow> bool" where
  "complete_at v h \<longleftrightarrow> (case v h of Some b \<Rightarrow> sb_expected b = sb_actual b \<and> sb_actual b > 0 | None \<Rightarrow> False)"

lemma unat_Suc_less: "a < b \<Longrightarrow> unat (a + 1 :: u32) = unat a + 1" for b :: u32
proof -
  assume "a < b"
  then have "1 + a \<noteq> 0" by (metis add.commute add_eq_0_iff word_order.extremum_strict)
  then show ?thesis by (simp add: unatSuc add.commute [of a])
qed

lemma restrict_UNIV [simp]: "m |` UNIV = m"
  by (simp add: restrict_map_def)

lemma unat_heights_down: "map unat (heights_down a b) = rev [unat a ..< Suc (unat b)]"
proof -
  have "unat (word_of_nat n :: u32) = n" if "n \<in> set [unat a ..< Suc (unat b)]" for n
  proof -
    have "unat b < 2 ^ 32" using unsigned_less [of b] by simp
    moreover have "n \<le> unat b" using that by auto
    ultimately have "n < 2 ^ 32" by (rule order.strict_trans1 [rotated])
    then show ?thesis by (simp add: unat_of_nat take_bit_eq_mod)
  qed
  then have "map (unat \<circ> (word_of_nat :: nat \<Rightarrow> u32)) [unat a ..< Suc (unat b)] = [unat a ..< Suc (unat b)]"
    by (intro map_idI) simp
  then show ?thesis by (simp add: heights_down_def rev_map [symmetric] del: upt_Suc)
qed

lemma set_heights_down: "set (heights_down a b) = {a .. b}"
proof -
  have "x \<in> set (heights_down a b) \<longleftrightarrow> unat x \<in> set (map unat (heights_down a b))" for x
    by (metis image_iff list.set_map word_unat_eq_iff)
  then show ?thesis by (auto simp: unat_heights_down word_le_nat_alt simp del: set_map)
qed

lemma sorted_heights_down: "sorted_wrt (>) (heights_down a b)"
proof -
  have "sorted_wrt (>) (map unat (heights_down a b))"
    by (simp add: unat_heights_down sorted_wrt_rev del: upt_Suc)
  then show ?thesis by (simp add: sorted_wrt_map word_less_nat_alt)
qed

lemma distinct_heights_down: "distinct (heights_down a b)"
proof -
  have "distinct (map unat (heights_down a b))" by (simp add: unat_heights_down del: upt_Suc)
  then show ?thesis by (simp add: distinct_map)
qed

text \<open>A walk down that stops at \<open>h\<close> has visited exactly what lies above it.\<close>

lemma heights_down_split:
  assumes "heights_down a b = gone @ h # rest"
  shows "set gone = {h <.. b}" and "a \<le> h" and "h \<le> b"
proof -
  have h: "h \<in> {a .. b}" using assms set_heights_down [of a b] by auto
  then show "a \<le> h" "h \<le> b" by simp_all
  have "sorted_wrt (>) (gone @ h # rest)" using sorted_heights_down [of a b] assms by simp
  then have order: "\<forall>x\<in>set gone. h < x" "\<forall>x\<in>set rest. x < h"
    by (auto simp: sorted_wrt_append)
  have "set gone \<union> insert h (set rest) = {a .. b}" using set_heights_down [of a b] assms by simp
  then show "set gone = {h <.. b}" using order h by (force dest: order.asym)
qed

text \<open>The height recovery ends at: the highest complete block above the checkpoint, or the
  checkpoint itself.\<close>

definition recovery_top :: "chain_view \<Rightarrow> i32 \<Rightarrow> int" where
  "recovery_top v c = Max (insert c {int (unat h) |h. complete_at v h \<and> c < int (unat h)})"

lemma restrict_all: "\<forall>x\<in>dom m. x \<in> A \<Longrightarrow> m |` A = m"
  by (rule ext) (metis domIff restrict_in restrict_out)

lemma restrict_cong: "\<forall>x\<in>dom m. x \<in> A \<longleftrightarrow> x \<in> B \<Longrightarrow> m |` A = m |` B"
  by (rule ext) (metis domIff restrict_map_def)

lemma word_le_int: "a \<le> b \<longleftrightarrow> int (unat a) \<le> int (unat b)"
  and word_less_int: "a < b \<longleftrightarrow> int (unat a) < int (unat b)"
  by (simp_all only: word_le_nat_alt word_less_nat_alt of_nat_le_iff of_nat_less_iff)

lemma complete_dom: "complete_at v h \<Longrightarrow> h \<in> dom v"
  by (auto simp: complete_at_def split: option.splits)

lemma recovery_topI:
  assumes "t = c \<or> c < t \<and> (\<exists>h. t = int (unat h) \<and> complete_at v h)"
    and "\<And>h. complete_at v h \<Longrightarrow> c < int (unat h) \<Longrightarrow> int (unat h) \<le> t"
  shows "recovery_top v c = t"
proof -
  have "finite {int (unat h) |h. complete_at v h \<and> c < int (unat h)}"
    by (rule finite_subset [of _ "(\<lambda>h. int (unat h)) ` UNIV"]) auto
  then show ?thesis using assms unfolding recovery_top_def
    by (intro Max_eqI) auto
qed


text \<open>The laws: a query changes nothing and, when it answers, answers from the stored chain; a
  rollback touches at most the block it names and, when it succeeds, removes it; the checkpoint
  is changed only by its own update.\<close>

locale chain_writer =
  fixes W :: "'w graph_writer"
    and view :: "'w \<Rightarrow> chain_view"
    and cp :: "'w \<Rightarrow> checkpoint_data option"
  assumes finite_view: "finite (dom (view w))"
    and get_cp: "gw_get_checkpoint W w = (Inr c, w') \<Longrightarrow> c = cp w"
    and get_cp_frame: "view (snd (gw_get_checkpoint W w)) = view w" "cp (snd (gw_get_checkpoint W w)) = cp w"
    and max_height: "gw_get_max_block_height W w = (Inr m, w') \<Longrightarrow>
      m = (if dom (view w) = {} then None else Some (Max (dom (view w))))"
    and max_height_frame: "view (snd (gw_get_max_block_height W w)) = view w"
      "cp (snd (gw_get_max_block_height W w)) = cp w"
    and check_complete: "gw_check_block_complete W h w = (Inr ea, w') \<Longrightarrow>
      \<exists>b. view w h = Some b \<and> ea = (sb_expected b, sb_actual b)"
    and check_frame: "view (snd (gw_check_block_complete W h w)) = view w"
      "cp (snd (gw_check_block_complete W h w)) = cp w"
    and rollback: "gw_rollback_block W h w = (Inr u, w') \<Longrightarrow> view w' = (view w)(h := None)"
    and rollback_frame: "h' \<noteq> h \<Longrightarrow> view (snd (gw_rollback_block W h w)) h' = view w h'"
      "cp (snd (gw_rollback_block W h w)) = cp w"
    and lookup_hash: "gw_lookup_block_hash W h w = (Inr s, w') \<Longrightarrow> s = map_option sb_hash (view w h)"
    and lookup_hash_frame: "view (snd (gw_lookup_block_hash W h w)) = view w"
      "cp (snd (gw_lookup_block_hash W h w)) = cp w"
    and update_cp: "gw_update_checkpoint W d w = (Inr u, w') \<Longrightarrow> cp w' = Some d"
    and update_cp_frame: "view (snd (gw_update_checkpoint W d w)) = view w"
begin

abbreviation vw :: "('w, 'c) orch_state \<Rightarrow> chain_view" where "vw st \<equiv> view (os_db st)"
abbreviation cw :: "('w, 'c) orch_state \<Rightarrow> checkpoint_data option" where "cw st \<equiv> cp (os_db st)"

lemmas frames = get_cp_frame max_height_frame check_frame rollback_frame lookup_hash_frame update_cp_frame

text \<open>Whatever happens, the walk removes only incomplete blocks among those it visits.\<close>

lemma sync_walk_safe:
  "complete_at (vw st) h \<or> h \<notin> set hs \<Longrightarrow> or_writer E = W \<Longrightarrow>
     vw (snd (sync_walk E hs c st)) h = vw st h"
proof (induction E hs c arbitrary: st rule: sync_walk.induct)
  case (2 E height hs c)
  obtain r w where check: "gw_check_block_complete W height (os_db st) = (r, w)" by fastforce
  then have view_w: "view w = vw st" using check_frame(1) [of height "os_db st"] by simp
  show ?case
  proof (cases r)
    case (Inl e)
    then show ?thesis using 2(3) check view_w by (simp add: in_db_def)
  next
    case (Inr counts)
    show ?thesis
    proof (cases "fst counts = snd counts \<and> snd counts > 0")
      case True
      then show ?thesis using 2(3) check Inr view_w by (simp add: in_db_def)
    next
      case False
      let ?st = "st\<lparr>os_db := w\<rparr>"
      obtain b where b: "vw st height = Some b" "counts = (sb_expected b, sb_actual b)"
        using check_complete check Inr by blast
      then have "\<not> complete_at (vw st) height" using False by (auto simp: complete_at_def)
      then have ne: "h \<noteq> height" using 2(2) by auto
      obtain r2 w2 where rb: "gw_rollback_block W height w = (r2, w2)" by fastforce
      have view_w2: "view w2 h = vw st h" using rollback_frame(1) [OF ne, of w] rb view_w by simp
      show ?thesis
      proof (cases r2)
        case (Inl e)
        then show ?thesis using 2(3) check \<open>r = Inr counts\<close> False rb view_w2 by (auto simp: in_db_def)
      next
        case (Inr u)
        have "complete_at (view w2) h \<or> h \<notin> set hs"
          using 2(2) view_w2 by (auto simp: complete_at_def)
        then have "vw (snd (sync_walk E hs c (st\<lparr>os_db := w2\<rparr>))) h = vw (st\<lparr>os_db := w2\<rparr>) h"
          using 2(3) by (intro 2(1)) (use check \<open>r = Inr counts\<close> False rb Inr in \<open>simp_all add: in_db_def\<close>)
        then show ?thesis using 2(3) check \<open>r = Inr counts\<close> False rb Inr view_w2 by (auto simp: in_db_def)
      qed
    qed
  qed
qed simp

text \<open>A walk that ends visits an upper segment of incomplete blocks, removes exactly it, and
  stops at a complete block or at the end.\<close>

lemma sync_walk_result:
  "sync_walk E hs c st = (Inr hc, st') \<Longrightarrow> distinct hs \<Longrightarrow> or_writer E = W \<Longrightarrow>
     \<exists>gone rest. hs = gone @ rest \<and> vw st' = vw st |` (- set gone) \<and> cw st' = cw st \<and>
       (\<forall>h\<in>set gone. \<not> complete_at (vw st) h) \<and>
       (case rest of [] \<Rightarrow> hc = c | h # _ \<Rightarrow> hc = u32_as_i32 h \<and> complete_at (vw st) h)"
proof (induction E hs c arbitrary: st rule: sync_walk.induct)
  case (1 E c)
  then show ?case by simp
next
  case (2 E height hs c)
  obtain counts w where check: "gw_check_block_complete W height (os_db st) = (Inr counts, w)"
    using 2(2,4) by (auto simp: in_db_def and_then_def split: prod.splits sum.splits)
  have fr: "view w = vw st" "cp w = cw st"
    using check_frame [of height "os_db st"] check by simp_all
  obtain b where b: "vw st height = Some b" "counts = (sb_expected b, sb_actual b)"
    using check_complete [OF check] by blast
  show ?case
  proof (cases "complete_at (vw st) height")
    case True
    then have "hc = u32_as_i32 height" "st' = st\<lparr>os_db := w\<rparr>"
      using 2(2,4) check b by (auto simp: in_db_def complete_at_def)
    then show ?thesis using True fr by - (rule exI [where x = "[]"], simp)
  next
    case False
    then have no: "(fst counts = snd counts \<and> snd counts > 0) = False"
      using b by (auto simp: complete_at_def)
    obtain u w2 where rb: "gw_rollback_block W height w = (Inr u, w2)"
      and rest: "sync_walk E hs c (st\<lparr>os_db := w2\<rparr>) = (Inr hc, st')"
      using 2(2,4) check no by (auto simp: in_db_def and_then_def split: prod.splits sum.splits)
    have v2: "vw (st\<lparr>os_db := w2\<rparr>) = (vw st)(height := None)" "cw (st\<lparr>os_db := w2\<rparr>) = cw st"
      using rollback [OF rb] rollback_frame(2) [of height w] rb fr by simp_all
    have "\<exists>gone rest. hs = gone @ rest \<and> vw st' = vw (st\<lparr>os_db := w2\<rparr>) |` (- set gone) \<and>
       cw st' = cw (st\<lparr>os_db := w2\<rparr>) \<and>
       (\<forall>h\<in>set gone. \<not> complete_at (vw (st\<lparr>os_db := w2\<rparr>)) h) \<and>
       (case rest of [] \<Rightarrow> hc = c | h # _ \<Rightarrow> hc = u32_as_i32 h \<and> complete_at (vw (st\<lparr>os_db := w2\<rparr>)) h)"
      using 2(3,4) rest by (intro 2(1)) (use check no rb in \<open>simp_all add: in_db_def\<close>)
    then obtain gone rest where IH: "hs = gone @ rest"
      "vw st' = ((vw st)(height := None)) |` (- set gone)" "cw st' = cw st"
      "\<forall>h\<in>set gone. \<not> complete_at ((vw st)(height := None)) h"
      "case rest of [] \<Rightarrow> hc = c | h # _ \<Rightarrow> hc = u32_as_i32 h \<and> complete_at ((vw st)(height := None)) h"
      unfolding v2 by blast
    have "vw st' = vw st |` (- set (height # gone))"
      unfolding IH(2) by (auto simp: restrict_map_def)
    moreover have "complete_at ((vw st)(height := None)) h = complete_at (vw st) h" if "h \<in> set hs" for h
      using that 2(3) by (auto simp: complete_at_def)
    ultimately show ?thesis using IH False
      by - (rule exI [where x = "height # gone"], rule exI [where x = rest], auto split: list.splits)
  qed
qed


lemma resume_height_eq:
  "- 1 \<le> checkpoint_height_of c \<Longrightarrow> resume_height_of c = i32_as_u32 (checkpoint_height_of c + 1)"
proof -
  assume "- 1 \<le> checkpoint_height_of c"
  then have "checkpoint_height_of c = - 1 \<or> 0 \<le> checkpoint_height_of c" by arith
  then show ?thesis
    by (auto simp: resume_height_of_def checkpoint_height_of_def i32_as_u32_def split: option.splits)
qed

lemma i32_as_u32_next:
  "- 1 \<le> c \<Longrightarrow> c < 2 ^ 31 - 1 \<Longrightarrow> int (unat (i32_as_u32 c + 1)) = c + 1"
proof -
  assume c: "- 1 \<le> c" "c < 2 ^ 31 - 1"
  have "i32_as_u32 c + 1 = word_of_int (c + 1)" by (simp add: i32_as_u32_def)
  moreover have "uint (word_of_int (c + 1) :: u32) = c + 1" 
    using c by (simp only: uint_word_of_int) (simp add: take_bit_int_eq_self)
  ultimately show ?thesis by simp
qed

lemma sync_update_result:
  assumes "sync_update E d c hc st = (Inr u, st')" and "or_writer E = W"
  shows "vw st' = vw st \<and> cw st' = (if hc > c
           then Some (recovered_checkpoint E d hc (map_option sb_hash (vw st (i32_as_u32 hc)))) else cw st)"
proof (cases "hc > c")
  case True
  then obtain s w w' where look: "gw_lookup_block_hash W (i32_as_u32 hc) (os_db st) = (Inr s, w)"
    and upd: "gw_update_checkpoint W (recovered_checkpoint E d hc s) w = (Inr u, w')"
    and st': "st' = st\<lparr>os_db := w'\<rparr>"
    using assms by (auto simp: sync_update_def in_db_Inr elim!: and_then_InrE)
  have "view w = vw st" using lookup_hash_frame(1) [of "i32_as_u32 hc" "os_db st"] look by simp
  moreover have "view w' = view w" using update_cp_frame [of "recovered_checkpoint E d hc s" w] upd by simp
  ultimately show ?thesis using True st' lookup_hash [OF look] update_cp [OF upd] by simp
qed (use assms in \<open>simp add: sync_update_def\<close>)

text \<open>The part that walks down and moves the checkpoint.\<close>

lemma sync_beyond_result:
  assumes run: "sync_beyond E (cw st) c m st = (Inr r, st')" and W: "or_writer E = W"
    and c: "- 1 \<le> c" "c < 2 ^ 31 - 1"
    and m: "vw st m \<noteq> None" "\<forall>h\<in>dom (vw st). h \<le> m \<and> unat h < 2 ^ 31"
  shows "let top = recovery_top (vw st) c in
           r = i32_as_u32 (top + 1) \<and>
           vw st' = vw st |` {h. int (unat h) \<le> top} \<and>
           (if top = c then cw st' = cw st
            else cw st' = Some (recovered_checkpoint E (cw st) top (map_option sb_hash (vw st (i32_as_u32 top)))))"
proof -
  let ?hs = "heights_down (i32_as_u32 c + 1) m"
  obtain hc st1 u where walk: "sync_walk E ?hs c st = (Inr hc, st1)"
    and upd: "sync_update E (cw st) c hc st1 = (Inr u, st')" and r: "r = i32_as_u32 (hc + 1)"
    using run unfolding sync_beyond_def by (auto elim!: and_then_InrE)
  obtain gone rest where hs: "?hs = gone @ rest" and view1: "vw st1 = vw st |` (- set gone)"
    and cp1: "cw st1 = cw st" and gone: "\<forall>h\<in>set gone. \<not> complete_at (vw st) h"
    and stop: "case rest of [] \<Rightarrow> hc = c | h # _ \<Rightarrow> hc = u32_as_i32 h \<and> complete_at (vw st) h"
    using sync_walk_result [OF walk distinct_heights_down W] by blast
  have first: "int (unat (i32_as_u32 c + 1)) = c + 1" using c by (rule i32_as_u32_next)
  have above: "i32_as_u32 c + 1 \<le> h \<longleftrightarrow> c < int (unat h)" for h
    using first unfolding word_le_nat_alt by linarith
  show ?thesis
  proof (cases rest)
    case Nil
    then have hc: "hc = c" using stop by simp
    have gone_set: "set gone = {i32_as_u32 c + 1 .. m}" using hs Nil set_heights_down [of "i32_as_u32 c + 1" m] by simp
    have "recovery_top (vw st) c = c"
    proof (rule recovery_topI)
      fix h assume h: "complete_at (vw st) h" "c < int (unat h)"
      then have "h \<in> dom (vw st)" by (simp add: complete_dom)
      then have "h \<in> set gone" using h m(2) gone_set above by simp
      then show "int (unat h) \<le> c" using gone h by blast
    qed simp
    moreover have "vw st |` (- set gone) = vw st |` {h. int (unat h) \<le> c}"
      using m(2) gone_set above by (intro restrict_cong) (auto simp: not_less)
    ultimately show ?thesis using r hc sync_update_result [OF upd W] view1 cp1 by simp
  next
    case (Cons h rest')
    then have hc: "hc = u32_as_i32 h" "complete_at (vw st) h" using stop by simp_all
    then have "h \<in> dom (vw st)" by (simp add: complete_dom)
    then have hc_h: "hc = int (unat h)" using m(2) hc(1) by (simp add: u32_as_i32_def sint_eq_unat)
    note split = heights_down_split [OF hs [unfolded Cons]]
    have "c < hc" using split(2) above hc_h by simp
    have "recovery_top (vw st) c = hc"
    proof (rule recovery_topI)
      show "hc = c \<or> c < hc \<and> (\<exists>h. hc = int (unat h) \<and> complete_at (vw st) h)"
        using \<open>c < hc\<close> hc_h hc(2) by blast
      fix h' assume h': "complete_at (vw st) h'"
      then have "h' \<in> dom (vw st)" by (rule complete_dom)
      then have "h' \<le> m" using m(2) by blast
      moreover have "h' \<notin> {h <.. m}" using h' gone split(1) by blast
      ultimately have "unat h' \<le> unat h" by (simp add: not_less word_le_nat_alt)
      then show "int (unat h') \<le> hc" using hc_h by linarith
    qed
    moreover have "vw st |` (- set gone) = vw st |` {h. int (unat h) \<le> hc}"
      using m(2) split(1) unfolding hc_h by (intro restrict_cong) (auto simp only: word_less_int
        Compl_iff greaterThanAtMost_iff mem_Collect_eq not_le not_less)
    moreover have "i32_as_u32 hc = h" using hc(1) by simp
    moreover have "vw st1 h = vw st h" using view1 split(1) by simp
    ultimately show ?thesis using r \<open>c < hc\<close> sync_update_result [OF upd W] view1 cp1 by simp
  qed
qed

lemma sync_checkpoint_result:
  assumes run: "sync_checkpoint_with_db E st = (Inr r, st')" and W: "or_writer E = W"
    and c: "- 1 \<le> checkpoint_height_of (cw st)" "checkpoint_height_of (cw st) < 2 ^ 31 - 1"
    and small: "\<forall>h\<in>dom (vw st). unat h < 2 ^ 31"
  shows "let top = recovery_top (vw st) (checkpoint_height_of (cw st)) in
           r = i32_as_u32 (top + 1) \<and>
           vw st' = vw st |` {h. int (unat h) \<le> top} \<and>
           (if top = checkpoint_height_of (cw st) then cw st' = cw st
            else cw st' = Some (recovered_checkpoint E (cw st) top
                   (map_option sb_hash (vw st (i32_as_u32 top)))))"
proof -
  let ?c = "checkpoint_height_of (cw st)"
  obtain w1 w2 mx where w1: "gw_get_checkpoint W (os_db st) = (Inr (cw st), w1)"
    and w2: "gw_get_max_block_height W w1 = (Inr mx, w2)"
    and rest: "(case mx of
       Some db_height \<Rightarrow> if u32_as_i32 db_height > ?c then sync_beyond E (cw st) ?c db_height else get_resume_height E
     | None \<Rightarrow> get_resume_height E) (st\<lparr>os_db := w2\<rparr>) = (Inr r, st')"
    using run W get_cp unfolding sync_checkpoint_with_db_def
    by (fastforce simp: in_db_Inr Let_def elim!: and_then_InrE)
  let ?st = "st\<lparr>os_db := w2\<rparr>"
  have fr: "vw ?st = vw st" "cw ?st = cw st"
    using get_cp_frame [of "os_db st"] max_height_frame [of w1] w1 w2 by simp_all
  have mx: "mx = (if dom (vw st) = {} then None else Some (Max (dom (vw st))))"
    using max_height [OF w2] get_cp_frame(1) [of "os_db st"] w1 by simp
  have normal: ?thesis if low: "\<forall>h\<in>dom (vw st). int (unat h) \<le> ?c" and resume: "get_resume_height E ?st = (Inr r, st')"
  proof -
    obtain w3 where w3: "gw_get_checkpoint W w2 = (Inr (cw st), w3)" and st': "st' = st\<lparr>os_db := w3\<rparr>"
      and r: "r = resume_height_of (cw st)"
      using resume W get_cp fr(2) by (fastforce simp: get_resume_height_def in_db_Inr elim!: and_then_InrE)
    have "recovery_top (vw st) ?c = ?c"
      by (rule recovery_topI) (use low complete_dom in blast)+
    moreover have "vw st |` {h. int (unat h) \<le> ?c} = vw st"
      using low by (intro restrict_all) simp
    ultimately show ?thesis
      using get_cp_frame [of w2] w3 fr st' r resume_height_eq [OF c(1)] by simp
  qed
  show ?thesis
  proof (cases "dom (vw st) = {}")
    case True
    then show ?thesis using normal rest mx by simp
  next
    case False
    let ?m = "Max (dom (vw st))"
    have in_dom: "?m \<in> dom (vw st)" using False finite_view by (rule Max_in [rotated])
    have le: "h \<le> ?m" if "h \<in> dom (vw st)" for h using finite_view that by (rule Max_ge)
    have m: "u32_as_i32 ?m = int (unat ?m)"
      using small in_dom by (simp add: u32_as_i32_def sint_eq_unat)
    show ?thesis
    proof (cases "u32_as_i32 ?m > ?c")
      case True
      then have "sync_beyond E (cw ?st) ?c ?m ?st = (Inr r, st')" using rest mx False fr by simp
      moreover have "vw ?st ?m \<noteq> None" "\<forall>h\<in>dom (vw ?st). h \<le> ?m \<and> unat h < 2 ^ 31"
        using in_dom le small fr by (auto simp del: Max_ge_iff)
      ultimately show ?thesis using sync_beyond_result [of E ?st ?c ?m r st'] W c 
        unfolding fr by blast
    next
      case False
      have "\<forall>h\<in>dom (vw st). int (unat h) \<le> ?c"
        using le False unfolding m word_le_int by fastforce
      then show ?thesis using normal rest mx \<open>dom (vw st) \<noteq> {}\<close> False by simp
    qed
  qed
qed

text \<open>Actions that keep the stored block at \<open>h\<close> if it is complete or not above \<open>c\<close>.\<close>

definition keeps_block :: "i32 \<Rightarrow> u32 \<Rightarrow> ('w, 'c, 'a) orch \<Rightarrow> bool" where
  "keeps_block c h m \<longleftrightarrow>
     (\<forall>st. complete_at (vw st) h \<or> int (unat h) \<le> c \<longrightarrow> vw (snd (m st)) h = vw st h)"

lemma keeps_block_ret: "keeps_block c h (ret x)"
  by (simp add: keeps_block_def)

lemma keeps_blockD:
  "keeps_block c h m \<Longrightarrow> complete_at (vw st) h \<or> int (unat h) \<le> c \<Longrightarrow> vw (snd (m st)) h = vw st h"
  unfolding keeps_block_def by blast

lemma keeps_block_and_then:
  fixes m :: "('w, 'c, 'a) orch" and f :: "'a \<Rightarrow> ('w, 'c, 'b) orch"
  assumes "keeps_block c h m" and "\<And>x. keeps_block c h (f x)"
  shows "keeps_block c h (and_then m f)"
  unfolding keeps_block_def
proof (intro allI impI)
  fix st :: "('w, 'c) orch_state"
  assume st: "complete_at (vw st) h \<or> int (unat h) \<le> c"
  obtain r st1 where m: "m st = (r, st1)" by fastforce
  have same: "vw st1 h = vw st h" using keeps_blockD [OF assms(1) st] m by simp
  then have "complete_at (vw st1) h \<or> int (unat h) \<le> c" using st by (simp add: complete_at_def)
  then have "vw (snd (f x st1)) h = vw st1 h" for x by (rule keeps_blockD [OF assms(2)])
  then show "vw (snd (and_then m f st)) h = vw st h" using m same by (cases r) simp_all
qed

lemma os_db_in_db: "os_db (snd (in_db m st)) = snd (m (os_db st))"
  by (simp add: in_db_def split: prod.split)

lemma keeps_block_in_db: "(\<And>w. view (snd (m w)) = view w) \<Longrightarrow> keeps_block c h (in_db m)"
  by (simp add: keeps_block_def os_db_in_db)

lemmas keeps_block_intros = keeps_block_ret keeps_block_and_then keeps_block_in_db get_cp_frame(1)
  max_height_frame(1) lookup_hash_frame(1) update_cp_frame

lemma sync_checkpoint_safe:
  assumes W: "or_writer E = W"
    and h: "complete_at (vw st) h \<or> int (unat h) \<le> checkpoint_height_of (cw st)"
    and c: "- 1 \<le> checkpoint_height_of (cw st)" "checkpoint_height_of (cw st) < 2 ^ 31 - 1"
  shows "vw (snd (sync_checkpoint_with_db E st)) h = vw st h"
proof -
  let ?c = "checkpoint_height_of (cw st)"
  obtain r w where w: "gw_get_checkpoint W (os_db st) = (r, w)" by fastforce
  have view_w: "view w = vw st" using get_cp_frame(1) [of "os_db st"] w by simp
  have walk: "keeps_block ?c h (sync_walk E (heights_down (i32_as_u32 ?c + 1) m) ?c)" for m
  proof -
    have "h \<notin> set (heights_down (i32_as_u32 ?c + 1) m)" if "int (unat h) \<le> ?c"
      using that i32_as_u32_next [OF c] by (auto simp: set_heights_down word_le_int)
    then show ?thesis unfolding keeps_block_def using sync_walk_safe W by blast
  qed
  have beyond: "keeps_block ?c h (sync_beyond E d ?c m)" for d m
    unfolding sync_beyond_def sync_update_def W
    by (intro keeps_block_intros walk; simp add: keeps_block_intros)
  have resume: "keeps_block ?c h (get_resume_height E)"
    unfolding get_resume_height_def W by (intro keeps_block_intros)
  show ?thesis
  proof (cases r)
    case (Inl e)
    then show ?thesis using w view_w by (simp add: sync_checkpoint_with_db_def W in_db_def)
  next
    case (Inr d)
    then have d: "r = Inr (cw st)" using get_cp w by blast
    let ?m = "and_then (in_db (gw_get_max_block_height W)) (\<lambda>max_db_height.
       case max_db_height of
         Some db_height \<Rightarrow>
           if u32_as_i32 db_height > ?c then sync_beyond E (cw st) ?c db_height else get_resume_height E
       | None \<Rightarrow> get_resume_height E)"
    have "keeps_block ?c h ?m"
      by (intro keeps_block_and_then keeps_block_in_db max_height_frame(1))
        (simp add: beyond resume split: option.split)
    then have "vw (snd (?m (st\<lparr>os_db := w\<rparr>))) h = vw (st\<lparr>os_db := w\<rparr>) h"
      by (rule keeps_blockD) (use h view_w in simp)
    moreover have "snd (sync_checkpoint_with_db E st) = snd (?m (st\<lparr>os_db := w\<rparr>))"
      using w d by (simp add: sync_checkpoint_with_db_def W in_db_def [of "gw_get_checkpoint W"] Let_def)
    moreover have "vw (st\<lparr>os_db := w\<rparr>) h = vw st h" using view_w by simp
    ultimately show ?thesis by (simp only:)
  qed
qed

lemma rollback_each_result:
  "rollback_each E hs st = (Inr u, st') \<Longrightarrow> or_writer E = W \<Longrightarrow>
     vw st' = vw st |` (- set hs) \<and> cw st' = cw st"
proof (induction E hs arbitrary: st rule: rollback_each.induct)
  case (2 E height hs)
  obtain x w where rb: "gw_rollback_block W height (os_db st) = (Inr x, w)"
    and rest: "rollback_each E hs (st\<lparr>os_db := w\<rparr>) = (Inr u, st')"
    using 2(2,3) by (auto simp: rollback_block_def in_db_Inr elim!: and_then_InrE)
  have "vw st' = vw (st\<lparr>os_db := w\<rparr>) |` (- set hs) \<and> cw st' = cw (st\<lparr>os_db := w\<rparr>)"
    using rest 2(3) by (intro 2(1)) (use rb in \<open>simp_all add: rollback_block_def in_db_Inr\<close>)
  moreover have "view w = (vw st)(height := None)" "cp w = cw st"
    using rollback [OF rb] rollback_frame(2) [of height "os_db st"] rb by simp_all
  ultimately show ?case by (auto simp: restrict_map_def fun_eq_iff)
qed simp

lemma rollback_to_height_result:
  assumes run: "rollback_to_height E tip fork st = (Inr n, st')" and W: "or_writer E = W" and "fork < tip"
  shows "n = tip - fork \<and> vw st' = vw st |` (- {fork <.. tip}) \<and>
         cw st' = (case vw st fork of
           None \<Rightarrow> cw st
         | Some b \<Rightarrow> Some (fork_checkpoint E fork (sb_hash b)))"
proof -
  have "and_then (rollback_each E (heights_down (fork + 1) tip)) (\<lambda>_.
        and_then (in_db (gw_lookup_block_hash W fork)) (\<lambda>found.
        and_then
          (case found of Some hash \<Rightarrow> in_db (gw_update_checkpoint W (fork_checkpoint E fork hash)) | None \<Rightarrow> ret ())
          (\<lambda>_. ret (tip - fork)))) st = (Inr n, st')"
    using run \<open>fork < tip\<close> by (simp only: rollback_to_height_def W Let_def not_le [symmetric] if_False)
  then obtain u st1 s w v st2 where rb: "rollback_each E (heights_down (fork + 1) tip) st = (Inr u, st1)"
    and look: "gw_lookup_block_hash W fork (os_db st1) = (Inr s, w)" 
    and upd: "(case s of Some hash \<Rightarrow> in_db (gw_update_checkpoint W (fork_checkpoint E fork hash)) | None \<Rightarrow> ret ())
       (st1\<lparr>os_db := w\<rparr>) = (Inr v, st2)" 
    and "ret (tip - fork) st2 = (Inr n, st')"
    by (elim and_then_InrE) (auto simp: in_db_Inr)
  then have n: "n = tip - fork" and "st2 = st'" by simp_all
  have "unat (fork + 1) = unat fork + 1" using \<open>fork < tip\<close> unat_Suc_less [of fork tip] by simp
  then have "set (heights_down (fork + 1) tip) = {fork <.. tip}"
    by (auto simp: set_heights_down word_le_nat_alt word_less_nat_alt)
  then have st1: "vw st1 = vw st |` (- {fork <.. tip})" "cw st1 = cw st"
    using rollback_each_result [OF rb W] by simp_all
  have w: "view w = vw st1" "cp w = cw st1" using lookup_hash_frame [of fork "os_db st1"] look by simp_all
  have s: "s = map_option sb_hash (vw st fork)" using lookup_hash [OF look] st1(1) by simp
  show ?thesis
  proof (cases "vw st fork")
    case None
    then show ?thesis using n upd s st1 w \<open>st2 = st'\<close> by auto
  next
    case (Some b)
    then obtain w' where "gw_update_checkpoint W (fork_checkpoint E fork (sb_hash b)) w = (Inr v, w')"
      and "st' = st1\<lparr>os_db := w'\<rparr>"
      using upd s \<open>st2 = st'\<close> by (auto simp: in_db_Inr)
    then show ?thesis
      using n Some st1 w update_cp update_cp_frame [of "fork_checkpoint E fork (sb_hash b)" w] by simp
  qed
qed

end

section \<open>The in-memory writer\<close>

definition mock_view :: "mock_storage \<Rightarrow> chain_view" where
  "mock_view s h = map_option (\<lambda>b. \<lparr> sb_hash = bd_hash b, sb_expected = bd_tx_count b,
      sb_actual = usize_as_u32 (length (filter (\<lambda>t. td_block_height t = h) (ms_transactions s))) \<rparr>)
     (List.find (\<lambda>b. bd_height b = h) (ms_blocks s))"

lemma mock_view_cong: "mock_data s = mock_data s' \<Longrightarrow> mock_view s = mock_view s'"
  by (simp add: mock_data_def mock_view_def fun_eq_iff)

lemma dom_mock_view: "dom (mock_view s) = bd_height ` set (ms_blocks s)"
proof (intro equalityI subsetI)
  fix h assume "h \<in> dom (mock_view s)"
  then obtain b where "List.find (\<lambda>b. bd_height b = h) (ms_blocks s) = Some b" by (auto simp: mock_view_def)
  then show "h \<in> bd_height ` set (ms_blocks s)" by (auto simp: find_Some_iff)
next
  fix h assume "h \<in> bd_height ` set (ms_blocks s)"
  then have "List.find (\<lambda>b. bd_height b = h) (ms_blocks s) \<noteq> None" by (auto simp: find_None_iff)
  then show "h \<in> dom (mock_view s)" by (auto simp: mock_view_def)
qed

lemma mock_max_height:
  "gw_get_max_block_height (mock_writer now) s = (Inr m, s') \<Longrightarrow>
     m = (if dom (mock_view s) = {} then None else Some (Max (dom (mock_view s))))"
proof -
  assume run: "gw_get_max_block_height (mock_writer now) s = (Inr m, s')"
  show ?thesis
  proof (cases "ms_blocks s")
    case Nil
    then show ?thesis using run by (simp add: mock_get_max_block_height_def dom_mock_view)
  next
    case (Cons b bs)
    have "Max (set (map bd_height (b # bs))) = fold max (map bd_height bs) (bd_height b)"
      by (simp only: list.map Max.set_eq_fold)
    then show ?thesis using run Cons by (simp add: mock_get_max_block_height_def dom_mock_view)
  qed
qed

lemma find_filter_ne: "h' \<noteq> h \<Longrightarrow> List.find (\<lambda>b. f b = h') (filter (\<lambda>b. f b \<noteq> h) xs) = List.find (\<lambda>b. f b = h') xs"
  by (induction xs) auto

lemma mock_view_rollback: "mock_view (snd (mock_rollback_block h s)) = (mock_view s)(h := None)"
proof
  fix h'
  show "mock_view (snd (mock_rollback_block h s)) h' = ((mock_view s)(h := None)) h'"
  proof (cases "h' = h")
    case True
    then show ?thesis by (auto simp: mock_rollback_block_def mock_view_def Let_def find_None_iff)
  next
    case False
    have "filter (\<lambda>t. td_block_height t = h') (filter (\<lambda>t. td_block_height t \<noteq> h) (ms_transactions s)) =
            filter (\<lambda>t. td_block_height t = h') (ms_transactions s)"
      using False by (auto simp: filter_filter intro!: filter_cong)
    then show ?thesis using False
      by (simp add: mock_rollback_block_def mock_view_def Let_def find_filter_ne)
  qed
qed

lemma mock_update_cp_spec:
  assumes "mock_update_checkpoint d s = (r, s')"
  shows "mock_view s' = mock_view s" and "r = Inr u \<Longrightarrow> ms_checkpoint s' = Some d"
proof -
  obtain f s1 where c: "check_failure ''update_checkpoint'' s = (f, s1)" by fastforce
  have "mock_view s1 = mock_view s" using check_failure_frame(1) [OF c] by (rule mock_view_cong)
  then show "mock_view s' = mock_view s" "r = Inr u \<Longrightarrow> ms_checkpoint s' = Some d"
    using assms c by (auto simp: mock_update_checkpoint_def unless_failing_def mock_view_def fun_eq_iff
        split: option.splits)
qed

interpretation mock_chain: chain_writer "mock_writer now" mock_view ms_checkpoint
proof unfold_locales
  fix w
  show "finite (dom (mock_view w))" by (simp add: dom_mock_view)
  show "m = (if dom (mock_view w) = {} then None else Some (Max (dom (mock_view w))))"
    if "gw_get_max_block_height (mock_writer now) w = (Inr m, w')" for m w'
    using that by (rule mock_max_height)
  show "\<exists>b. mock_view w h = Some b \<and> ea = (sb_expected b, sb_actual b)"
    if "gw_check_block_complete (mock_writer now) h w = (Inr ea, w')" for h ea w'
    using that by (auto simp: mock_check_block_complete_def mock_view_def split: option.splits)
  show "mock_view w' = (mock_view w)(h := None)"
    if "gw_rollback_block (mock_writer now) h w = (Inr u, w')" for h u w'
    using that mock_view_rollback [of h w] by simp
  show "mock_view (snd (gw_rollback_block (mock_writer now) h w)) h' = mock_view w h'" if "h' \<noteq> h" for h h'
    using that by (simp add: mock_view_rollback)
  show "ms_checkpoint w' = Some d" if "gw_update_checkpoint (mock_writer now) d w = (Inr u, w')" for d u w'
    using that mock_update_cp_spec(2) by simp
  show "mock_view (snd (gw_update_checkpoint (mock_writer now) d w)) = mock_view w" for d
    using mock_update_cp_spec(1) by (metis mock_writer_sel(11) prod.collapse)
qed (simp_all add: mock_get_checkpoint_def mock_get_max_block_height_def mock_check_block_complete_def
    mock_rollback_block_def mock_lookup_block_hash_def mock_view_def Let_def option.map_comp o_def
    split: option.split)

section \<open>What recovery guarantees\<close>


text \<open>
  C26. Crash recovery is safe whatever fails on the way: no stored block that is complete, or
  that lies at or below the checkpoint, is ever removed or changed, also when a query or a
  rollback reports an error.
\<close>

theorem sync_keeps_complete_blocks:
  assumes "chain_writer (or_writer E) view cp"
    and "complete_at (view (os_db st)) h \<or> int (unat h) \<le> checkpoint_height_of (cp (os_db st))"
    and "- 1 \<le> checkpoint_height_of (cp (os_db st))" 
    and "checkpoint_height_of (cp (os_db st)) < 2 ^ 31 - 1"
  shows "view (os_db (snd (sync_checkpoint_with_db E st))) h = view (os_db st) h"
  using chain_writer.sync_checkpoint_safe [OF assms(1) refl assms(2-4)] .

text \<open>
  C27. A rollback to a fork point below the tip removes exactly the stored blocks above the fork
  point up to the tip, reports their number, and sets the checkpoint to the fork point with its
  stored hash when that block is stored.
\<close>

theorem rollback_to_height_exact:
  assumes "chain_writer (or_writer E) view cp"
    and "rollback_to_height E tip fork st = (Inr n, st')" and "fork < tip"
  shows "n = tip - fork \<and> view (os_db st') = view (os_db st) |` (- {fork <.. tip}) \<and>
         cp (os_db st') = (case view (os_db st) fork of
           None \<Rightarrow> cp (os_db st)
         | Some b \<Rightarrow> Some (fork_checkpoint E fork (sb_hash b)))"
  using chain_writer.rollback_to_height_result [OF assms(1,2) refl assms(3)] .

section \<open>A crashed ingestion\<close>

text \<open>Three blocks behind a checkpoint at 0: the highest lost its transaction.\<close>

definition ex_stored :: "u32 \<Rightarrow> block_data" where
  "ex_stored h = \<lparr> bd_height = h, bd_hash = u32_to_dec h, bd_previous_hash = [], bd_merkle_root = [],
     bd_timestamp = 0, bd_bits = [], bd_difficulty = F64_of 1, bd_nonce = 0, bd_version = 1, bd_tx_count = 1, bd_size = 0, bd_weight = 0 \<rparr>"

definition ex_tx_at :: "u32 \<Rightarrow> transaction_data" where
  "ex_tx_at h = \<lparr> td_txid = u32_to_dec h, td_block_height = h, td_block_hash = u32_to_dec h, td_timestamp = 0,
     td_version = 1, td_locktime = 0, td_size = 0, td_vsize = 0, td_weight = 0, td_is_coinbase = True,
     td_total_input = None, td_total_output = None, td_fee = None \<rparr>"

definition ex_checkpoint :: checkpoint_data where
  "ex_checkpoint = \<lparr> cp_last_processed_height = 0, cp_last_processed_hash = u32_to_dec 0,
     cp_last_processed_file = ''f'', cp_last_processed_file_offset = None, cp_timestamp = 0, cp_status = ''in_progress'' \<rparr>"

definition ex_crashed :: mock_storage where
  "ex_crashed = mock_new\<lparr> ms_blocks := [ex_stored 0, ex_stored 1, ex_stored 2],
     ms_transactions := [ex_tx_at 0, ex_tx_at 1], ms_checkpoint := Some ex_checkpoint \<rparr>"

lemma ex_recovery_run: "\<exists>st'. sync_checkpoint_with_db ex_orch (ex_state ex_crashed) = (Inr 2, st')"
proof -
  have "heights_down 1 2 = [2, 1]" by (simp add: heights_down_def upt_conv_Cons)
  then show ?thesis
    by (simp add: sync_checkpoint_with_db_def ex_orch_def ex_state_def in_db_def mock_get_checkpoint_def
      ex_crashed_def mock_get_max_block_height_def checkpoint_height_of_def ex_checkpoint_def Let_def
      ex_stored_def ex_tx_at_def sync_beyond_def u32_as_i32_def i32_as_u32_def mock_check_block_complete_def
      mock_rollback_block_def mock_new_def usize_as_u32_def sync_update_def mock_lookup_block_hash_def
      mock_update_checkpoint_def unless_failing_def check_failure_def check_failure_after_def)
qed

lemma ex_crashed_view: "mock_view ex_crashed = 
    [0 \<mapsto> \<lparr>sb_hash = u32_to_dec 0, sb_expected = 1, sb_actual = 1\<rparr>,
     1 \<mapsto> \<lparr>sb_hash = u32_to_dec 1, sb_expected = 1, sb_actual = 1\<rparr>,
     2 \<mapsto> \<lparr>sb_hash = u32_to_dec 2, sb_expected = 1, sb_actual = 0\<rparr>]"
  by (rule ext) (simp add: mock_view_def ex_crashed_def ex_stored_def ex_tx_at_def mock_new_def usize_as_u32_def)

lemma ex_crashed_top: "recovery_top (mock_view ex_crashed) 0 = 1"
  by (rule recovery_topI) (auto simp: ex_crashed_view complete_at_def intro!: exI [of _ 1] split: if_splits)

lemma ex_crashed_facts:
  "chain_writer (or_writer ex_orch) mock_view ms_checkpoint"
  "checkpoint_height_of (ms_checkpoint (os_db (ex_state ex_crashed))) = 0"
  "\<forall>h\<in>dom (mock_view (os_db (ex_state ex_crashed))). unat h < 2 ^ 31"
  by (simp_all add: ex_orch_def mock_chain.chain_writer_axioms ex_state_def ex_crashed_def checkpoint_height_of_def
      ex_checkpoint_def dom_mock_view ex_stored_def)


lemma sync_keeps_complete_blocks_witness:
  "mock_view (os_db (snd (sync_checkpoint_with_db ex_orch (ex_state ex_crashed)))) 1 = mock_view ex_crashed 1"
  using sync_keeps_complete_blocks [OF ex_crashed_facts(1), of "ex_state ex_crashed" 1] ex_crashed_facts(2)
  by (simp add: ex_state_def ex_crashed_view complete_at_def)

lemma rollback_to_height_exact_witness:
  "\<exists>st'. rollback_to_height ex_orch 2 0 (ex_state ex_crashed) = (Inr 2, st') \<and>
     mock_view (os_db st') = mock_view ex_crashed |` (- {0 <.. 2})"
proof -
  have "heights_down 1 2 = [2, 1]" by (simp add: heights_down_def upt_conv_Cons)
  then obtain st' where run: "rollback_to_height ex_orch 2 0 (ex_state ex_crashed) = (Inr 2, st')"
    by (simp add: rollback_to_height_def ex_orch_def ex_state_def in_db_def rollback_block_def ex_crashed_def
      mock_rollback_block_def mock_new_def mock_lookup_block_hash_def ex_stored_def ex_tx_at_def Let_def
      mock_update_checkpoint_def unless_failing_def check_failure_def check_failure_after_def)
  show ?thesis using rollback_to_height_exact [OF ex_crashed_facts(1) run] run by (simp add: ex_state_def)
qed

end
