(* ===== verification/Zmq.thy ===== *)
theory Zmq
  imports Models "HOL-Library.Sublist"
begin

text \<open>
  The block notification listener (\<open>src/src/parser/zmq_listener.rs\<close>): parsing of a
  \<open>hashblock\<close> message, the persistent connection with its reconnection backoff, the statistics
  and the detection of gaps in the sequence numbers. The \<open>zeromq\<close> crate is the parameter
  \<open>zmq_ops\<close>, actions on the state \<open>'e\<close> of the outside world; a receive that exceeds its
  timeout is one of its outcomes. The delays slept are recorded in the listener's state, oldest
  first, so that the backoff can be stated.
\<close>

section \<open>Data\<close>

record zmq_stats =
  zs_messages_received :: u64
  zs_reconnections :: u64
  zs_recv_errors :: u64
  zs_parse_errors :: u64
  zs_sequence_gaps :: u64

definition zmq_stats_new :: zmq_stats where
  "zmq_stats_new = \<lparr> zs_messages_received = 0, zs_reconnections = 0, zs_recv_errors = 0,
     zs_parse_errors = 0, zs_sequence_gaps = 0 \<rparr>"

definition record_message :: "zmq_stats \<Rightarrow> zmq_stats" where
  "record_message s = s\<lparr>zs_messages_received := zs_messages_received s + 1\<rparr>"

definition record_reconnection :: "zmq_stats \<Rightarrow> zmq_stats" where
  "record_reconnection s = s\<lparr>zs_reconnections := zs_reconnections s + 1\<rparr>"

definition record_recv_error :: "zmq_stats \<Rightarrow> zmq_stats" where
  "record_recv_error s = s\<lparr>zs_recv_errors := zs_recv_errors s + 1\<rparr>"

definition record_parse_error :: "zmq_stats \<Rightarrow> zmq_stats" where
  "record_parse_error s = s\<lparr>zs_parse_errors := zs_parse_errors s + 1\<rparr>"

definition record_sequence_gap :: "zmq_stats \<Rightarrow> zmq_stats" where
  "record_sequence_gap s = s\<lparr>zs_sequence_gaps := zs_sequence_gaps s + 1\<rparr>"

datatype zmq_error =
    TooFewFrames usize
  | UnexpectedTopic string
  | InvalidHashLength usize
  | ConnectFailed string
  | SubscribeFailed
  | ReconnectFailed u32 string
  | NotConnected
  | RecvFailed string
  | RecvTimedOut u64

datatype recv_outcome = RecvMessage "u8 list list" | RecvError string | RecvTimeout

record ('e, 's) zmq_ops =
  zo_connect :: "string \<Rightarrow> 'e \<Rightarrow> (string + 's) \<times> 'e"
  zo_subscribe :: "'s \<Rightarrow> string \<Rightarrow> 'e \<Rightarrow> (string + unit) \<times> 'e"
  zo_recv :: "'s \<Rightarrow> u64 \<Rightarrow> 'e \<Rightarrow> recv_outcome \<times> 'e"
  zo_hex_encode :: "u8 list \<Rightarrow> string"

record ('e, 's) zmq_listener =
  zl_endpoint :: string
  zl_socket :: "'s option"
  zl_max_reconnect_attempts :: u32
  zl_reconnect_base_delay_ms :: u64
  zl_recv_timeout :: u64
  zl_last_sequence :: "u32 option"
  zl_stats :: zmq_stats
  zl_env :: 'e
  zl_slept :: "u64 list"

type_synonym ('e, 's, 'a) zmq = "(('e, 's) zmq_listener, zmq_error, 'a) action"

section \<open>Messages\<close>

text \<open>\<open>str::from_utf8(..).unwrap_or("<non-utf8>")\<close>\<close>

definition topic_of :: "u8 list \<Rightarrow> string" where
  "topic_of frame = (if utf8_valid frame then bytes_to_string frame else ''<non-utf8>'')"

definition parse_hashblock_message :: 
  "(u8 list \<Rightarrow> string) \<Rightarrow> u8 list list \<Rightarrow> zmq_error + (string \<times> u32 option)" where
  "parse_hashblock_message hex frames =
     (if length frames < 2 then Inl (TooFewFrames (length frames))
      else
        let topic = topic_of (frames ! 0)
        in if topic \<noteq> ''hashblock'' then Inl (UnexpectedTopic topic)
           else if length (frames ! 1) \<noteq> 32 then Inl (InvalidHashLength (length (frames ! 1)))
           else
             let hash_hex = hex (rev (frames ! 1));
                 sequence = (if length frames \<ge> 3 \<and> length (frames ! 2) = 4
                             then Some (u32_from_le (frames ! 2)) else None)
             in Inr (hash_hex, sequence))"

section \<open>The listener\<close>

definition zmq_new :: "string \<Rightarrow> 'e \<Rightarrow> ('e, 's) zmq_listener" where
  "zmq_new endpoint e =
     \<lparr> zl_endpoint = endpoint, zl_socket = None, zl_max_reconnect_attempts = 5,
       zl_reconnect_base_delay_ms = 1000, zl_recv_timeout = 60 * 60, zl_last_sequence = None,
       zl_stats = zmq_stats_new, zl_env = e, zl_slept = [] \<rparr>"

text \<open>The fields of \<open>BitcoinRpcConfig\<close> that the listener is built from.\<close>

definition zmq_from_config :: "string \<Rightarrow> u32 \<Rightarrow> u64 \<Rightarrow> u64 \<Rightarrow> 'e \<Rightarrow> ('e, 's) zmq_listener" where
  "zmq_from_config endpoint max_attempts base_delay_ms recv_timeout_mins e =
     \<lparr> zl_endpoint = endpoint, zl_socket = None, zl_max_reconnect_attempts = max_attempts,
       zl_reconnect_base_delay_ms = base_delay_ms,
       zl_recv_timeout = (if recv_timeout_mins > 0 then recv_timeout_mins * 60 else - 1),
       zl_last_sequence = None, zl_stats = zmq_stats_new, zl_env = e, zl_slept = [] \<rparr>"

definition connect :: "('e, 's) zmq_ops \<Rightarrow> ('e, 's, unit) zmq" where
  "connect Z l =
     (case zo_connect Z (zl_endpoint l) (zl_env l) of
        (Inl e, env) \<Rightarrow> (Inl (ConnectFailed (zl_endpoint l)), l\<lparr>zl_env := env\<rparr>)
      | (Inr socket, env) \<Rightarrow>
          (case zo_subscribe Z socket ''hashblock'' env of
             (Inl e, env') \<Rightarrow> (Inl SubscribeFailed, l\<lparr>zl_env := env'\<rparr>)
           | (Inr _, env') \<Rightarrow> (Inr (), l\<lparr>zl_env := env', zl_socket := Some socket\<rparr>)))"

definition backoff_delay :: "u64 \<Rightarrow> nat \<Rightarrow> u64" where
  "backoff_delay base attempt = base * 2 ^ (attempt - 1)"

text \<open>The loop over the attempts \<open>attempt, ..., attempt + n - 1\<close>.\<close>

fun reconnect_attempts :: "('e, 's) zmq_ops \<Rightarrow> nat \<Rightarrow> nat \<Rightarrow> ('e, 's, unit) zmq" where
  "reconnect_attempts Z attempt 0 l =
     (Inl (ReconnectFailed (zl_max_reconnect_attempts l) (zl_endpoint l)), l)"
| "reconnect_attempts Z attempt (Suc n) l =
     (let l1 = (if attempt > 0
                then l\<lparr>zl_slept := zl_slept l @ [backoff_delay (zl_reconnect_base_delay_ms l) attempt]\<rparr>
                else l)
      in case connect Z l1 of
           (Inr _, l2) \<Rightarrow> (Inr (), l2\<lparr>zl_stats := record_reconnection (zl_stats l2)\<rparr>)
         | (Inl e, l2) \<Rightarrow> reconnect_attempts Z (attempt + 1) n l2)"

definition reconnect_with_backoff :: "('e, 's) zmq_ops \<Rightarrow> ('e, 's, unit) zmq" where
  "reconnect_with_backoff Z l = reconnect_attempts Z 0 (unat (zl_max_reconnect_attempts l)) l"

definition note_sequence :: "u32 option \<Rightarrow> ('e, 's) zmq_listener \<Rightarrow> ('e, 's) zmq_listener" where
  "note_sequence sequence l =
     (case sequence of
        None \<Rightarrow> l
      | Some seq \<Rightarrow>
          (case zl_last_sequence l of
             Some last_seq \<Rightarrow>
               if seq \<noteq> last_seq + 1 then l\<lparr>zl_stats := record_sequence_gap (zl_stats l)\<rparr> else l
           | None \<Rightarrow> l)\<lparr>zl_last_sequence := Some seq\<rparr>)"

text \<open>The reception on an open socket.\<close>

definition recv_on :: "('e, 's) zmq_ops \<Rightarrow> 's \<Rightarrow> ('e, 's, string) zmq" where
  "recv_on Z socket l =
     (case zo_recv Z socket (zl_recv_timeout l) (zl_env l) of
        (RecvError e, env) \<Rightarrow>
          (Inl (RecvFailed e),
           l\<lparr>zl_env := env, zl_stats := record_recv_error (zl_stats l), zl_socket := None\<rparr>)
      | (RecvTimeout, env) \<Rightarrow>
          (Inl (RecvTimedOut (zl_recv_timeout l div 60)),
           l\<lparr>zl_env := env, zl_stats := record_recv_error (zl_stats l), zl_socket := None\<rparr>)
      | (RecvMessage frames, env) \<Rightarrow>
          (case parse_hashblock_message (zo_hex_encode Z) frames of
             Inl e \<Rightarrow> (Inl e, l\<lparr>zl_env := env, zl_stats := record_parse_error (zl_stats l)\<rparr>)
           | Inr (hash_hex, sequence) \<Rightarrow>
               (Inr hash_hex,
                note_sequence sequence (l\<lparr>zl_env := env, zl_stats := record_message (zl_stats l)\<rparr>))))"

definition recv_block_hash :: "('e, 's) zmq_ops \<Rightarrow> ('e, 's, string) zmq" where
  "recv_block_hash Z =
     and_then (\<lambda>l. if zl_socket l = None then reconnect_with_backoff Z l else (Inr (), l)) (\<lambda>_ l.
       case zl_socket l of
         None \<Rightarrow> (Inl NotConnected, l)
       | Some socket \<Rightarrow> recv_on Z socket l)"

section \<open>Streams of notifications\<close>

text \<open>The outside world delivers the given messages next.\<close>

fun delivers :: "('e, 's) zmq_ops \<Rightarrow> 's \<Rightarrow> u64 \<Rightarrow> u8 list list list \<Rightarrow> 'e \<Rightarrow> bool" where
  "delivers Z s timeout [] env \<longleftrightarrow> True"
| "delivers Z s timeout (m # ms) env \<longleftrightarrow>
     (case zo_recv Z s timeout env of
        (RecvMessage frames, env') \<Rightarrow> frames = m \<and> delivers Z s timeout ms env'
      | _ \<Rightarrow> False)"

text \<open>Repeated calls of \<open>recv_block_hash\<close>.\<close>

fun recv_run :: "('e, 's) zmq_ops \<Rightarrow> nat \<Rightarrow> ('e, 's) zmq_listener \<Rightarrow> (zmq_error + string) list \<times> ('e, 's) zmq_listener" where
  "recv_run Z 0 l = ([], l)"
| "recv_run Z (Suc n) l =
     (case recv_block_hash Z l of (r, l1) \<Rightarrow> case recv_run Z n l1 of (rs, l2) \<Rightarrow> (r # rs, l2))"

definition hashblock_message :: "u8 list \<Rightarrow> u32 \<Rightarrow> u8 list list" where
  "hashblock_message hash seq = [string_to_bytes ''hashblock'', hash, u32_to_le seq]"

definition gaps :: "u32 list \<Rightarrow> nat" where
  "gaps ss = length (filter (\<lambda>(a, b). b \<noteq> a + 1) (zip ss (tl ss)))"

lemma gaps_Cons2: "gaps (a # b # ss) = (if b \<noteq> a + 1 then 1 else 0) + gaps (b # ss)"
  by (simp add: gaps_def)

lemma topic_hashblock: "topic_of (string_to_bytes ''hashblock'') = ''hashblock''"
proof -
  have "utf8_valid (string_to_bytes ''hashblock'')"
    by (rule utf8_valid_ascii) (simp add: string_to_bytes_def)
  then show ?thesis by (simp add: topic_of_def)
qed

lemma parse_hashblock:
  "length hash = 32 \<Longrightarrow>
     parse_hashblock_message hex (hashblock_message hash seq) = Inr (hex (rev hash), Some seq)"
  by (simp add: parse_hashblock_message_def hashblock_message_def topic_hashblock)

lemma recv_delivered:
  assumes "zl_socket l = Some s" and "length hash = 32"
    and "zo_recv Z s (zl_recv_timeout l) (zl_env l) = (RecvMessage (hashblock_message hash seq), env)"
  shows "recv_block_hash Z l = (Inr (zo_hex_encode Z (rev hash)),
     note_sequence (Some seq) (l\<lparr>zl_env := env, zl_stats := record_message (zl_stats l)\<rparr>))"
  using assms by (simp add: recv_block_hash_def recv_on_def parse_hashblock)

lemma note_sequence_sel [simp]:
  "zl_socket (note_sequence sq l) = zl_socket l" "zl_env (note_sequence sq l) = zl_env l"
  "zl_recv_timeout (note_sequence sq l) = zl_recv_timeout l"
  "zs_messages_received (zl_stats (note_sequence sq l)) = zs_messages_received (zl_stats l)"
  by (simp_all add: note_sequence_def record_sequence_gap_def split: option.split)

lemma note_sequence_some:
  "zl_last_sequence (note_sequence (Some q) l) = Some q"
  "zs_sequence_gaps (zl_stats (note_sequence (Some q) l)) = zs_sequence_gaps (zl_stats l) +
     (case zl_last_sequence l of Some p \<Rightarrow> if q \<noteq> p + 1 then 1 else 0 | None \<Rightarrow> 0)"
  by (simp_all add: note_sequence_def record_sequence_gap_def split: option.split)

lemma recv_run_delivered:
  "zl_socket l = Some s \<Longrightarrow> list_all (\<lambda>(h, q). length h = 32) hqs \<Longrightarrow>
   delivers Z s (zl_recv_timeout l) (map (\<lambda>(h, q). hashblock_message h q) hqs) (zl_env l) \<Longrightarrow>
   \<exists>l'. recv_run Z (length hqs) l = (map (\<lambda>(h, q). Inr (zo_hex_encode Z (rev h))) hqs, l') \<and>
     zs_messages_received (zl_stats l') = zs_messages_received (zl_stats l) + of_nat (length hqs) \<and>
     zs_sequence_gaps (zl_stats l') = zs_sequence_gaps (zl_stats l) +
       of_nat (gaps ((case zl_last_sequence l of Some p \<Rightarrow> [p] | None \<Rightarrow> []) @ map snd hqs))"
proof (induction hqs arbitrary: l)
  case Nil
  then show ?case by (simp add: gaps_def split: option.split)
next
  case (Cons hq hqs)
  obtain h q where hq: "hq = (h, q)" by fastforce
  then obtain env where recv: "zo_recv Z s (zl_recv_timeout l) (zl_env l) = (RecvMessage (hashblock_message h q), env)"
    and rest: "delivers Z s (zl_recv_timeout l) (map (\<lambda>(h, q). hashblock_message h q) hqs) env"
    using Cons.prems(3) by (auto split: prod.splits recv_outcome.splits)
  let ?l = "note_sequence (Some q) (l\<lparr>zl_env := env, zl_stats := record_message (zl_stats l)\<rparr>)"
  have step: "recv_block_hash Z l = (Inr (zo_hex_encode Z (rev h)), ?l)"
    using Cons.prems(1,2) hq recv by (intro recv_delivered) simp_all
  obtain l' where run: "recv_run Z (length hqs) ?l = (map (\<lambda>(h, q). Inr (zo_hex_encode Z (rev h))) hqs, l')"
    and msgs: "zs_messages_received (zl_stats l') = zs_messages_received (zl_stats ?l) + of_nat (length hqs)"
    and gps: "zs_sequence_gaps (zl_stats l') = zs_sequence_gaps (zl_stats ?l) + of_nat (gaps (q # map snd hqs))"
    using Cons.IH [of ?l] Cons.prems(1,2) rest by (auto simp: note_sequence_some)
  have "gaps ((case zl_last_sequence l of Some p \<Rightarrow> [p] | None \<Rightarrow> []) @ q # map snd hqs) =
      (case zl_last_sequence l of Some p \<Rightarrow> if q \<noteq> p + 1 then 1 else 0 | None \<Rightarrow> 0) + gaps (q # map snd hqs)"
    by (simp add: gaps_Cons2 split: option.split)
  then show ?case using step run msgs gps hq
    by (auto simp: note_sequence_some record_message_def split: option.splits)
qed

text \<open>
  C29. The notification stream is followed exactly: on an open connection every well-formed
  message yields its hash in display order, and after any number of messages the listener has
  counted all of them and exactly the adjacent pairs whose second sequence number is not the
  successor of the first, where the successor of the largest 32-bit number is 0.
\<close>

theorem zmq_stream_exact:
  assumes "zl_socket l = Some s" and "zl_last_sequence l = None"
    and "list_all (\<lambda>(h, q). length h = 32) hqs"
    and "delivers Z s (zl_recv_timeout l) (map (\<lambda>(h, q). hashblock_message h q) hqs) (zl_env l)"
  shows "\<exists>l'. recv_run Z (length hqs) l = (map (\<lambda>(h, q). Inr (zo_hex_encode Z (rev h))) hqs, l') \<and>
     zs_messages_received (zl_stats l') = zs_messages_received (zl_stats l) + of_nat (length hqs) \<and>
     zs_sequence_gaps (zl_stats l') = zs_sequence_gaps (zl_stats l) + of_nat (gaps (map snd hqs))"
  using recv_run_delivered [OF assms(1,3,4)] assms(2) by simp

text \<open>A world that delivers a list of messages and refuses a number of connections first.\<close>

definition ex_zmq :: "(nat \<times> u8 list list list, unit) zmq_ops" where
  "ex_zmq = \<lparr> zo_connect = (\<lambda>ep (n, ms). if n = 0 then (Inr (), (n, ms)) else (Inl ''refused'', (n - 1, ms))),
     zo_subscribe = (\<lambda>s topic e. (Inr (), e)),
     zo_recv = (\<lambda>s t (n, ms). case ms of [] \<Rightarrow> (RecvTimeout, (n, ms)) | m # ms' \<Rightarrow> (RecvMessage m, (n, ms'))),
     zo_hex_encode = hex_encode \<rparr>"

lemma zmq_stream_exact_witness:
  "\<exists>l'. recv_run ex_zmq 2 ((zmq_new ''tcp'' (0, [hashblock_message (replicate 32 1) 7, hashblock_message (replicate 32 2) 9]))\<lparr>zl_socket := Some ()\<rparr>) =
     (map Inr [hex_encode (replicate 32 1), hex_encode (replicate 32 2)], l') \<and> zs_sequence_gaps (zl_stats l') = 1"
  using zmq_stream_exact [of "(zmq_new ''tcp'' (0, [hashblock_message (replicate 32 1) 7, hashblock_message (replicate 32 2) 9]))\<lparr>zl_socket := Some ()\<rparr>"
      "()" "[(replicate 32 1, 7), (replicate 32 2, 9)]" ex_zmq]
  by (auto simp: zmq_new_def ex_zmq_def zmq_stats_new_def gaps_def numeral_2_eq_2 simp del: recv_run.simps)

section \<open>Reconnection\<close>

text \<open>One connection attempt, as seen by the outside world.\<close>

definition attempt_connect :: "('e, 's) zmq_ops \<Rightarrow> string \<Rightarrow> 'e \<Rightarrow> 's option \<times> 'e" where
  "attempt_connect Z endpoint env =
     (case zo_connect Z endpoint env of
        (Inl _, env1) \<Rightarrow> (None, env1)
      | (Inr s, env1) \<Rightarrow>
          (case zo_subscribe Z s ''hashblock'' env1 of
             (Inl _, env2) \<Rightarrow> (None, env2)
           | (Inr _, env2) \<Rightarrow> (Some s, env2)))"

text \<open>The first \<open>k\<close> attempts fail and leave the world in \<open>env'\<close>.\<close>

fun connect_fails :: "('e, 's) zmq_ops \<Rightarrow> string \<Rightarrow> nat \<Rightarrow> 'e \<Rightarrow> 'e \<Rightarrow> bool" where
  "connect_fails Z ep 0 env env' \<longleftrightarrow> env' = env"
| "connect_fails Z ep (Suc k) env env' \<longleftrightarrow>
     (case attempt_connect Z ep env of
        (None, env1) \<Rightarrow> connect_fails Z ep k env1 env'
      | (Some _, _) \<Rightarrow> False)"

lemma connect_attempt:
  "connect Z l = (case attempt_connect Z (zl_endpoint l) (zl_env l) of
     (None, env) \<Rightarrow> (Inl (if isl (fst (zo_connect Z (zl_endpoint l) (zl_env l)))
                          then ConnectFailed (zl_endpoint l) else SubscribeFailed), l\<lparr>zl_env := env\<rparr>)
   | (Some s, env) \<Rightarrow> (Inr (), l\<lparr>zl_env := env, zl_socket := Some s\<rparr>))"
  by (auto simp: connect_def attempt_connect_def split: prod.split sum.split)

definition delays :: "u64 \<Rightarrow> nat \<Rightarrow> nat \<Rightarrow> u64 list" where
  "delays base a n = map (backoff_delay base) (filter (\<lambda>i. 0 < i) [a ..< a + n])"

lemma delays_Suc: "delays base a (Suc n) = (if 0 < a then [backoff_delay base a] else []) @ delays base (a + 1) n"
  by (simp add: delays_def upt_conv_Cons del: upt_Suc)

lemma reconnect_fails:
  "connect_fails Z (zl_endpoint l) k (zl_env l) env \<Longrightarrow> k \<le> n \<Longrightarrow>
     reconnect_attempts Z a n l = reconnect_attempts Z (a + k) (n - k)
       (l\<lparr>zl_slept := zl_slept l @ delays (zl_reconnect_base_delay_ms l) a k, zl_env := env\<rparr>)"
proof (induction k arbitrary: a n l)
  case 0
  then show ?case by (simp add: delays_def)
next
  case (Suc k)
  obtain m where n: "n = Suc m" using Suc.prems(2) by (cases n) auto
  obtain env1 where att: "attempt_connect Z (zl_endpoint l) (zl_env l) = (None, env1)"
    and rest: "connect_fails Z (zl_endpoint l) k env1 env"
    using Suc.prems(1) by (auto split: prod.splits option.splits)
  let ?d = "if 0 < a then [backoff_delay (zl_reconnect_base_delay_ms l) a] else []"
  let ?l = "l\<lparr>zl_slept := zl_slept l @ ?d, zl_env := env1\<rparr>"
  have "reconnect_attempts Z a n l = reconnect_attempts Z (a + 1) m ?l"
    using att by (simp add: n connect_attempt Let_def)
  also have "\<dots> = reconnect_attempts Z (a + 1 + k) (m - k)
     (?l\<lparr>zl_slept := zl_slept ?l @ delays (zl_reconnect_base_delay_ms ?l) (a + 1) k, zl_env := env\<rparr>)"
    using rest Suc.prems(2) n by (intro Suc.IH) simp_all
  finally show ?case by (simp add: n delays_Suc)
qed

lemma delays_0: "delays base 0 n = map (\<lambda>i. base * 2 ^ i) [0 ..< n - 1]"
proof (cases n)
  case (Suc m)
  have "filter (\<lambda>i. 0 < i) [0 ..< Suc m] = map Suc [0 ..< m]"
    by (simp add: upt_conv_Cons map_Suc_upt [symmetric] filter_map o_def del: upt_Suc)
  then show ?thesis by (simp add: Suc delays_def backoff_delay_def del: upt_Suc)
qed (simp add: delays_def)

text \<open>
  The listener reconnects with bounded exponential backoff: if \<open>k\<close> attempts fail, fewer than
  the configured maximum, and the next one succeeds, it reports success with the new socket and
  one more reconnection after sleeping \<open>base * 2 ^ i\<close> before each retry; if as many attempts fail
  as are configured it stops with an error, and has slept between them only.
\<close>

lemma zmq_backoff_exact:
  assumes "zl_socket l = None" and "unat (zl_max_reconnect_attempts l) = m"
    and "connect_fails Z (zl_endpoint l) k (zl_env l) env" and "k \<le> m"
  shows "(k = m \<longrightarrow> reconnect_with_backoff Z l =
            (Inl (ReconnectFailed (zl_max_reconnect_attempts l) (zl_endpoint l)),
             l\<lparr>zl_slept := zl_slept l @ map (\<lambda>i. zl_reconnect_base_delay_ms l * 2 ^ i) [0 ..< m - 1],
               zl_env := env\<rparr>)) \<and>
         (\<forall>s env'. k < m \<longrightarrow> attempt_connect Z (zl_endpoint l) env = (Some s, env') \<longrightarrow>
            reconnect_with_backoff Z l =
              (Inr (), l\<lparr>zl_slept := zl_slept l @ map (\<lambda>i. zl_reconnect_base_delay_ms l * 2 ^ i) [0 ..< k],
                 zl_env := env', zl_socket := Some s, zl_stats := record_reconnection (zl_stats l)\<rparr>))"
proof -
  let ?l = "l\<lparr>zl_slept := zl_slept l @ delays (zl_reconnect_base_delay_ms l) 0 k, zl_env := env\<rparr>"
  have run: "reconnect_with_backoff Z l = reconnect_attempts Z k (m - k) ?l"
    using reconnect_fails [OF assms(3,4), of 0] assms(2) by (simp add: reconnect_with_backoff_def)
  have "reconnect_attempts Z k (m - k) ?l = (Inr (),
      l\<lparr>zl_slept := zl_slept l @ map (\<lambda>i. zl_reconnect_base_delay_ms l * 2 ^ i) [0 ..< k],
        zl_env := env', zl_socket := Some s, zl_stats := record_reconnection (zl_stats l)\<rparr>)"
    if "k < m" and att: "attempt_connect Z (zl_endpoint l) env = (Some s, env')" for s env'
  proof -
    obtain j where j: "m - k = Suc j" using \<open>k < m\<close> by (metis Suc_diff_Suc)
    have d: "delays (zl_reconnect_base_delay_ms l) 0 k @
        (if 0 < k then [backoff_delay (zl_reconnect_base_delay_ms l) k] else []) =
        map (\<lambda>i. zl_reconnect_base_delay_ms l * 2 ^ i) [0 ..< k]"
      by (cases k) (simp_all add: delays_0 backoff_delay_def)
    show ?thesis using att by (simp add: j connect_attempt Let_def flip: d)
  qed
  then show ?thesis using run by (auto simp: delays_0)
qed

lemma zmq_backoff_exact_witness:
  "\<exists>l'. reconnect_with_backoff ex_zmq (zmq_new ''tcp'' (2, [])) = (Inr (), l') \<and>
     zl_slept l' = [1000, 2000] \<and> zl_socket l' = Some ()"
  using zmq_backoff_exact [of "zmq_new ''tcp'' (2, [])" 5 ex_zmq "Suc (Suc 0)" "(0, [])"]
  by (simp add: zmq_new_def ex_zmq_def attempt_connect_def)

end
