(* ===== verification/Rpc.thy ===== *)
theory Rpc
  imports Models "HOL-Library.Sublist"
begin

text \<open>
  The JSON-RPC block provider (\<open>src/src/parser/rpc_provider.rs\<close>): requests with retries, the
  queries built on them, and the parallel fetch of a range of blocks. The HTTP client and
  \<open>serde_json\<close>'s text form are parameters, an action on the state \<open>'p\<close> of the outside world.
  An \<open>anyhow\<close> error is the chain of its contexts, outermost first: \<open>format!("{}")\<close> shows its
  head. The concurrent requests of a batch are issued in order; the order in which they
  complete is the parameter \<open>ho_completion\<close>.
\<close>

section \<open>Data\<close>

datatype json =
    JNull
  | JBool bool
  | JNum int
  | JString string
  | JArray "json list"
  | JObject "(string \<times> json) list"

fun json_get :: "json \<Rightarrow> string \<Rightarrow> json option" where
  "json_get (JObject fs) key = map_of fs key"
| "json_get _ key = None"

text \<open>\<open>value["key"]\<close> is \<open>Null\<close> where there is no such field.\<close>

definition json_index :: "json \<Rightarrow> string \<Rightarrow> json" where
  "json_index v key = (case json_get v key of Some x \<Rightarrow> x | None \<Rightarrow> JNull)"

fun json_as_str :: "json \<Rightarrow> string option" where
  "json_as_str (JString s) = Some s"
| "json_as_str _ = None"

fun json_as_u64 :: "json \<Rightarrow> u64 option" where
  "json_as_u64 (JNum n) = (if 0 \<le> n \<and> n < 2 ^ 64 then Some (word_of_int n) else None)"
| "json_as_u64 _ = None"

type_synonym rpc_error = "string list"

record http_response =
  hr_status :: nat
  hr_status_text :: string
  hr_text :: string
  hr_json :: "string + json"

type_synonym sourced_block = "u32 \<times> btc_block \<times> string"

record 'p http_ops =
  ho_send :: "json \<Rightarrow> 'p \<Rightarrow> (string + http_response) \<times> 'p"
  ho_json_text :: "json \<Rightarrow> string"
  ho_hex_decode :: "string \<Rightarrow> string + u8 list"
  ho_deserialize :: "u8 list \<Rightarrow> string + btc_block"
  ho_completion :: "(rpc_error + sourced_block option) list \<Rightarrow> (rpc_error + sourced_block option) list"

record 'p rpc_provider =
  rp_batch_size :: usize
  rp_env :: 'p
  rp_slept :: "u64 list"

type_synonym ('p, 'a) rpc = "('p rpc_provider, rpc_error, 'a) action"

definition with_context :: "string \<Rightarrow> ('p, 'a) rpc \<Rightarrow> ('p, 'a) rpc" where
  "with_context c m s =
     (case m s of
        (Inl e, s') \<Rightarrow> (Inl (c # e), s')
      | (Inr x, s') \<Rightarrow> (Inr x, s'))"

definition of_option :: "string \<Rightarrow> 'a option \<Rightarrow> ('p, 'a) rpc" where
  "of_option c v = (case v of Some x \<Rightarrow> ret x | None \<Rightarrow> fail [c])"

definition of_result :: "string \<Rightarrow> string + 'a \<Rightarrow> ('p, 'a) rpc" where
  "of_result c v = (case v of Inr x \<Rightarrow> ret x | Inl e \<Rightarrow> fail [c, e])"

section \<open>Requests\<close>

definition method_of :: "json \<Rightarrow> string" where
  "method_of body =
     (case json_get body ''method'' of
        Some m \<Rightarrow> (case json_as_str m of Some s \<Rightarrow> s | None \<Rightarrow> ''unknown'')
      | None \<Rightarrow> ''unknown'')"

definition is_success :: "nat \<Rightarrow> bool" where
  "is_success status \<longleftrightarrow> 200 \<le> status \<and> status < 300"

text \<open>The answer to a request, from the response.\<close>

definition rpc_result :: "'p http_ops \<Rightarrow> json \<Rightarrow> http_response \<Rightarrow> rpc_error + json" where
  "rpc_result H body response =
     (if \<not> is_success (hr_status response) then
        Inl [''RPC HTTP error '' @ hr_status_text response @ '' for '' @ method_of body @ '': '' @ hr_text response]
      else
        case hr_json response of
          Inl e \<Rightarrow> Inl [''Failed to parse RPC response JSON'', e]
        | Inr result \<Rightarrow>
            (case json_get result ''error'' of
               Some error \<Rightarrow>
                 if error \<noteq> JNull
                 then Inl [''RPC error for '' @ method_of body @ '': '' @ ho_json_text H error]
                 else Inr (json_index result ''result'')
             | None \<Rightarrow> Inr (json_index result ''result'')))"

definition execute_rpc :: "'p http_ops \<Rightarrow> json \<Rightarrow> ('p, json) rpc" where
  "execute_rpc H body s =
     (case ho_send H body (rp_env s) of
        (Inl e, env) \<Rightarrow> (Inl [''RPC request failed'', e], s\<lparr>rp_env := env\<rparr>)
      | (Inr response, env) \<Rightarrow> (rpc_result H body response, s\<lparr>rp_env := env\<rparr>))"

definition rpc_body :: "string \<Rightarrow> json list \<Rightarrow> json" where
  "rpc_body meth params =
     JObject [(''jsonrpc'', JString ''1.0''), (''id'', JString ''btcgraph''),
              (''method'', JString meth), (''params'', JArray params)]"

text \<open>The attempts \<open>attempt, ..., attempt + n - 1\<close>; \<open>Duration::from_secs(1 << (attempt - 1))\<close>.\<close>

fun rpc_attempts :: "'p http_ops \<Rightarrow> json \<Rightarrow> nat \<Rightarrow> nat \<Rightarrow> rpc_error \<Rightarrow> ('p, json) rpc" where
  "rpc_attempts H body attempt 0 last_error s = (Inl last_error, s)"
| "rpc_attempts H body attempt (Suc n) last_error s =
     (let s1 = (if attempt > 0 then s\<lparr>rp_slept := rp_slept s @ [2 ^ (attempt - 1)]\<rparr> else s)
      in case execute_rpc H body s1 of
           (Inr result, s2) \<Rightarrow> (Inr result, s2)
         | (Inl e, s2) \<Rightarrow> rpc_attempts H body (attempt + 1) n e s2)"

definition rpc_call :: "'p http_ops \<Rightarrow> string \<Rightarrow> json list \<Rightarrow> ('p, json) rpc" where
  "rpc_call H meth params = rpc_attempts H (rpc_body meth params) 0 3 []"

section \<open>Queries\<close>

definition get_tip_height :: "'p http_ops \<Rightarrow> ('p, u32) rpc" where
  "get_tip_height H =
     and_then (with_context ''getblockcount failed'' (rpc_call H ''getblockcount'' [])) (\<lambda>result.
     of_option ''Invalid block count from RPC'' (map_option ucast (json_as_u64 result)))"

definition get_block_hash :: "'p http_ops \<Rightarrow> u32 \<Rightarrow> ('p, string) rpc" where
  "get_block_hash H height =
     and_then (with_context (''getblockhash failed for height '' @ u32_to_dec height)
       (rpc_call H ''getblockhash'' [JNum (uint height)])) (\<lambda>result.
     of_option (''Invalid block hash from RPC for height '' @ u32_to_dec height) (json_as_str result))"

definition get_block_hex :: "'p http_ops \<Rightarrow> string \<Rightarrow> ('p, string) rpc" where
  "get_block_hex H hash =
     and_then (with_context (''getblock (hex) failed for hash '' @ hash)
       (rpc_call H ''getblock'' [JString hash, JNum 0])) (\<lambda>result.
     of_option (''Invalid block hex from RPC for hash '' @ hash) (json_as_str result))"

text \<open>\<open>format!("{}", e)\<close>\<close>

definition error_display :: "rpc_error \<Rightarrow> string" where
  "error_display e = (case e of [] \<Rightarrow> [] | c # _ \<Rightarrow> c)"

definition get_block :: "'p http_ops \<Rightarrow> u32 \<Rightarrow> ('p, sourced_block option) rpc" where
  "get_block H height s =
     (case get_block_hash H height s of
        (Inl e, s') \<Rightarrow>
          if sublist ''Block height out of range'' (error_display e) then (Inr None, s') else (Inl e, s')
      | (Inr hash, s') \<Rightarrow>
          and_then (get_block_hex H hash) (\<lambda>hex_str.
          and_then (of_result (''Failed to decode block hex at height '' @ u32_to_dec height) (ho_hex_decode H hex_str))
            (\<lambda>block_bytes.
          and_then (of_result (''Failed to deserialize block at height '' @ u32_to_dec height)
              (ho_deserialize H block_bytes)) (\<lambda>block.
          ret (Some (height, block, ''rpc''))))) s')"

text \<open>The requests of a batch, and the loop over their results.\<close>

fun issue_blocks :: "'p http_ops \<Rightarrow> u32 list \<Rightarrow> 'p rpc_provider \<Rightarrow>
    (rpc_error + sourced_block option) list \<times> 'p rpc_provider" where
  "issue_blocks H [] s = ([], s)"
| "issue_blocks H (height # hs) s =
     (case get_block H height s of (r, s1) \<Rightarrow>
      case issue_blocks H hs s1 of (rs, s2) \<Rightarrow> (r # rs, s2))"

fun collect_blocks :: "(rpc_error + sourced_block option) list \<Rightarrow> rpc_error + sourced_block list" where
  "collect_blocks [] = Inr []"
| "collect_blocks (Inl e # rs) = Inl e"
| "collect_blocks (Inr None # rs) = collect_blocks rs"
| "collect_blocks (Inr (Some b) # rs) =
     (case collect_blocks rs of Inl e \<Rightarrow> Inl e | Inr bs \<Rightarrow> Inr (b # bs))"

definition get_block_batch :: "'p http_ops \<Rightarrow> u32 \<Rightarrow> usize \<Rightarrow> ('p, sourced_block list) rpc" where
  "get_block_batch H start_height cnt s =
     (case issue_blocks H (map (\<lambda>i. start_height + of_nat i) [0 ..< unat (usize_as_u32 cnt)]) s of
        (results, s') \<Rightarrow>
          (case collect_blocks (ho_completion H results) of
             Inl e \<Rightarrow> (Inl e, s')
           | Inr blocks \<Rightarrow> (Inr (sort_key fst blocks), s')))"

definition verify_connection :: "'p http_ops \<Rightarrow> ('p, u32) rpc" where
  "verify_connection H =
     with_context ''Failed to connect to Bitcoin Core RPC - check url, credentials, and that bitcoind is running''
       (get_tip_height H)"

section \<open>Facts\<close>

lemma nat_to_dec_digits: "c \<in> set (nat_to_dec n) \<Longrightarrow> of_char c < (58 :: nat)"
proof (induction n rule: nat_to_dec.induct)
  case (1 n)
  show ?case
  proof (cases "n < 10")
    case True
    then show ?thesis using 1(2) by (simp add: nat_to_dec.simps [of n])
  next
    case False
    then have "c \<in> set (nat_to_dec (n div 10)) \<or> c = dec_digit (n mod 10)"
      using 1(2) by (subst (asm) nat_to_dec.simps) auto
    moreover have "of_char (dec_digit (n mod 10)) < (58 :: nat)" using mod_less_divisor [of 10 n] by simp
    ultimately show ?thesis using 1(1) [OF False] by blast
  qed
qed

lemma B_notin_dec: "CHR ''B'' \<notin> set (u32_to_dec h)"
  using nat_to_dec_digits [of "CHR ''B''" "unat h"] by (auto simp: u32_to_dec_def)

text \<open>The outermost context of a failed \<open>getblockhash\<close>.\<close>

lemma get_block_hash_error:
  assumes "get_block_hash H height s = (Inl e, s')"
  shows "error_display e \<in> {''getblockhash failed for height '' @ u32_to_dec height,
                            ''Invalid block hash from RPC for height '' @ u32_to_dec height}"
  using assms by (auto simp: get_block_hash_def with_context_def of_option_def error_display_def
      elim!: and_then_InlE split: prod.splits sum.splits option.splits)

lemma get_block_height:
  "get_block H height s = (Inr (Some b), s') \<Longrightarrow> fst b = height"
  by (auto simp: get_block_def elim!: and_then_InrE split: prod.splits sum.splits if_splits)

lemma get_block_not_None: "fst (get_block H height s) \<noteq> Inr None"
proof
  assume none: "fst (get_block H height s) = Inr None"
  obtain r s1 where hash: "get_block_hash H height s = (r, s1)" by fastforce
  show False
  proof (cases r)
    case (Inl e)
    then have "sublist ''Block height out of range'' (error_display e)"
      using none hash by (auto simp: get_block_def split: if_splits)
    then have "CHR ''B'' \<in> set (error_display e)" by (auto dest: set_mono_sublist)
    then show False using get_block_hash_error [OF hash [unfolded Inl]] B_notin_dec [of height] by auto
  next
    case (Inr h)
    then show False using none hash
      by (auto simp: get_block_def and_then_def split: prod.splits sum.splits)
  qed
qed

lemma issue_blocks_results:
  "issue_blocks H hs s = (rs, s') \<Longrightarrow>
     list_all2 (\<lambda>h r. r \<noteq> Inr None \<and> (\<forall>b. r = Inr (Some b) \<longrightarrow> fst b = h)) hs rs"
proof (induction H hs s arbitrary: rs s' rule: issue_blocks.induct)
  case (2 H height hs s)
  obtain r s1 rs' where r: "get_block H height s = (r, s1)" and rs: "rs = r # rs'" "issue_blocks H hs s1 = (rs', s')"
    using 2(2) by (auto split: prod.splits)
  then have "r \<noteq> Inr None" using get_block_not_None [of H height s] by simp
  moreover have "\<forall>b. r = Inr (Some b) \<longrightarrow> fst b = height" using get_block_height r by blast
  ultimately show ?case using rs 2(1) [OF r [symmetric] rs(2)] by simp
qed simp

lemma results_heights:
  "list_all2 (\<lambda>h r. r \<noteq> Inr None \<and> (\<forall>b. r = Inr (Some b) \<longrightarrow> fst b = h)) hs rs \<Longrightarrow>
     (\<forall>r\<in>set rs. r \<noteq> Inr None) \<and> ((\<forall>r\<in>set rs. \<exists>b. r = Inr (Some b)) \<longrightarrow> map (fst \<circ> the \<circ> projr) rs = hs)"
  by (induction rule: list_all2_induct) auto

lemma ascending_heights:
  assumes "unat (h :: u32) + n < 2 ^ 32"
  shows "sorted (map (\<lambda>i. h + of_nat i) [0 ..< n])"
proof -
  have "unat (h + of_nat i) = unat h + i" if "i < n" for i
  proof -
    have "unat (of_nat i :: u32) = i" using assms that by (simp add: unat_of_nat take_bit_eq_mod)
    then show ?thesis using assms that by (simp add: unat_add_lem [THEN iffD1])
  qed
  then show ?thesis by (simp add: sorted_iff_nth_mono word_le_nat_alt)
qed

lemma collect_blocks_Inr:
  "collect_blocks rs = Inr bs \<Longrightarrow> \<forall>r\<in>set rs. r \<noteq> Inr None \<Longrightarrow> rs = map (Inr \<circ> Some) bs"
  by (induction rs arbitrary: bs rule: collect_blocks.induct) (auto split: sum.splits)

text \<open>
  A block past the chain tip is reported as an error, never as absent: whatever the node
  answers, \<open>get_block\<close> does not return \<open>None\<close>, because the text it searches for the node's
  message is that of the outermost context, which never contains it.
\<close>

lemma get_block_never_absent: "fst (get_block H height s) \<noteq> Inr None"
  by (rule get_block_not_None)

lemma get_block_batch_heights:
  assumes "\<And>xs. mset (ho_completion H xs) = mset xs"
    and "get_block_batch H start_height cnt s = (Inr bs, s')"
    and "unat start_height + cnt < 2 ^ 32"
  shows "map fst bs = map (\<lambda>i. start_height + of_nat i) [0 ..< cnt]"
proof -
  have cnt: "unat (usize_as_u32 cnt) = cnt"
    using assms(3) by (simp add: usize_as_u32_def unat_of_nat take_bit_eq_mod)
  define hs where "hs = map (\<lambda>i. start_height + of_nat i) [0 ..< cnt]"
  obtain rs cs where issue: "issue_blocks H hs s = (rs, s')"
    and collect: "collect_blocks (ho_completion H rs) = Inr cs" and bs: "bs = sort_key fst cs"
    using assms(2) by (auto simp: get_block_batch_def cnt hs_def split: prod.splits sum.splits)
  note results = results_heights [OF issue_blocks_results [OF issue]]
  then have "\<forall>r\<in>set (ho_completion H rs). r \<noteq> Inr None"
    using mset_eq_setD [OF assms(1) [of rs]] by simp
  then have perm: "mset rs = mset (map (Inr \<circ> Some) cs)"
    using collect_blocks_Inr [OF collect] assms(1) [of rs] by simp
  have "\<forall>r\<in>set rs. \<exists>b. r = Inr (Some b)" using mset_eq_setD [OF perm] by auto
  then have rs: "map (fst \<circ> the \<circ> projr) rs = hs" using results by blast
  have "mset (map fst cs) = mset (map (fst \<circ> the \<circ> projr) (map (Inr \<circ> Some) cs :: (rpc_error + sourced_block option) list))" by (simp add: o_def)
  also have "\<dots> = mset hs" using perm rs by (metis mset_map)
  finally have "mset (map fst bs) = mset hs" by (simp add: bs)
  moreover have "sorted (map fst bs)" by (simp add: bs)
  moreover have "sorted hs" unfolding hs_def using assms(3) by (rule ascending_heights)
  ultimately show ?thesis unfolding hs_def by (metis properties_for_sort)
qed


text \<open>A node that knows a block at every height, and completes the requests backwards.\<close>

definition ex_http :: "nat http_ops" where
  "ex_http =
     \<lparr> ho_send = (\<lambda>body n. (Inr \<lparr>hr_status = 200, hr_status_text = ''200 OK'', hr_text = [],
         hr_json = Inr (JObject [(''result'', JString ''00'')])\<rparr>, Suc n)),
       ho_json_text = (\<lambda>v. []),
       ho_hex_decode = (\<lambda>s. Inr [0]),
       ho_deserialize = (\<lambda>bs. Inr \<lparr>bl_header = \<lparr>hd_version = 1, hd_prev_blockhash = [], hd_merkle_root = [],
         hd_time = 0, hd_bits = 0, hd_nonce = 0\<rparr>, bl_txdata = []\<rparr>),
       ho_completion = rev \<rparr>"


end
