(* ===== verification/BlockIndex.thy ===== *)
theory BlockIndex
  imports Models
begin

text \<open>
  Bitcoin Core's block index, read from LevelDB (\<open>src/src/parser/block_index.rs\<close>): the
  variable-length integers of its records, the record parser, and the scans that build the
  list of blocks ordered by height or the table of a height range.

  LevelDB itself is the parameter \<open>leveldb\<close>: what a fresh iterator yields, as the sequence of
  its \<open>advance\<close>/\<open>current\<close> pairs (\<open>None\<close> where \<open>current\<close> refuses an entry), and the point
  lookup \<open>get\<close>. The release build's wrapping addition of \<open>u32\<close> heights is kept.
\<close>

section \<open>Data\<close>

text \<open>The texts of parse errors, by the place that builds them.\<close>

datatype index_parse_msg =
    UnexpectedEnd
  | SizeTooLarge
  | VarintOverflow
  | VarintDecode index_parse_msg
  | NotOnMainChainOrNoData
  | InvalidHexHash
  | HashLength nat

datatype index_error =
    Database string
  | IndexIo string
  | IndexNotFound string
  | IndexParseError index_parse_msg
  | IndexBlockNotFound string
  | NoBlocksFound
  | NonSequentialHeights u32 u32

record block_index_entry =
  bie_height :: u32
  bie_hash :: string
  bie_prev_hash :: string
  bie_file_number :: u32
  bie_file_offset :: u64
  bie_block_size :: u32
  bie_tx_count :: u32
  bie_status :: u64

type_synonym ldb_item = "(u8 list \<times> u8 list) option"

record leveldb =
  ldb_new_iter :: "string + ldb_item list"
  ldb_get :: "u8 list \<Rightarrow> u8 list option"

text \<open>The environment of a reader: LevelDB and the \<open>hex\<close> crate.\<close>

record index_env =
  ie_db :: leveldb
  ie_hex_encode :: "u8 list \<Rightarrow> string"
  ie_hex_decode :: "string \<Rightarrow> u8 list option"

text \<open>Opening: the \<open>index\<close> directory must exist and LevelDB must open it.\<close>

definition block_index_new ::
  "(string \<Rightarrow> bool) \<Rightarrow> (string \<Rightarrow> string + leveldb) \<Rightarrow> string \<Rightarrow> index_error + leveldb" where
  "block_index_new path_exists db_open blocks_dir =
     (let index_path = blocks_dir @ ''/index''
      in if \<not> path_exists index_path then Inl (IndexNotFound index_path)
         else case db_open index_path of
                Inl e \<Rightarrow> Inl (Database e)
              | Inr db \<Rightarrow> Inr db)"

section \<open>Variable-length integers\<close>

fun decode_varint_from :: "u64 \<Rightarrow> usize \<Rightarrow> u8 list \<Rightarrow> index_parse_msg + (u64 \<times> usize)" where
  "decode_varint_from n bytes_read [] = Inl UnexpectedEnd"
| "decode_varint_from n bytes_read (ch # rest) =
     (if n > drop_bit 7 (- 1) then Inl SizeTooLarge
      else
        let n' = push_bit 7 n OR ucast (ch AND 0x7F)
        in if ch AND 0x80 > 0
           then if n' = - 1 then Inl VarintOverflow
                else decode_varint_from (n' + 1) (bytes_read + 1) rest
           else Inr (n', bytes_read + 1))"

definition decode_varint :: "u8 list \<Rightarrow> index_parse_msg + (u64 \<times> usize)" where
  "decode_varint bs = decode_varint_from 0 0 bs"

section \<open>Block records\<close>

text \<open>The closure \<open>read_varint\<close>: the slice from the cursor is decoded and the cursor advances
  past it.\<close>

definition read_varint :: "u8 list \<Rightarrow> usize \<Rightarrow> index_error + (u64 \<times> usize)" where
  "read_varint bs cursor =
     (case decode_varint (drop cursor bs) of
        Inl e \<Rightarrow> Inl (IndexParseError (VarintDecode e))
      | Inr (v, n) \<Rightarrow> Inr (v, cursor + n))"

definition BLOCK_HAVE_DATA :: u64 where "BLOCK_HAVE_DATA = 8"
definition BLOCK_VALID_CHAIN :: u64 where "BLOCK_VALID_CHAIN = 4"

definition parse_block_record :: "string \<Rightarrow> u8 list \<Rightarrow> index_error + block_index_entry" where
  "parse_block_record hash bs =
     (case read_varint bs 0 of Inl e \<Rightarrow> Inl e | Inr (_, c1) \<Rightarrow>
      case read_varint bs c1 of Inl e \<Rightarrow> Inl e | Inr (h, c2) \<Rightarrow>
      case read_varint bs c2 of Inl e \<Rightarrow> Inl e | Inr (status, c3) \<Rightarrow>
      case read_varint bs c3 of Inl e \<Rightarrow> Inl e | Inr (txs, c4) \<Rightarrow>
      if status AND (BLOCK_VALID_CHAIN OR BLOCK_HAVE_DATA) = 0
      then Inl (IndexParseError NotOnMainChainOrNoData)
      else
        case read_varint bs c4 of Inl e \<Rightarrow> Inl e | Inr (file_num, c5) \<Rightarrow>
        case read_varint bs c5 of Inl e \<Rightarrow> Inl e | Inr (file_off, c6) \<Rightarrow>
        Inr \<lparr> bie_height = ucast h, bie_hash = hash, bie_prev_hash = [],
              bie_file_number = ucast file_num, bie_file_offset = file_off,
              bie_block_size = 0, bie_tx_count = ucast txs, bie_status = status \<rparr>)"

section \<open>Scanning\<close>

text \<open>A block key is the byte \<open>b\<close> followed by a 32-byte hash.\<close>

definition is_block_key :: "u8 list \<Rightarrow> bool" where
  "is_block_key key \<longleftrightarrow> length key = 33 \<and> hd key = 0x62"

definition entry_of :: "index_env \<Rightarrow> u8 list \<times> u8 list \<Rightarrow> block_index_entry option" where
  "entry_of E kv =
     (if is_block_key (fst kv) then
        case parse_block_record (ie_hex_encode E (tl (fst kv))) (snd kv) of
          Inl _ \<Rightarrow> None
        | Inr e \<Rightarrow> Some e
      else None)"

fun scan_blocks :: "index_env \<Rightarrow> ldb_item list \<Rightarrow> block_index_entry list" where
  "scan_blocks E [] = []"
| "scan_blocks E (None # items) = []"
| "scan_blocks E (Some kv # items) =
     (case entry_of E kv of
        None \<Rightarrow> scan_blocks E items
      | Some e \<Rightarrow> e # scan_blocks E items)"

fun check_sequential :: "block_index_entry list \<Rightarrow> (u32 \<times> u32) option" where
  "check_sequential (a # b # es) =
     (if bie_height b \<noteq> bie_height a + 1 then Some (bie_height a, bie_height b)
      else check_sequential (b # es))"
| "check_sequential _ = None"

definition sort_and_verify :: "block_index_entry list \<Rightarrow> index_error + block_index_entry list" where
  "sort_and_verify found =
     (if found = [] then Inl NoBlocksFound
      else
        let chain = sort_key bie_height found
        in case check_sequential chain of
             Some (a, b) \<Rightarrow> Inl (NonSequentialHeights a b)
           | None \<Rightarrow> Inr chain)"

definition get_main_chain :: "index_env \<Rightarrow> index_error + block_index_entry list" where
  "get_main_chain E =
     (case ldb_new_iter (ie_db E) of
        Inl e \<Rightarrow> Inl (Database e)
      | Inr items \<Rightarrow> sort_and_verify (scan_blocks E items))"

text \<open>\<open>get_main_chain_up_to\<close> keeps an entry while it scans; its early-exit branch is empty.\<close>

fun scan_blocks_up_to :: "index_env \<Rightarrow> u32 \<Rightarrow> ldb_item list \<Rightarrow> block_index_entry list" where
  "scan_blocks_up_to E max_height [] = []"
| "scan_blocks_up_to E max_height (None # items) = []"
| "scan_blocks_up_to E max_height (Some kv # items) =
     (case entry_of E kv of
        None \<Rightarrow> scan_blocks_up_to E max_height items
      | Some e \<Rightarrow>
          if bie_height e \<le> max_height then e # scan_blocks_up_to E max_height items
          else scan_blocks_up_to E max_height items)"

definition get_main_chain_up_to :: "index_env \<Rightarrow> u32 \<Rightarrow> index_error + block_index_entry list" where
  "get_main_chain_up_to E max_height =
     (case ldb_new_iter (ie_db E) of
        Inl e \<Rightarrow> Inl (Database e)
      | Inr items \<Rightarrow> sort_and_verify (scan_blocks_up_to E max_height items))"

text \<open>The table of a height range: a \<open>HashMap\<close>, as an association list without duplicate keys,
  and the exit as soon as it holds as many heights as the range.\<close>

type_synonym height_map = "(u32 \<times> block_index_entry) list"

fun load_batch_scan :: 
  "index_env \<Rightarrow> u32 \<Rightarrow> u32 \<Rightarrow> usize \<Rightarrow> ldb_item list \<Rightarrow> height_map \<Rightarrow> height_map" where
  "load_batch_scan E start_height end_height target_count [] batch = batch"
| "load_batch_scan E start_height end_height target_count (None # items) batch = batch"
| "load_batch_scan E start_height end_height target_count (Some kv # items) batch =
     (case entry_of E kv of
        None \<Rightarrow> load_batch_scan E start_height end_height target_count items batch
      | Some e \<Rightarrow>
          if start_height \<le> bie_height e \<and> bie_height e \<le> end_height then
            let batch' = AList.update (bie_height e) e batch
            in if target_count \<le> length batch' then batch'
               else load_batch_scan E start_height end_height target_count items batch'
          else load_batch_scan E start_height end_height target_count items batch)"

definition load_batch_index :: "index_env \<Rightarrow> u32 \<Rightarrow> u32 \<Rightarrow> index_error + height_map" where
  "load_batch_index E start_height end_height =
     (let target_count = unat (saturating_sub end_height start_height + 1)
      in case ldb_new_iter (ie_db E) of
           Inl e \<Rightarrow> Inl (Database e)
         | Inr items \<Rightarrow> Inr (load_batch_scan E start_height end_height target_count items []))"

fun highest_scan :: 
  "index_env \<Rightarrow> ldb_item list \<Rightarrow> (u32 \<times> string) option \<Rightarrow> (u32 \<times> string) option" where
  "highest_scan E [] best = best"
| "highest_scan E (None # items) best = best"
| "highest_scan E (Some kv # items) best =
     (case entry_of E kv of
        None \<Rightarrow> highest_scan E items best
      | Some e \<Rightarrow>
          highest_scan E items
            (case best of
               None \<Rightarrow> Some (bie_height e, bie_hash e)
             | Some (current_max, _) \<Rightarrow>
                 if bie_height e > current_max then Some (bie_height e, bie_hash e) else best))"

definition get_best_block_hash_fallback :: "index_env \<Rightarrow> index_error + string" where
  "get_best_block_hash_fallback E =
     (let scan =
        (case ldb_new_iter (ie_db E) of
           Inl e \<Rightarrow> Inl (Database e)
         | Inr items \<Rightarrow>
             case highest_scan E items None of
               Some (_, hash) \<Rightarrow> Inr hash
             | None \<Rightarrow> Inl NoBlocksFound)
      in case ldb_get (ie_db E) [0x52] of
           Some value \<Rightarrow> if length value = 32 then Inr (ie_hex_encode E value) else scan
         | None \<Rightarrow> scan)"

definition get_block_at_height :: "index_env \<Rightarrow> u32 \<Rightarrow> index_error + block_index_entry option" where
  "get_block_at_height E h =
     (case get_main_chain E of
        Inl e \<Rightarrow> Inl e
      | Inr chain \<Rightarrow> Inr (find (\<lambda>e. bie_height e = h) chain))"

definition get_block_by_hash :: "index_env \<Rightarrow> string \<Rightarrow> index_error + block_index_entry option" where
  "get_block_by_hash E hash =
     (case ie_hex_decode E hash of
        None \<Rightarrow> Inl (IndexParseError InvalidHexHash)
      | Some hash_bytes \<Rightarrow>
          if length hash_bytes \<noteq> 32 then Inl (IndexParseError (HashLength (length hash_bytes)))
          else case ldb_get (ie_db E) (0x62 # hash_bytes) of
                 None \<Rightarrow> Inr None
               | Some value \<Rightarrow>
                   case parse_block_record hash value of
                     Inl e \<Rightarrow> Inl e
                   | Inr e \<Rightarrow> Inr (Some e))"

section \<open>The integer encoding\<close>

text \<open>Bitcoin Core's encoding, as the module header describes it: groups of seven bits from the
  most significant, a set high bit on all but the last, and each continued group counted from
  one. \<open>varint_prefix n\<close> holds the continued groups that accumulate to \<open>n\<close>.\<close>

function varint_prefix :: "nat \<Rightarrow> u8 list" where
  "varint_prefix n =
     (if n = 0 then []
      else varint_prefix ((n - 1) div 128) @ [word_of_nat (128 + (n - 1) mod 128)])"
  by pat_completeness auto
termination by (relation "measure id") auto

declare varint_prefix.simps [simp del]

definition varint_bytes :: "nat \<Rightarrow> u8 list" where
  "varint_bytes v = varint_prefix (v div 128) @ [word_of_nat (v mod 128)]"

lemma varint_prefix_0 [simp]: "varint_prefix 0 = []"
  by (simp add: varint_prefix.simps)

lemma varint_prefix_snoc:
  "varint_prefix (128 * m + c + 1) = varint_prefix m @ [word_of_nat (128 + c)]" if "c < 128"
  using that by (subst varint_prefix.simps) simp

lemma word_of_unat: "word_of_nat (unat w) = w"
  by simp

lemma unat_word_of_nat: "n < 2 ^ LENGTH('a::len) \<Longrightarrow> unat (word_of_nat n :: 'a word) = n"
  by (simp add: unat_of_nat take_bit_eq_mod)

lemma unat_u8_less: "unat (b :: u8) < 256"
  using unsigned_less [of b] by simp

lemma max_shift_eq: "drop_bit 7 (- 1 :: u64) = 0x1FFFFFFFFFFFFFF"
  by (simp add: mask_eq_exp_minus_1)

lemma not_too_large: "\<not> n > drop_bit 7 (- 1 :: u64) \<longleftrightarrow> unat n < 2 ^ 57"
  unfolding max_shift_eq not_less word_le_nat_alt by simp arith

lemma continuation_bit: "(ch AND 0x80 > 0) \<longleftrightarrow> 128 \<le> unat (ch :: u8)"
proof -
  have "(ch AND 0x80 > 0) \<longleftrightarrow> bit ch 7"
    using and_exp_eq_0_iff_not_bit [of ch 7] by (simp add: word_gt_0)
  also have "\<dots> \<longleftrightarrow> odd (unat ch div 2 ^ 7)" 
    by (simp only: bit_iff_odd [symmetric]) (simp add: bit_unsigned_iff)
  also have "\<dots> \<longleftrightarrow> 128 \<le> unat ch"
  proof -
    have "unat ch div 2 ^ 7 < 2" using unat_u8_less [of ch] by (simp add: less_mult_imp_div_less)
    then show ?thesis by (cases "unat ch div 2 ^ 7") (auto simp: div_eq_0_iff)
  qed
  finally show ?thesis .
qed

lemma accumulate_unat:
  assumes "unat (n :: u64) < 2 ^ 57"
  shows "unat (push_bit 7 n OR ucast ((ch :: u8) AND 0x7F)) = 128 * unat n + unat ch mod 128"
proof -
  let ?c = "ucast (ch AND 0x7F) :: u64"
  have m: "(0x7F :: u8) = mask 7" by (simp add: mask_eq_exp_minus_1)
  have c: "?c = take_bit 7 (ucast ch)"
    unfolding m by (simp add: unsigned_take_bit_eq flip: take_bit_eq_mask)
  have c': "unat ?c = unat ch mod 128"
    unfolding c unsigned_take_bit_eq unsigned_ucast_eq
    using unat_u8_less [of ch] by (simp add: take_bit_eq_mod)
  have "push_bit 7 n AND ?c = 0"
    unfolding c by (rule bit_word_eqI) (simp add: bit_push_bit_iff bit_take_bit_iff bit_and_iff)
  then have "push_bit 7 n OR ?c = push_bit 7 n + ?c"
    using word_plus_and_or [of "push_bit 7 n" ?c] by simp
  moreover have "unat (push_bit 7 n) = 128 * unat n"
    using assms unfolding unsigned_push_bit_eq by (simp add: push_bit_eq_mult take_bit_eq_mod)
  moreover have "unat ch mod 128 < 128" by simp
  ultimately show ?thesis using assms c' by (simp add: unat_add_lem [THEN iffD1])
qed

text \<open>One step of the decoder, over naturals.\<close>

lemma decode_varint_step:
  assumes "unat n < 2 ^ 57"
  shows "decode_varint_from n k (ch # rest) =
           (let v = 128 * unat n + unat ch mod 128
            in if 128 \<le> unat ch
               then if v = 2 ^ 64 - 1 then Inl VarintOverflow
                    else decode_varint_from (word_of_nat (v + 1)) (k + 1) rest
               else Inr (word_of_nat v, k + 1))"
proof -
  let ?w = "push_bit 7 n OR ucast (ch AND 0x7F)"
  let ?v = "128 * unat n + unat ch mod 128"
  have w: "word_of_nat ?v = ?w"
    using accumulate_unat [OF assms, of ch] by (metis word_of_unat)
  then have w1: "word_of_nat (?v + 1) = ?w + 1" by (metis of_nat_1 of_nat_add)
  have max: "?v = 2 ^ 64 - 1 \<longleftrightarrow> ?w = - 1"
    using accumulate_unat [OF assms, of ch] unfolding word_unat_eq_iff
    by (simp add: unsigned_minus_1_eq_mask mask_eq_exp_minus_1)
  have small: "(n > drop_bit 7 (- 1)) = False" using assms not_too_large [of n] by blast
  show ?thesis
    by (simp only: decode_varint_from.simps Let_def small continuation_bit if_False w w1 max)
qed

declare decode_varint_from.simps(2) [simp del]

lemma decode_varint_small: "decode_varint_from n k (ch # bs) = Inr r \<Longrightarrow> unat n < 2 ^ 57"
proof (rule ccontr)
  assume "decode_varint_from n k (ch # bs) = Inr r" and "\<not> unat n < 2 ^ 57"
  moreover from this have "(n > drop_bit 7 (- 1)) = True" using not_too_large [of n] by blast
  ultimately show False by (simp only: decode_varint_from.simps(2) if_True sum.distinct)
qed

lemma decode_varint_prefix:
  "decode_varint_from 0 0 (varint_prefix (unat n) @ rest) =
     decode_varint_from n (length (varint_prefix (unat n))) rest" for n :: u64
proof (induction "unat n" arbitrary: n rest rule: less_induct)
  case less
  show ?case
  proof (cases "unat n = 0")
    case True
    then show ?thesis by (simp add: unat_eq_zero)
  next
    case False
    define m c where "m = (unat n - 1) div 128" and "c = (unat n - 1) mod 128"
    have n: "unat n = 128 * m + c + 1" "c < 128" using False by (simp_all add: m_def c_def)
    have bound: "unat n < 2 ^ 64" using unsigned_less [of n] by simp
    then have m: "m < 2 ^ 57" using n by simp
    then have um: "unat (word_of_nat m :: u64) = m" by (simp add: unat_word_of_nat)
    have "decode_varint_from 0 0 (varint_prefix m @ (word_of_nat (128 + c) # rest)) =
            decode_varint_from (word_of_nat m) (length (varint_prefix m)) (word_of_nat (128 + c) # rest)"
      using less [of "word_of_nat m"] n um by simp
    moreover have "unat (word_of_nat (128 + c) :: u8) = 128 + c"
      using n by (intro unat_word_of_nat) simp
    moreover have "word_of_nat (128 * m + c + 1) = n" using n(1) by (metis word_of_unat)
    moreover have "128 * m + c \<noteq> 2 ^ 64 - 1" using bound n by simp
    ultimately show ?thesis
      using n m um by (simp only: varint_prefix_snoc decode_varint_step) (simp add: Let_def)
  qed
qed

text \<open>The encoding of a 64-bit value is read back, whatever follows it.\<close>

lemma decode_varint_encoding:
  "decode_varint (varint_bytes (unat v) @ rest) = Inr (v, length (varint_bytes (unat v)))"
  for v :: u64
proof -
  let ?m = "unat v div 128"
  have "unat v < 2 ^ 64" using unsigned_less [of v] by simp
  then have m: "?m < 2 ^ 57" by (simp add: less_mult_imp_div_less)
  then have um: "unat (word_of_nat ?m :: u64) = ?m" by (intro unat_word_of_nat) simp
  have c: "unat (word_of_nat (unat v mod 128) :: u8) = unat v mod 128"
    by (intro unat_word_of_nat) (simp add: order.strict_trans [OF mod_less_divisor])
  have "decode_varint (varint_bytes (unat v) @ rest) =
          decode_varint_from 0 0 (varint_prefix (unat (word_of_nat ?m :: u64)) @ 
            (word_of_nat (unat v mod 128) # rest))"
    by (simp add: decode_varint_def varint_bytes_def um del: of_nat_mod)
  also have "\<dots> = Inr (word_of_nat (128 * ?m + unat v mod 128), length (varint_prefix ?m) + 1)"
    unfolding decode_varint_prefix
    using m um c mod_less_divisor [of 128 "unat v"] 
    by (simp only: decode_varint_step Let_def) (simp add: not_le del: mod_less_divisor)
  also have "128 * ?m + unat v mod 128 = unat v" by simp
  finally show ?thesis by (simp add: varint_bytes_def)
qed

text \<open>Whatever the decoder accepts is the encoding of its result.\<close>

lemma decode_varint_from_canonical:
  "decode_varint_from n k bs = Inr (v, j) \<Longrightarrow>
     \<exists>used rest. bs = used @ rest \<and> j = k + length used \<and>
                 varint_prefix (unat n) @ used = varint_bytes (unat v)"
proof (induction bs arbitrary: n k)
  case (Cons ch bs)
  have small: "unat n < 2 ^ 57"
    using Cons.prems by (rule decode_varint_small)
  let ?v = "128 * unat n + unat ch mod 128"
  have ch: "unat ch mod 128 < 128" by simp
  have less: "?v < 2 ^ 64" using small ch by simp
  show ?case
  proof (cases "128 \<le> unat ch")
    case True
    with Cons.prems have v: "?v \<noteq> 2 ^ 64 - 1"
      and rec: "decode_varint_from (word_of_nat (?v + 1)) (k + 1) bs = Inr (v, j)"
      by (auto simp: decode_varint_step [OF small] Let_def split: if_splits)
    have u: "unat (word_of_nat (?v + 1) :: u64) = ?v + 1"
      using less v by (intro unat_word_of_nat) simp
    have "128 + unat ch mod 128 = unat ch"
      using True unat_u8_less [of ch] by (simp add: le_mod_geq)
    then have p: "varint_prefix (?v + 1) = varint_prefix (unat n) @ [ch]"
      using varint_prefix_snoc [OF ch, of "unat n"] word_of_unat [of ch] by metis
    from Cons.IH [OF rec] obtain used rest where
      "bs = used @ rest" "j = k + 1 + length used"
      "varint_prefix (?v + 1) @ used = varint_bytes (unat v)" unfolding u by blast
    then show ?thesis
      using p by - (rule exI [where x = "ch # used"], rule exI [where x = rest], simp)
  next
    case False
    with Cons.prems have v: "v = word_of_nat ?v" "j = k + 1"
      by (auto simp: decode_varint_step [OF small] Let_def)
    have u: "unat v = ?v" unfolding v(1) using less by (intro unat_word_of_nat) simp
    have "unat ch mod 128 = unat ch" using False by simp
    then have "varint_bytes (unat v) = varint_prefix (unat n) @ [ch]"
      unfolding u varint_bytes_def by (simp del: of_nat_add)
    then show ?thesis using v 
      by - (rule exI [where x = "[ch]"], rule exI [where x = bs], simp)
  qed
qed simp

text \<open>
  C22. The integers of the block index are read exactly: for every 64-bit value \<open>v\<close> and every
  byte string, \<open>decode_varint\<close> answers \<open>v\<close> with length \<open>k\<close> if and only if the first \<open>k\<close> bytes
  are the encoding of \<open>v\<close>. So every value has one encoding, of which no proper part is
  accepted, every encoding is read back with its own length, and everything else is an error.
\<close>

theorem decode_varint_exact:
  "decode_varint bs = Inr (v, k) \<longleftrightarrow> (\<exists>rest. bs = varint_bytes (unat v) @ rest) \<and>
                                       k = length (varint_bytes (unat v))"
proof
  assume "decode_varint bs = Inr (v, k)"
  from decode_varint_from_canonical [OF this [unfolded decode_varint_def]]
  show "(\<exists>rest. bs = varint_bytes (unat v) @ rest) \<and> k = length (varint_bytes (unat v))" by auto
qed (auto simp: decode_varint_encoding)

lemma read_varint_encoding:
  "drop c bs = varint_bytes (unat v) @ rest \<Longrightarrow>
     read_varint bs c = Inr (v, c + length (varint_bytes (unat v)))"
  by (simp add: read_varint_def decode_varint_encoding)

text \<open>
  A record written by Bitcoin Core, that is the encodings of its version, height, status,
  transaction count, file number and data offset, followed by anything, is parsed into those
  fields (the 32-bit ones truncated), provided its status has one of the two tested flags;
  with neither flag it is refused.
\<close>

lemma parse_block_record_encoding:
  "parse_block_record hash
     (concat (map (varint_bytes \<circ> unat) [version, h, status, txs, file_num, file_off]) @ rest) =
   (if status AND 12 = 0 then Inl (IndexParseError NotOnMainChainOrNoData)
    else Inr \<lparr> bie_height = ucast h, bie_hash = hash, bie_prev_hash = [],
               bie_file_number = ucast file_num, bie_file_offset = file_off,
               bie_block_size = 0, bie_tx_count = ucast txs, bie_status = status \<rparr>)"
  by (simp add: parse_block_record_def read_varint_encoding BLOCK_HAVE_DATA_def BLOCK_VALID_CHAIN_def)

section \<open>The chain and the range tables\<close>

abbreviation heights :: "block_index_entry list \<Rightarrow> nat list" where
  "heights es \<equiv> map (\<lambda>e. unat (bie_height e)) es"

text \<open>Consecutive heights, as the abstract content of a verified chain.\<close>

definition contiguous :: "block_index_entry list \<Rightarrow> bool" where
  "contiguous es \<longleftrightarrow> es = [] \<or> heights es = [hd (heights es) ..< hd (heights es) + length es]"

lemma contiguous_Nil [simp]: "contiguous []"
  and contiguous_single [simp]: "contiguous [e]"
  by (simp_all add: contiguous_def)

lemma contiguous_Cons2:
  "contiguous (a # b # es) \<longleftrightarrow> unat (bie_height b) = unat (bie_height a) + 1 \<and> contiguous (b # es)"
  by (auto simp add: contiguous_def upt_conv_Cons simp del: upt_Suc)

lemma unat_Suc_height: "a \<le> b \<Longrightarrow> b = a + 1 \<longleftrightarrow> unat b = unat a + 1" for a b :: u32
proof
  assume le: "a \<le> b" and eq: "b = a + 1"
  then have "1 + a \<noteq> 0"
    by (metis add.commute add_cancel_right_right word_le_0_iff zero_neq_one)
  then show "unat b = unat a + 1" by (simp add: eq unatSuc add.commute [of a])
qed (metis of_nat_1 of_nat_add word_of_unat)

lemma check_sequential_contiguous:
  "sorted (map bie_height es) \<Longrightarrow> check_sequential es = None \<longleftrightarrow> contiguous es"
proof (induction es rule: check_sequential.induct)
  case (1 a b es)
  then have "bie_height b = bie_height a + 1 \<longleftrightarrow> unat (bie_height b) = unat (bie_height a) + 1"
    by (intro unat_Suc_height) simp
  with 1 show ?case by (simp add: contiguous_Cons2)
qed simp_all

lemma contiguous_height_at:
  "contiguous es \<Longrightarrow> i < length es \<Longrightarrow> unat (bie_height (es ! i)) = unat (bie_height (hd es)) + i"
proof -
  assume c: "contiguous es" and i: "i < length es"
  define n where "n = hd (heights es)"
  have "heights es = [n ..< n + length es]" using c i by (auto simp: contiguous_def n_def)
  then have "heights es ! i = n + i" using i by simp
  moreover have "n = unat (bie_height (hd es))" using i by (cases es) (simp_all add: n_def)
  ultimately show ?thesis using i by simp
qed

lemma contiguous_distinct: "contiguous es \<Longrightarrow> distinct (heights es)"
  by (metis contiguous_def distinct.simps(1) distinct_upt list.simps(8))

lemma contiguous_sorted: "contiguous es \<Longrightarrow> sorted (map bie_height es)"
  unfolding sorted_iff_nth_mono
  by (simp add: word_le_nat_alt contiguous_height_at)

lemma contiguous_inj: "contiguous es \<Longrightarrow> inj_on bie_height (set es)"
  by (rule inj_onI) (metis contiguous_distinct distinct_map inj_onD)

text \<open>Sorting and verification succeed exactly when the entries can be arranged into
  consecutive heights, and answer that arrangement.\<close>

lemma sort_and_verify_iff:
  "sort_and_verify found = Inr chain \<longleftrightarrow> chain \<noteq> [] \<and> mset chain = mset found \<and> contiguous chain"
proof
  assume "sort_and_verify found = Inr chain"
  then have "found \<noteq> []" "chain = sort_key bie_height found" "check_sequential chain = None"
    by (auto simp: sort_and_verify_def Let_def split: if_splits option.splits)
  then show "chain \<noteq> [] \<and> mset chain = mset found \<and> contiguous chain"
    using check_sequential_contiguous [of chain] by (metis mset_sort mset_zero_iff sorted_sort_key)
next
  assume chain: "chain \<noteq> [] \<and> mset chain = mset found \<and> contiguous chain"
  then have "sort_key bie_height found = chain"
    by (metis contiguous_inj contiguous_sorted mset_eq_setD sort_key_inj_key_eq)
  moreover have "found \<noteq> []" using chain by auto
  moreover have "check_sequential chain = None"
    using chain contiguous_sorted check_sequential_contiguous by blast
  ultimately show "sort_and_verify found = Inr chain" by (simp add: sort_and_verify_def)
qed

lemma scan_blocks_up_to_filter:
  "scan_blocks_up_to E h items = filter (\<lambda>e. bie_height e \<le> h) (scan_blocks E items)"
  by (induction E h items rule: scan_blocks_up_to.induct) (auto split: option.split)


lemma get_main_chain_iff:
  "get_main_chain E = Inr chain \<longleftrightarrow>
     (\<exists>items. ldb_new_iter (ie_db E) = Inr items \<and> sort_and_verify (scan_blocks E items) = Inr chain)"
  by (auto simp: get_main_chain_def split: sum.splits)

lemma contiguous_filter_le:
  assumes "contiguous es"
  shows "contiguous (filter (\<lambda>e. bie_height e \<le> h) es)"
  using assms
proof (induction es rule: induct_list012)
  case (3 a b es)
  then have IH: "contiguous (filter (\<lambda>e. bie_height e \<le> h) (b # es))"
    by (simp add: contiguous_Cons2)
  have b: "unat (bie_height b) = unat (bie_height a) + 1" using 3 by (simp add: contiguous_Cons2)
  show ?case
  proof (cases "bie_height b \<le> h")
    case True
    then have "bie_height a \<le> h" using b by (simp add: word_le_nat_alt)
    then show ?thesis using True IH b by (simp add: contiguous_Cons2)
  next
    case False
    have "contiguous (b # es)" using 3 by (simp add: contiguous_Cons2)
    then have "sorted (map bie_height (b # es))" by (rule contiguous_sorted)
    then have "filter (\<lambda>e. bie_height e \<le> h) (b # es) = []"
      using False by (auto simp: filter_empty_conv dest: order_trans)
    then show ?thesis by simp
  qed
qed simp_all

text \<open>
  The bounded scan is the full scan cut at the requested height: if the whole index forms a
  chain, \<open>get_main_chain_up_to\<close> answers its entries up to \<open>max_height\<close>, or that there are no
  blocks when the chain starts above it.
\<close>

lemma main_chain_up_to_is_prefix:
  assumes "get_main_chain E = Inr chain"
  shows "get_main_chain_up_to E max_height =
           (let kept = filter (\<lambda>e. bie_height e \<le> max_height) chain
            in if kept = [] then Inl NoBlocksFound else Inr kept)"
proof -
  let ?P = "\<lambda>e. bie_height e \<le> max_height"
  obtain items where items: "ldb_new_iter (ie_db E) = Inr items"
    and chain: "mset chain = mset (scan_blocks E items)" "contiguous chain"
    using assms by (auto simp: get_main_chain_iff sort_and_verify_iff)
  have found: "mset (filter ?P chain) = mset (scan_blocks_up_to E max_height items)"
    using chain(1) by (simp add: scan_blocks_up_to_filter)
  show ?thesis
  proof (cases "filter ?P chain = []")
    case True
    then have "scan_blocks_up_to E max_height items = []" using found by simp
    then show ?thesis using True items 
      by (simp add: get_main_chain_up_to_def sort_and_verify_def)
  next
    case False
    then have "sort_and_verify (scan_blocks_up_to E max_height items) = Inr (filter ?P chain)"
      using found chain by (simp add: sort_and_verify_iff contiguous_filter_le)
    then show ?thesis using False items by (simp add: get_main_chain_up_to_def Let_def)
  qed
qed

text \<open>
  A stale block is fatal: if two entries of the index have the same height, neither of them
  is chosen, and \<open>get_main_chain\<close> fails with a height error.
\<close>

lemma main_chain_rejects_forks:
  assumes "ldb_new_iter (ie_db E) = Inr items"
    and "\<not> distinct (map bie_height (scan_blocks E items))"
  shows "\<exists>a b. get_main_chain E = Inl (NonSequentialHeights a b)"
proof -
  let ?found = "scan_blocks E items"
  have "sort_and_verify ?found \<noteq> Inr chain" for chain
  proof
    assume "sort_and_verify ?found = Inr chain"
    then have "mset ?found = mset chain" "contiguous chain" by (simp_all add: sort_and_verify_iff)
    then have "distinct (map bie_height ?found)"
      by (metis contiguous_inj distinct_map contiguous_distinct mset_eq_imp_distinct_iff mset_eq_setD)
    with assms show False by simp
  qed
  moreover have "?found \<noteq> []" using assms(2) by auto
  ultimately show ?thesis using assms(1)
    by (cases "check_sequential (sort_key bie_height ?found)")
      (auto simp: get_main_chain_def sort_and_verify_def Let_def)
qed

subsection \<open>Range tables\<close>

lemma card_height_range: "s \<le> e \<Longrightarrow> card {s .. e :: u32} = unat e - unat s + 1"
proof -
  assume le: "s \<le> e"
  have "unat ` {s .. e} = {unat s .. unat e}"
  proof (intro equalityI subsetI)
    fix n assume n: "n \<in> {unat s .. unat e}"
    have "unat e < 2 ^ 32" using unsigned_less [of e] by simp
    then have "unat (word_of_nat n :: u32) = n" using n by (intro unat_word_of_nat) simp
    then have "word_of_nat n \<in> {s .. e}" "n = unat (word_of_nat n :: u32)"
      using n by (simp_all add: word_le_nat_alt)
    then show "n \<in> unat ` {s .. e}" by (rule image_eqI [rotated])
  qed (auto simp: word_le_nat_alt)
  moreover have "card (unat ` {s .. e}) = card {s .. e}"
    by (rule card_image) (simp add: inj_on_def word_unat_eq_iff)
  ultimately show ?thesis using le by (simp add: word_le_nat_alt Suc_diff_le)
qed

lemma find_by_height:
  "find (\<lambda>e. bie_height e = h) es = map_of (map (\<lambda>e. (bie_height e, e)) es) h"
  by (induction es) simp_all

lemma find_by_height_perm:
  assumes "mset es = mset es'" and "distinct (map bie_height es)"
  shows "find (\<lambda>e. bie_height e = h) es = find (\<lambda>e. bie_height e = h) es'"
proof -
  let ?kv = "\<lambda>e. (bie_height e, e)"
  have "mset (map bie_height es) = mset (map bie_height es')" using assms(1) by simp
  then have "distinct (map bie_height es')" using assms(2) by (metis mset_eq_imp_distinct_iff)
  moreover have "set (map ?kv es) = set (map ?kv es')"
    using mset_eq_setD [OF assms(1)] by simp
  ultimately have "map_of (map ?kv es) = map_of (map ?kv es')"
    using assms(2) by (intro map_of_inject_set [THEN iffD2]) (simp_all add: o_def)
  then show ?thesis by (simp add: find_by_height)
qed

text \<open>The scan of a range as a loop over the entries. The early exit is safe: once the table has
  as many heights as the range it has all of them, and no later entry can have one.\<close>

fun table_loop :: "u32 \<Rightarrow> u32 \<Rightarrow> usize \<Rightarrow> block_index_entry list \<Rightarrow> height_map \<Rightarrow> height_map" where
  "table_loop s e t [] batch = batch"
| "table_loop s e t (x # xs) batch =
     (if s \<le> bie_height x \<and> bie_height x \<le> e then
        let batch' = AList.update (bie_height x) x batch
        in if t \<le> length batch' then batch' else table_loop s e t xs batch'
      else table_loop s e t xs batch)"

lemma load_batch_scan_distinct:
  "distinct (map fst batch) \<Longrightarrow> distinct (map fst (load_batch_scan E s e n items batch))"
  by (induction E s e n items batch rule: load_batch_scan.induct)
    (auto simp: Let_def AList.distinct_update split: option.splits)

lemma load_batch_scan_loop:
  "load_batch_scan E s e t items batch = table_loop s e t (scan_blocks E items) batch"
  by (induction E s e t items batch rule: load_batch_scan.induct) 
    (auto split: option.split simp: Let_def)

lemma map_of_table_loop:
  assumes "distinct (map fst batch)" "fst ` set batch \<subseteq> {s .. e}" 
    and "distinct (map bie_height xs)" "bie_height ` set xs \<inter> fst ` set batch = {}"
    and t: "t = card {s .. e}"
  shows "map_of (table_loop s e t xs batch) h =
       (case map_of batch h of
          Some x \<Rightarrow> Some x
        | None \<Rightarrow> if s \<le> h \<and> h \<le> e then find (\<lambda>x. bie_height x = h) xs else None)"
  using assms(1-4)
proof (induction xs arbitrary: batch)
  case (Cons x xs)
  let ?b = "AList.update (bie_height x) x batch"
  have keys: "fst ` set ?b = insert (bie_height x) (fst ` set batch)"
    by (simp add: dom_map_of_conv_image_fst [symmetric] update_conv')
  have dist: "distinct (map fst ?b)" using Cons.prems(1) by (rule distinct_update)
  have new: "map_of batch (bie_height x) = None" 
    using Cons.prems(4) by (simp add: map_of_eq_None_iff)
  have later: "bie_height x \<notin> bie_height ` set xs" and rest: "distinct (map bie_height xs)"
    using Cons.prems(3) by simp_all
  show ?case
  proof (cases "s \<le> bie_height x \<and> bie_height x \<le> e")
    case False
    then have "map_of (table_loop s e t (x # xs) batch) h = map_of (table_loop s e t xs batch) h"
      by (simp only: table_loop.simps if_False)
    then show ?thesis using Cons False by (auto split: option.split)
  next
    case True
    have sub: "fst ` set ?b \<subseteq> {s .. e}" using keys True Cons.prems(2) by simp
    have disj: "bie_height ` set xs \<inter> fst ` set ?b = {}" using keys later Cons.prems(4) by auto
    show ?thesis
    proof (cases "t \<le> length ?b")
      case full: True
      have "card (fst ` set ?b) = length ?b"
        using dist by (metis distinct_card length_map list.set_map)
      then have "fst ` set ?b = {s .. e}" using sub full t by (intro card_seteq) simp_all
      then have "find (\<lambda>x. bie_height x = h) xs = None" if "s \<le> h \<and> h \<le> e"
        using disj that by (auto simp: find_None_iff)
      then show ?thesis using True full new by (auto simp: update_conv' Let_def split: option.split)
    next
      case False
      then have "map_of (table_loop s e t (x # xs) batch) h = map_of (table_loop s e t xs ?b) h"
        using True by (simp add: Let_def)
      also have "\<dots> = (case map_of ?b h of Some x \<Rightarrow> Some x
          | None \<Rightarrow> if s \<le> h \<and> h \<le> e then find (\<lambda>x. bie_height x = h) xs else None)"
        by (rule Cons.IH) (rule dist sub rest disj)+
      finally show ?thesis using True new by (auto simp: update_conv' split: option.split)
    qed
  qed
qed (simp split: option.split)

lemma main_chain_find:
  assumes "get_main_chain E = Inr chain" and "ldb_new_iter (ie_db E) = Inr items"
  shows "distinct (map bie_height (scan_blocks E items))"
    and "find (\<lambda>e. bie_height e = h) (scan_blocks E items) = find (\<lambda>e. bie_height e = h) chain"
proof -
  have chain: "mset chain = mset (scan_blocks E items)" "contiguous chain"
    using assms by (auto simp: get_main_chain_iff sort_and_verify_iff)
  have "distinct (map bie_height chain)"
    using contiguous_inj [OF chain(2)] contiguous_distinct [OF chain(2)] by (auto simp: distinct_map)
  moreover have "mset (map bie_height chain) = mset (map bie_height (scan_blocks E items))"
    using chain(1) by simp
  ultimately show "distinct (map bie_height (scan_blocks E items))"
    by (metis mset_eq_imp_distinct_iff)
  show "find (\<lambda>e. bie_height e = h) (scan_blocks E items) = find (\<lambda>e. bie_height e = h) chain"
    using \<open>distinct (map bie_height chain)\<close> chain(1) by (intro find_by_height_perm [symmetric])
qed

lemma range_table_exact:
  assumes "get_main_chain E = Inr chain" and "s \<le> e" and "\<not> (s = 0 \<and> e = - 1)"
  shows "\<exists>batch. load_batch_index E s e = Inr batch \<and>
           (\<forall>h. map_of batch h = (if s \<le> h \<and> h \<le> e then find (\<lambda>x. bie_height x = h) chain else None))"
proof -
  obtain items where items: "ldb_new_iter (ie_db E) = Inr items"
    using assms(1) by (auto simp: get_main_chain_iff)
  have diff: "unat (e - s) = unat e - unat s" using assms(2) by (simp add: unat_sub word_le_nat_alt)
  have "1 + (e - s) \<noteq> 0"
  proof
    assume "1 + (e - s) = 0"
    then have "e - s = - 1" by (metis add.commute add_eq_0_iff)
    then have "unat e - unat s = 4294967295" 
      using diff by (simp add: unsigned_minus_1_eq_mask mask_eq_exp_minus_1)
    moreover have "unat e < 4294967296" using unsigned_less [of e] by simp
    ultimately have "unat s = 0 \<and> unat e = 4294967295" by arith
    then show False using assms(3) 
      by (simp add: word_unat_eq_iff unsigned_minus_1_eq_mask mask_eq_exp_minus_1)
  qed
  then have "unat (saturating_sub e s + 1) = card {s .. e}"
    using assms(2) diff by (simp add: saturating_sub_def card_height_range unatSuc add.commute [of _ 1])
  then show ?thesis
    using items main_chain_find [OF assms(1) items]
    by (simp add: load_batch_index_def load_batch_scan_loop map_of_table_loop)
qed

text \<open>
  C24. The single-scan table of a height range is the chain restricted to the range, although the
  scan stops as soon as it has counted enough heights: every height of the range is mapped to
  the chain's entry of that height if there is one, and no other height is in the table. Only
  the range of all heights is excluded, whose size does not fit 32 bits.
\<close>

theorem range_table_agrees:
  assumes "get_main_chain E = Inr chain" and "s \<le> e" and "\<not> (s = 0 \<and> e = - 1)"
  shows "\<exists>batch. load_batch_index E s e = Inr batch \<and>
           (\<forall>h. map_of batch h = (if s \<le> h \<and> h \<le> e then find (\<lambda>x. bie_height x = h) chain else None))"
  using assms by (rule range_table_exact)

subsection \<open>Lookups\<close>

lemma highest_scan_fold:
  "highest_scan E items best =
     fold (\<lambda>e b. case b of None \<Rightarrow> Some (bie_height e, bie_hash e)
               | Some (m, _) \<Rightarrow> if bie_height e > m then Some (bie_height e, bie_hash e) else b)
       (scan_blocks E items) best"
  by (induction E items best rule: highest_scan.induct) (auto split: option.split)

lemma highest_of_entries:
  "fold (\<lambda>e b. case b of None \<Rightarrow> Some (bie_height e, bie_hash e)
               | Some (m, _) \<Rightarrow> if bie_height e > m then Some (bie_height e, bie_hash e) else b)
     es (Some (bie_height x, bie_hash x)) = r \<Longrightarrow>
   \<exists>y\<in>set (x # es). r = Some (bie_height y, bie_hash y) \<and>
      (\<forall>z\<in>set (x # es). bie_height z \<le> bie_height y)"
proof (induction es arbitrary: x)
  case (Cons e es)
  show ?case
  proof (cases "bie_height e > bie_height x")
    case True
    with Cons.prems obtain y where y: "y \<in> set (e # es)" "r = Some (bie_height y, bie_hash y)"
      "\<forall>z\<in>set (e # es). bie_height z \<le> bie_height y" using Cons.IH [of e] by auto
    moreover have "bie_height x \<le> bie_height y" using True y(3) by (auto intro: order.strict_implies_order less_le_trans)
    ultimately show ?thesis by auto
  next
    case False
    with Cons.prems obtain y where y: "y \<in> set (x # es)" "r = Some (bie_height y, bie_hash y)"
      "\<forall>z\<in>set (x # es). bie_height z \<le> bie_height y" using Cons.IH [of x] by auto
    moreover have "bie_height e \<le> bie_height y" using False y(3) by (auto simp: not_less intro: order_trans)
    ultimately show ?thesis by auto
  qed
qed simp

lemma sorted_le_last: "sorted (map f xs) \<Longrightarrow> x \<in> set xs \<Longrightarrow> f x \<le> f (last xs)"
  by (induction xs) auto

text \<open>
  Without a usable tip record the scan finds the tip: if the index forms a chain, the hash it
  answers is that of the chain's last entry.
\<close>

lemma best_block_is_tip:
  assumes "get_main_chain E = Inr chain" and "ldb_get (ie_db E) [0x52] = None"
  shows "get_best_block_hash_fallback E = Inr (bie_hash (last chain))"
proof -
  obtain items where items: "ldb_new_iter (ie_db E) = Inr items"
    and chain: "chain \<noteq> []" "mset chain = mset (scan_blocks E items)" "contiguous chain"
    using assms by (auto simp: get_main_chain_iff sort_and_verify_iff)
  then obtain x es where es: "scan_blocks E items = x # es" by (cases "scan_blocks E items") auto
  obtain y where y: "y \<in> set (x # es)" "\<forall>z\<in>set (x # es). bie_height z \<le> bie_height y"
    and scan: "highest_scan E items None = Some (bie_height y, bie_hash y)"
    using highest_of_entries [of es x] by (auto simp: highest_scan_fold es)
  have same: "set chain = set (x # es)" using mset_eq_setD [OF chain(2)] es by simp
  have "bie_height y \<le> bie_height (last chain)"
    using contiguous_sorted [OF chain(3)] y(1) same by (intro sorted_le_last) simp_all
  moreover have "last chain \<in> set (x # es)" using chain(1) same last_in_set by blast
  then have "bie_height (last chain) \<le> bie_height y" using y(2) by blast
  ultimately have "bie_height y = bie_height (last chain)" by (rule antisym)
  then have "y = last chain" 
    using y(1) same last_in_set [OF chain(1)] 
    by (intro inj_onD [OF contiguous_inj [OF chain(3)]]) simp_all
  then show ?thesis using items scan assms(2) by (simp add: get_best_block_hash_fallback_def)
qed

lemma entry_of_hash: "entry_of E kv = Some e \<Longrightarrow> 
    is_block_key (fst kv) \<and> bie_hash e = ie_hex_encode E (tl (fst kv)) \<and>
    parse_block_record (bie_hash e) (snd kv) = Inr e"
  by (auto simp: entry_of_def parse_block_record_def split: if_splits sum.splits)

lemma in_scan_blocks: "e \<in> set (scan_blocks E items) \<Longrightarrow> \<exists>kv. Some kv \<in> set items \<and> entry_of E kv = Some e"
  by (induction E items rule: scan_blocks.induct) (auto split: option.splits)

text \<open>What is relied on of LevelDB's point lookup and of the \<open>hex\<close> crate: a listed pair is
  found under its key, and decoding inverts encoding.\<close>

definition index_env_ok :: "index_env \<Rightarrow> bool" where
  "index_env_ok E \<longleftrightarrow>
     (\<forall>items k v. ldb_new_iter (ie_db E) = Inr items \<longrightarrow> Some (k, v) \<in> set items \<longrightarrow>
        ldb_get (ie_db E) k = Some v) \<and>
     (\<forall>bs. ie_hex_decode E (ie_hex_encode E bs) = Some bs)"

text \<open>
  Lookup by hash and lookup by height agree with the chain: every entry of it is found under
  its own hash, and at its own height.
\<close>

lemma chain_entries_found:
  assumes "get_main_chain E = Inr chain" and "index_env_ok E" and "e \<in> set chain"
  shows "get_block_by_hash E (bie_hash e) = Inr (Some e) \<and>
         get_block_at_height E (bie_height e) = Inr (Some e)"
proof
  obtain items where items: "ldb_new_iter (ie_db E) = Inr items"
    and chain: "mset chain = mset (scan_blocks E items)" "contiguous chain"
    using assms(1) by (auto simp: get_main_chain_iff sort_and_verify_iff)
  have "e \<in> set (scan_blocks E items)" using assms(3) mset_eq_setD [OF chain(1)] by simp
  then obtain k v where kv: "Some (k, v) \<in> set items" "entry_of E (k, v) = Some e"
    using in_scan_blocks by fastforce
  have key: "is_block_key k" and hash: "bie_hash e = ie_hex_encode E (tl k)"
    and parse: "parse_block_record (bie_hash e) v = Inr e" using entry_of_hash [OF kv(2)] by auto
  have "ie_hex_decode E (bie_hash e) = Some (tl k)" using assms(2) hash by (simp add: index_env_ok_def)
  moreover have "0x62 # tl k = k" "length (tl k) = 32"
    using key by (cases k; simp add: is_block_key_def)+
  moreover have "ldb_get (ie_db E) k = Some v" using assms(2) items kv(1) by (simp add: index_env_ok_def)
  ultimately show "get_block_by_hash E (bie_hash e) = Inr (Some e)"
    using parse by (simp add: get_block_by_hash_def)
  have "find (\<lambda>x. bie_height x = bie_height e) chain = Some e"
    using assms(3) contiguous_inj [OF chain(2)] unfolding find_by_height
    by (intro map_of_is_SomeI) (auto simp: o_def distinct_map contiguous_distinct chain(2)
        intro: contiguous_distinct [THEN distinct_map [THEN iffD1], THEN conjunct1])
  then show "get_block_at_height E (bie_height e) = Inr (Some e)"
    using assms(1) by (simp add: get_block_at_height_def)
qed

section \<open>A concrete index\<close>

text \<open>Three block records out of height order among a file record and a truncated record.\<close>

definition ex_index_key :: "u8 \<Rightarrow> u8 list" where
  "ex_index_key n = 0x62 # replicate 31 0 @ [n]"

definition ex_items :: "ldb_item list" where
  "ex_items =
     [Some (ex_index_key 5, [1, 1, 29, 3, 0, 90]), Some ([0x66, 0, 0, 0, 0], [9]),
      Some (ex_index_key 6, [1, 2]), Some (ex_index_key 7, [1, 2, 29, 4, 0, 200, 1]),
      Some (ex_index_key 9, [1, 0, 29, 1, 0, 8])]"

definition ex_index :: index_env where
  "ex_index =
     \<lparr> ie_db = \<lparr> ldb_new_iter = Inr ex_items,
                 ldb_get = map_of (map the ex_items) \<rparr>,
       ie_hex_encode = hex_encode, ie_hex_decode = hex_decode \<rparr>"

definition ex_entry :: "u32 \<Rightarrow> u8 \<Rightarrow> u64 \<Rightarrow> u32 \<Rightarrow> block_index_entry" where
  "ex_entry h n off txs = \<lparr> bie_height = h, bie_hash = hex_encode (tl (ex_index_key n)), bie_prev_hash = [],
     bie_file_number = 0, bie_file_offset = off, bie_block_size = 0, bie_tx_count = txs, bie_status = 29 \<rparr>"

definition ex_chain :: "block_index_entry list" where
  "ex_chain = [ex_entry 0 9 8 1, ex_entry 1 5 90 3, ex_entry 2 7 9345 4]"

lemma ex_scan: "scan_blocks ex_index ex_items = [ex_entry 1 5 90 3, ex_entry 2 7 9345 4, ex_entry 0 9 8 1]"
  by code_simp

lemma ex_main_chain: "get_main_chain ex_index = Inr ex_chain"
proof -
  have "sort_and_verify (scan_blocks ex_index ex_items) = Inr ex_chain"
    unfolding ex_scan by code_simp
  then show ?thesis by (simp add: get_main_chain_iff ex_index_def)
qed

lemma ex_index_ok: "index_env_ok ex_index"
proof -
  have "distinct (map fst (map the ex_items))" by code_simp
  then have "\<forall>kv\<in>set (map the ex_items). map_of (map the ex_items) (fst kv) = Some (snd kv)"
    by simp
  then have "Some (k, v) \<in> set ex_items \<Longrightarrow> map_of (map the ex_items) k = Some v" for k v
    by force
  then show ?thesis by (auto simp: index_env_ok_def ex_index_def hex_roundtrip)
qed

lemma main_chain_up_to_is_prefix_witness:
  "get_main_chain_up_to ex_index 0 = Inr (take 1 ex_chain)"
  using main_chain_up_to_is_prefix [OF ex_main_chain, of 0]
  by (simp add: ex_chain_def ex_entry_def)

definition ex_forked :: index_env where
  "ex_forked = ex_index \<lparr> ie_db := (ie_db ex_index)
     \<lparr> ldb_new_iter := Inr (Some (ex_index_key 3, [1, 2, 29, 1, 0, 70]) # ex_items) \<rparr> \<rparr>"

lemma main_chain_rejects_forks_witness:
  "\<exists>a b. get_main_chain ex_forked = Inl (NonSequentialHeights a b)"
proof (rule main_chain_rejects_forks)
  show "ldb_new_iter (ie_db ex_forked) = Inr (Some (ex_index_key 3, [1, 2, 29, 1, 0, 70]) # ex_items)"
    by (simp add: ex_forked_def)
  show "\<not> distinct (map bie_height (scan_blocks ex_forked (Some (ex_index_key 3, [1, 2, 29, 1, 0, 70]) # ex_items)))"
    by code_simp
qed

lemma range_table_agrees_witness:
  "\<exists>batch. load_batch_index ex_index 1 2 = Inr batch \<and> map_of batch 2 = Some (ex_entry 2 7 9345 4)"
  using range_table_agrees [OF ex_main_chain, of 1 2]
  by (auto simp: ex_chain_def ex_entry_def)

lemma best_block_is_tip_witness:
  "get_best_block_hash_fallback ex_index = Inr (bie_hash (ex_entry 2 7 9345 4))"
  using best_block_is_tip [OF ex_main_chain] 
  by (simp add: ex_index_def ex_items_def ex_index_key_def ex_chain_def)

lemma chain_entries_found_witness:
  "get_block_by_hash ex_index (bie_hash (ex_entry 1 5 90 3)) = Inr (Some (ex_entry 1 5 90 3)) \<and>
   get_block_at_height ex_index 1 = Inr (Some (ex_entry 1 5 90 3))"
  using chain_entries_found [OF ex_main_chain ex_index_ok, of "ex_entry 1 5 90 3"]
  by (simp add: ex_chain_def) (simp add: ex_entry_def)

end
