(* ===== verification/BlockFile.thy ===== *)
theory BlockFile
  imports Models
begin

text \<open>
  The streaming reader of \<open>.blk\<close> files (\<open>src/src/parser/block_file.rs\<close>): frames of four magic
  bytes, a little-endian length and a serialised block, read in sequence or at an offset from
  the memory-mapped file, here a byte list. Deserialising a block is the parameter
  \<open>deser\<close>, a function of the \<open>bitcoin\<close> crate.
\<close>

section \<open>Data\<close>

definition MAGIC_MAINNET :: "u8 list" where "MAGIC_MAINNET = [0xF9, 0xBE, 0xB4, 0xD9]"
definition MAGIC_TESTNET :: "u8 list" where "MAGIC_TESTNET = [0x0B, 0x11, 0x09, 0x07]"
definition MAGIC_REGTEST :: "u8 list" where "MAGIC_REGTEST = [0xFA, 0xBF, 0xB5, 0xDA]"

datatype parse_error =
    ParseIo string
  | UnexpectedEof
  | InvalidMagic u32 u32
  | UnsupportedNetwork
  | Deserialize string
  | InvalidBlockSize usize

type_synonym deserializer = "u8 list \<Rightarrow> string + btc_block"

record block_file_reader =
  bf_mmap :: "u8 list"
  bf_cursor :: usize
  bf_file_path :: string
  bf_magic_bytes :: "u8 list"
  bf_blocks_read :: usize

section \<open>Operations\<close>

fun magic_of_network :: "network \<Rightarrow> u8 list option" where
  "magic_of_network Bitcoin = Some MAGIC_MAINNET"
| "magic_of_network Testnet = Some MAGIC_TESTNET"
| "magic_of_network Regtest = Some MAGIC_REGTEST"
| "magic_of_network Signet = None"

text \<open>Opening maps the file first and looks at the network afterwards.\<close>

definition block_file_new :: 
  "(string \<Rightarrow> string + u8 list) \<Rightarrow> string \<Rightarrow> network \<Rightarrow> parse_error + block_file_reader" where
  "block_file_new open_mmap path network =
     (case open_mmap path of
        Inl e \<Rightarrow> Inl (ParseIo e)
      | Inr mmap \<Rightarrow>
          (case magic_of_network network of
             None \<Rightarrow> Inl UnsupportedNetwork
           | Some magic \<Rightarrow>
               Inr \<lparr> bf_mmap = mmap, bf_cursor = 0, bf_file_path = path,
                     bf_magic_bytes = magic, bf_blocks_read = 0 \<rparr>))"

definition with_buffer_size ::
  "(string \<Rightarrow> string + u8 list) \<Rightarrow> string \<Rightarrow> network \<Rightarrow> usize \<Rightarrow> parse_error + block_file_reader" where
  "with_buffer_size open_mmap path network buffer_size = block_file_new open_mmap path network"

text \<open>\<open>&mmap[a..a + n]\<close>, used where the bounds were checked.\<close>

definition bytes_at :: "u8 list \<Rightarrow> usize \<Rightarrow> usize \<Rightarrow> u8 list" where
  "bytes_at mmap a n = take n (drop a mmap)"

definition next_block :: 
  "deserializer \<Rightarrow> block_file_reader \<Rightarrow> (parse_error + btc_block option) \<times> block_file_reader" where
  "next_block deser r =
     (if bf_cursor r \<ge> length (bf_mmap r) then (Inr None, r)
      else if bf_cursor r + 8 > length (bf_mmap r) then (Inr None, r)
      else
        let magic_slice = bytes_at (bf_mmap r) (bf_cursor r) 4
        in if magic_slice \<noteq> bf_magic_bytes r then
             if magic_slice = [0, 0, 0, 0] then (Inr None, r)
             else (Inl (InvalidMagic (u32_from_le (bf_magic_bytes r)) (u32_from_le magic_slice)), r)
           else
             let block_size = unat (u32_from_le (bytes_at (bf_mmap r) (bf_cursor r + 4) 4));
                 r' = r\<lparr>bf_cursor := bf_cursor r + 8\<rparr>
             in if block_size = 0 \<or> block_size > 4000000 then (Inl (InvalidBlockSize block_size), r')
                else if bf_cursor r' + block_size > length (bf_mmap r') then (Inl UnexpectedEof, r')
                else case deser (bytes_at (bf_mmap r') (bf_cursor r') block_size) of
                       Inl e \<Rightarrow> (Inl (Deserialize e), r')
                     | Inr block \<Rightarrow>
                         (Inr (Some block),
                          r'\<lparr>bf_cursor := bf_cursor r' + block_size, bf_blocks_read := bf_blocks_read r' + 1\<rparr>))"

definition read_block_at :: 
  "deserializer \<Rightarrow> u64 \<Rightarrow> block_file_reader \<Rightarrow> (parse_error + btc_block option) \<times> block_file_reader" where
  "read_block_at deser off r =
     (let a = unat off
      in if a \<ge> length (bf_mmap r) then (Inr None, r)
         else if a + 8 > length (bf_mmap r) then (Inr None, r)
         else
           let magic_slice = bytes_at (bf_mmap r) a 4
           in if magic_slice \<noteq> bf_magic_bytes r then
                (Inl (InvalidMagic (u32_from_le (bf_magic_bytes r)) (u32_from_le magic_slice)), r)
              else
                let block_size = unat (u32_from_le (bytes_at (bf_mmap r) (a + 4) 4))
                in if block_size = 0 \<or> block_size > 4000000 then (Inl (InvalidBlockSize block_size), r)
                   else if a + 8 + block_size > length (bf_mmap r) then (Inl UnexpectedEof, r)
                   else case deser (bytes_at (bf_mmap r) (a + 8) block_size) of
                          Inl e \<Rightarrow> (Inl (Deserialize e), r)
                        | Inr block \<Rightarrow> (Inr (Some block), r))"

section \<open>Frames\<close>

text \<open>A file as a node writes it: one frame per block, then nothing, fewer than eight bytes, or
  padding with zeroes.\<close>

definition frame :: "u8 list \<Rightarrow> u8 list \<Rightarrow> u8 list" where
  "frame magic bs = magic @ u32_to_le (word_of_nat (length bs)) @ bs"

definition framable :: "u8 list \<Rightarrow> bool" where
  "framable bs \<longleftrightarrow> bs \<noteq> [] \<and> length bs \<le> 4000000"

definition file_end :: "u8 list \<Rightarrow> bool" where
  "file_end bs \<longleftrightarrow> length bs < 8 \<or> take 4 bs = [0, 0, 0, 0]"

text \<open>The loop \<open>while let Some(block) = reader.next_block()?\<close>, for at most \<open>n\<close> calls.\<close>

fun read_all :: "nat \<Rightarrow> deserializer \<Rightarrow> block_file_reader \<Rightarrow> (parse_error + btc_block list) \<times> block_file_reader" where
  "read_all 0 deser r = (Inr [], r)"
| "read_all (Suc n) deser r =
     (case next_block deser r of
        (Inl e, r') \<Rightarrow> (Inl e, r')
      | (Inr None, r') \<Rightarrow> (Inr [], r')
      | (Inr (Some b), r') \<Rightarrow>
          (case read_all n deser r' of
             (Inl e, r'') \<Rightarrow> (Inl e, r'')
           | (Inr bs, r'') \<Rightarrow> (Inr (b # bs), r'')))"

lemma length_frame [simp]: "length magic = 4 \<Longrightarrow> length (frame magic bs) = 8 + length bs"
  by (simp add: frame_def)

lemma frame_parts:
  assumes "length magic = 4" and "framable bs"
  shows "bytes_at (pre @ frame magic bs @ rest) (length pre) 4 = magic"
    and "unat (u32_from_le (bytes_at (pre @ frame magic bs @ rest) (length pre + 4) 4)) = length bs"
    and "bytes_at (pre @ frame magic bs @ rest) (length pre + 8) (length bs) = bs"
proof -
  have "length bs < 2 ^ 32" using assms(2) by (simp add: framable_def)
  then have "unat (word_of_nat (length bs) :: u32) = length bs" by (simp add: unat_of_nat take_bit_eq_mod)
  then show "bytes_at (pre @ frame magic bs @ rest) (length pre) 4 = magic"
    "unat (u32_from_le (bytes_at (pre @ frame magic bs @ rest) (length pre + 4) 4)) = length bs"
    "bytes_at (pre @ frame magic bs @ rest) (length pre + 8) (length bs) = bs"
    using assms(1) by (simp_all add: bytes_at_def frame_def)
qed

lemma next_block_frame:
  assumes "bf_mmap r = pre @ frame (bf_magic_bytes r) bs @ rest" and "bf_cursor r = length pre"
    and "length (bf_magic_bytes r) = 4" and "framable bs" and "deser bs = Inr b"
  shows "next_block deser r = (Inr (Some b),
           r\<lparr>bf_cursor := length pre + 8 + length bs, bf_blocks_read := bf_blocks_read r + 1\<rparr>)"
proof -
  note parts = frame_parts [OF assms(3,4), of pre rest, folded assms(1)]
  have "length (bf_mmap r) = length pre + 8 + length bs + length rest" using assms(1,3) by simp
  then show ?thesis
    using assms parts by (simp add: next_block_def Let_def framable_def)
qed

lemma next_block_end:
  assumes "bf_mmap r = pre @ rest" and "bf_cursor r = length pre" and "file_end rest"
    and "bf_magic_bytes r \<noteq> [0, 0, 0, 0]"
  shows "next_block deser r = (Inr None, r)"
  using assms by (auto simp: next_block_def file_end_def bytes_at_def)

lemma read_all_frames:
  "bf_mmap r = pre @ concat (map (frame (bf_magic_bytes r)) ds) @ tail \<Longrightarrow> bf_cursor r = length pre \<Longrightarrow>
   length (bf_magic_bytes r) = 4 \<Longrightarrow> bf_magic_bytes r \<noteq> [0, 0, 0, 0] \<Longrightarrow> file_end tail \<Longrightarrow>
   list_all framable ds \<Longrightarrow> list_all2 (\<lambda>d b. deser d = Inr b) ds bs \<Longrightarrow> length ds < n \<Longrightarrow>
   read_all n deser r = (Inr bs, r\<lparr>bf_cursor := length (bf_mmap r) - length tail,
                                   bf_blocks_read := bf_blocks_read r + length ds\<rparr>)"
proof (induction ds arbitrary: r pre bs n)
  case Nil
  then obtain m where "n = Suc m" by (cases n) auto
  then show ?case using Nil next_block_end [of r pre tail deser] by simp
next
  case (Cons d ds)
  then obtain m b bs' where n: "n = Suc m" and bs: "bs = b # bs'" "deser d = Inr b"
    and rest: "list_all2 (\<lambda>d b. deser d = Inr b) ds bs'"
    by (cases n; cases bs) auto
  let ?r = "r\<lparr>bf_cursor := length pre + 8 + length d, bf_blocks_read := bf_blocks_read r + 1\<rparr>"
  have "next_block deser r = (Inr (Some b), ?r)"
    using Cons.prems bs by (intro next_block_frame) simp_all
  moreover have "read_all m deser ?r = (Inr bs', ?r\<lparr>bf_cursor := length (bf_mmap ?r) - length tail,
                   bf_blocks_read := bf_blocks_read ?r + length ds\<rparr>)"
    using Cons.prems rest n
    by (intro Cons.IH [where pre = "pre @ frame (bf_magic_bytes r) d"]) simp_all
  ultimately show ?case using n bs by simp
qed

text \<open>
  C28. A block file is read back exactly: if its bytes are the frames of any serialised blocks of
  1 to 4,000,000 bytes, followed by zero padding, a fragment of a header or nothing, the
  reading loop answers all those blocks in order, without an error, and ends right behind the
  last frame.
\<close>

theorem block_file_read_back:
  assumes "magic_of_network network = Some magic"
    and "open_mmap path = Inr (concat (map (frame magic) ds) @ tail)" and "file_end tail"
    and "list_all framable ds" and "list_all2 (\<lambda>d b. deser d = Inr b) ds bs" and "length ds < n"
  shows "\<exists>r r'. block_file_new open_mmap path network = Inr r \<and> read_all n deser r = (Inr bs, r') \<and>
           bf_blocks_read r' = length ds \<and> bf_cursor r' = length (concat (map (frame magic) ds))"
proof -
  let ?m = "concat (map (frame magic) ds) @ tail"
  let ?r = "\<lparr>bf_mmap = ?m, bf_cursor = 0, bf_file_path = path, bf_magic_bytes = magic, bf_blocks_read = 0\<rparr>"
  have "length magic = 4 \<and> magic \<noteq> [0, 0, 0, 0]"
    using assms(1) by (cases network) (auto simp: MAGIC_MAINNET_def MAGIC_TESTNET_def MAGIC_REGTEST_def)
  then have "read_all n deser ?r = (Inr bs, ?r\<lparr>bf_cursor := length ?m - length tail,
                                              bf_blocks_read := 0 + length ds\<rparr>)"
    using assms read_all_frames [of ?r "[]" ds tail deser bs n] by simp
  moreover have "block_file_new open_mmap path network = Inr ?r" using assms by (simp add: block_file_new_def)
  ultimately show ?thesis by auto
qed

text \<open>Random access agrees with the sequence, except that it reports padding as bad magic.\<close>

lemma read_block_at_cursor:
  assumes "unat off = bf_cursor r" 
    and "bytes_at (bf_mmap r) (bf_cursor r) 4 = [0, 0, 0, 0] \<longrightarrow> bf_magic_bytes r = [0, 0, 0, 0]"
  shows "fst (read_block_at deser off r) = fst (next_block deser r)" "snd (read_block_at deser off r) = r"
  using assms by (auto simp: read_block_at_def next_block_def Let_def split: sum.split)

definition ex_deser :: deserializer where
  "ex_deser bs = (if length bs = 2 then Inr \<lparr>bl_header = \<lparr>hd_version = 1, hd_prev_blockhash = [], hd_merkle_root = [],
      hd_time = 0, hd_bits = 0, hd_nonce = ucast (hd bs)\<rparr>, bl_txdata = []\<rparr> else Inl ''bad'')"

definition ex_file :: "u8 list" where
  "ex_file = concat (map (frame MAGIC_REGTEST) [[1, 2], [3, 4]]) @ replicate 8 0"

lemma block_file_read_back_witness:
  "\<exists>r r'. block_file_new (\<lambda>_. Inr ex_file) ''blk'' Regtest = Inr r \<and>
     read_all 5 ex_deser r = (Inr [projr (ex_deser [1, 2]), projr (ex_deser [3, 4])], r') \<and> bf_blocks_read r' = 2"
proof -
  have "\<exists>r r'. block_file_new (\<lambda>_. Inr ex_file) ''blk'' Regtest = Inr r \<and>
     read_all 5 ex_deser r = (Inr [projr (ex_deser [1, 2]), projr (ex_deser [3, 4])], r') \<and>
     bf_blocks_read r' = length [[1, 2], [3, 4 :: u8]] \<and>
     bf_cursor r' = length (concat (map (frame MAGIC_REGTEST) [[1, 2], [3, 4]]))"
  proof (rule block_file_read_back)
    show "magic_of_network Regtest = Some MAGIC_REGTEST" by simp
    show "Inr ex_file = Inr (concat (map (frame MAGIC_REGTEST) [[1, 2], [3, 4]]) @ replicate 8 0)"
      by (simp only: ex_file_def)
    show "file_end (replicate 8 0)" by (simp add: file_end_def numeral_eq_Suc)
  qed (simp_all add: framable_def ex_deser_def)
  then show ?thesis by fastforce
qed

end
