(* ===== verification/Loader.thy ===== *)
theory Loader
  imports Amounts BlockIndex BlockFile
begin

text \<open>
  The lazy block loader (\<open>src/src/parser/single_block_loader.rs\<close>): the table of block
  locations filled from index scans, the read of one block from its file, and the two
  pre-warming walks that fill the UTXO cache from earlier blocks. The file system, the
  network's magic bytes and the consensus decoder are parameters.
\<close>

section \<open>State\<close>

text \<open>The text of the \<open>ParseError\<close> for wrong magic bytes is abstracted to the values it shows.\<close>

datatype loader_error =
    LoaderIndexError index_error
  | LoaderIo string
  | LoaderParseError string
  | LoaderInvalidMagic u32 "u8 list" "u8 list"
  | LoaderInvalidFile string
  | LoaderBlockNotFound u32

record block_location =
  loc_file_number :: u32
  loc_file_offset :: u64
  loc_hash :: string

text \<open>A path maps to nothing when there is no such file, to an error when it cannot be opened,
  and otherwise to the file's bytes.\<close>

record loader_env =
  le_index :: index_env
  le_files :: "string \<rightharpoonup> string + u8 list"
  le_magic :: "network \<Rightarrow> u8 list"
  le_deserialize :: "u8 list \<Rightarrow> string + btc_block"

record single_block_loader =
  sl_blocks_dir :: string
  sl_network :: network
  sl_block_index :: "u32 \<rightharpoonup> block_location"

type_synonym 'a loading = "(single_block_loader, loader_error, 'a) action"

definition INDEX_BATCH_SIZE :: u32 where
  "INDEX_BATCH_SIZE = 500"

definition loader_new :: "(string \<Rightarrow> bool) \<Rightarrow> (string \<Rightarrow> string + leveldb) \<Rightarrow> string \<Rightarrow> network
    \<Rightarrow> loader_error + leveldb \<times> single_block_loader" where
  "loader_new path_exists db_open blocks_dir network =
     (case block_index_new path_exists db_open blocks_dir of
        Inl e \<Rightarrow> Inl (LoaderIndexError e)
      | Inr db \<Rightarrow> Inr (db, \<lparr>sl_blocks_dir = blocks_dir, sl_network = network, sl_block_index = Map.empty\<rparr>))"

section \<open>The location table\<close>

definition location_of :: "block_index_entry \<Rightarrow> block_location" where
  "location_of e = \<lparr>loc_file_number = bie_file_number e, loc_file_offset = bie_file_offset e, loc_hash = bie_hash e\<rparr>"

definition insert_locations :: "height_map \<Rightarrow> single_block_loader \<Rightarrow> single_block_loader" where
  "insert_locations batch s =
     s\<lparr>sl_block_index := fold (\<lambda>(height, e) m. m(height \<mapsto> location_of e)) batch (sl_block_index s)\<rparr>"

definition preload_full_range :: "loader_env \<Rightarrow> u32 \<Rightarrow> u32 \<Rightarrow> unit loading" where
  "preload_full_range E start_height end_height s =
     (case load_batch_index (le_index E) start_height end_height of
        Inl e \<Rightarrow> (Inl (LoaderIndexError e), s)
      | Inr batch \<Rightarrow> (Inr (), insert_locations batch s))"

definition preload_batch :: "loader_env \<Rightarrow> u32 \<Rightarrow> unit loading" where
  "preload_batch E start_height s =
     (case load_batch_index (le_index E) start_height (start_height + INDEX_BATCH_SIZE - 1) of
        Inl e \<Rightarrow> (Inl (LoaderIndexError e), s)
      | Inr batch \<Rightarrow> (Inr (), insert_locations batch s))"

definition ensure_loaded :: "loader_env \<Rightarrow> u32 \<Rightarrow> unit loading" where
  "ensure_loaded E height s = (if sl_block_index s height = None then preload_batch E height s else (Inr (), s))"

section \<open>Reading a block\<close>

text \<open>\<open>format!("blk{:05}.dat", n)\<close>\<close>

definition block_file_name :: "u32 \<Rightarrow> string" where
  "block_file_name n =
     (let d = u32_to_dec n in ''blk'' @ replicate (5 - length d) (CHR ''0'') @ d @ ''.dat'')"

definition eof_error :: loader_error where
  "eof_error = LoaderIo ''failed to fill whole buffer''"

text \<open>The bytes of a block at its location, in an open file.\<close>

definition read_located :: "loader_env \<Rightarrow> network \<Rightarrow> u32 \<Rightarrow> u64 \<Rightarrow> u8 list \<Rightarrow> loader_error + btc_block" where
  "read_located E network height file_offset bytes =
     (case read_exact 4 (drop (unat (saturating_sub file_offset 8)) bytes) of
        None \<Rightarrow> Inl eof_error
      | Some (magic, rest) \<Rightarrow>
          if magic \<noteq> le_magic E network then Inl (LoaderInvalidMagic height (le_magic E network) magic)
          else case read_exact 4 rest of
            None \<Rightarrow> Inl eof_error
          | Some (size_bytes, rest') \<Rightarrow>
              (case read_exact (unat (u32_from_le size_bytes)) rest' of
                 None \<Rightarrow> Inl eof_error
               | Some (block_data, _) \<Rightarrow>
                   (case le_deserialize E block_data of
                      Inl e \<Rightarrow> Inl (LoaderParseError (''Block deserialization failed: '' @ e))
                    | Inr block \<Rightarrow> Inr block)))"

definition load_block :: "loader_env \<Rightarrow> u32 \<Rightarrow> (u32 \<times> btc_block \<times> string) option loading" where
  "load_block E height =
     and_then (ensure_loaded E height) (\<lambda>_ s.
     case sl_block_index s height of
       None \<Rightarrow> (Inr None, s)
     | Some location \<Rightarrow>
         let file_name = block_file_name (loc_file_number location);
             file_path = sl_blocks_dir s @ ''/'' @ file_name
         in case le_files E file_path of
              None \<Rightarrow> (Inl (LoaderInvalidFile (''File not found: '' @ file_path)), s)
            | Some (Inl e) \<Rightarrow> (Inl (LoaderIo e), s)
            | Some (Inr bytes) \<Rightarrow>
                (case read_located E (sl_network s) height (loc_file_offset location) bytes of
                   Inl e \<Rightarrow> (Inl e, s)
                 | Inr block \<Rightarrow> (Inr (Some (height, block, file_name)), s)))"

section \<open>Pre-warming\<close>

definition prewarm_tag :: "btc \<Rightarrow> script \<Rightarrow> script_type_tag" where
  "prewarm_tag B script =
     (if btc_is_p2pkh B script then TagP2PKH
      else if btc_is_p2sh B script then TagP2SH
      else if btc_is_p2wpkh B script then TagP2WPKH
      else if btc_is_p2wsh B script then TagP2WSH
      else if btc_is_op_return B script then TagNullData
      else TagUnknown)"

definition prewarm_output :: "btc \<Rightarrow> network \<Rightarrow> usize \<Rightarrow> tx_out \<Rightarrow> cached_output" where
  "prewarm_output B network vout out =
     \<lparr> co_output_index = usize_as_u32 vout, co_amount = to_value out,
       co_script_type = prewarm_tag B (to_script_pubkey out),
       co_address = btc_address_from_script B (to_script_pubkey out) network \<rparr>"

text \<open>The outputs of a block with their keys, in the order of the two nested loops.\<close>

definition output_key :: "btc \<Rightarrow> btc_tx \<Rightarrow> usize \<Rightarrow> utxo_key" where
  "output_key B tx vout = key_new (btc_txid B tx) (usize_as_u32 vout)"

definition block_outputs :: "btc \<Rightarrow> network \<Rightarrow> btc_block \<Rightarrow> (utxo_key \<times> cached_output) list" where
  "block_outputs B network block =
     concat (map (\<lambda>tx. map (\<lambda>(vout, out). (output_key B tx vout, prewarm_output B network vout out))
       (enumerate 0 (tx_output tx))) (bl_txdata block))"

text \<open>The insertions of a block stop at the first full shard.\<close>

fun prewarm_outputs :: "'c utxo_lru_ops \<Rightarrow> (utxo_key \<times> cached_output) list \<Rightarrow> 'c utxo_cache \<Rightarrow> bool \<times> 'c utxo_cache" where
  "prewarm_outputs L [] c = (True, c)"
| "prewarm_outputs L ((key, out) # outs) c =
     (case insert_prewarm L key out c of
        (False, c') \<Rightarrow> (False, c')
      | (True, c') \<Rightarrow> prewarm_outputs L outs c')"

type_synonym ('c, 'a) warming = "(single_block_loader \<times> 'c utxo_cache, loader_error, 'a) action"

text \<open>The backward walk; the first argument is \<open>current_height\<close>, at 0 the walk ends.\<close>

fun prewarm_walk :: "'c utxo_lru_ops \<Rightarrow> btc \<Rightarrow> loader_env \<Rightarrow> u32 \<Rightarrow> nat \<Rightarrow> u32 \<Rightarrow> ('c, u32) warming" where
  "prewarm_walk L B E max_blocks 0 loaded st = (Inr loaded, st)"
| "prewarm_walk L B E max_blocks (Suc h) loaded (s, c) =
     (if \<not> cache_has_capacity L c then (Inr loaded, (s, c))
      else if loaded \<ge> max_blocks then (Inr loaded, (s, c))
      else case load_block E (of_nat (Suc h)) s of
        (Inl e, s') \<Rightarrow> (Inl e, (s', c))
      | (Inr None, s') \<Rightarrow> (Inr loaded, (s', c))
      | (Inr (Some (_, block, _)), s') \<Rightarrow>
          (case prewarm_outputs L (block_outputs B (sl_network s') block) c of
             (False, c') \<Rightarrow> (Inr loaded, (s', c'))
           | (True, c') \<Rightarrow> prewarm_walk L B E max_blocks h (loaded + 1) (s', c')))"

definition prewarm_cache :: "'c utxo_lru_ops \<Rightarrow> btc \<Rightarrow> loader_env \<Rightarrow> u32 \<Rightarrow> u32 \<Rightarrow> ('c, u32) warming" where
  "prewarm_cache L B E start_height max_blocks st =
     (case st of (s, c) \<Rightarrow>
        if start_height = 0 then (Inr 0, (s, c))
        else
          let lower_bound = saturating_sub start_height max_blocks
          in case preload_full_range E lower_bound (saturating_sub start_height 1) s of
               (Inl e, s') \<Rightarrow> (Inl e, (s', c))
             | (Inr _, s') \<Rightarrow>
                 prewarm_walk L B E max_blocks (unat (saturating_sub start_height 1)) 0 (s', c))"

section \<open>Targeted pre-warming\<close>

text \<open>The forward scan collects the keys that upcoming blocks spend and the cache lacks.\<close>

definition needed_of_block :: "'c utxo_lru_ops \<Rightarrow> btc \<Rightarrow> 'c utxo_cache \<Rightarrow> btc_block \<Rightarrow> utxo_key set \<Rightarrow> utxo_key set" where
  "needed_of_block L B c block needed =
     needed \<union> {k \<in> set (spent_keys_of_block B block). \<not> cache_contains L k c}"

fun forward_scan :: "'c utxo_lru_ops \<Rightarrow> btc \<Rightarrow> loader_env \<Rightarrow> 'c utxo_cache \<Rightarrow> u32 list \<Rightarrow> utxo_key set \<Rightarrow> u32
    \<Rightarrow> (utxo_key set \<times> u32) loading" where
  "forward_scan L B E c [] needed scanned s = (Inr (needed, scanned), s)"
| "forward_scan L B E c (h # hs) needed scanned s =
     (case load_block E h s of
        (Inl e, s') \<Rightarrow> (Inl e, s')
      | (Inr (Some (_, block, _)), s') \<Rightarrow>
          forward_scan L B E c hs (needed_of_block L B c block needed) (scanned + 1) s'
      | (Inr None, s') \<Rightarrow> forward_scan L B E c hs needed scanned s')"

definition take_needed :: "'c utxo_lru_ops \<Rightarrow> utxo_key \<times> cached_output \<Rightarrow> utxo_key set \<times> usize \<times> 'c utxo_cache
    \<Rightarrow> utxo_key set \<times> usize \<times> 'c utxo_cache" where
  "take_needed L = (\<lambda>(key, out) (needed, found, c).
     if key \<in> needed then (needed - {key}, found + 1, snd (insert_prewarm L key out c)) else (needed, found, c))"

fun targeted_walk :: "'c utxo_lru_ops \<Rightarrow> btc \<Rightarrow> loader_env \<Rightarrow> u32 \<Rightarrow> nat \<Rightarrow> utxo_key set \<Rightarrow> u32 \<Rightarrow> usize
    \<Rightarrow> ('c, u32 \<times> usize) warming" where
  "targeted_walk L B E max_backward h needed loaded found (s, c) =
     (if needed = {} \<or> loaded \<ge> max_backward \<or> \<not> cache_has_capacity L c then (Inr (loaded, found), (s, c))
      else case h of
        0 \<Rightarrow> (Inr (loaded, found), (s, c))
      | Suc h' \<Rightarrow>
        (case load_block E (of_nat (Suc h')) s of
           (Inl e, s') \<Rightarrow> (Inl e, (s', c))
         | (Inr None, s') \<Rightarrow> (Inr (loaded, found), (s', c))
         | (Inr (Some (_, block, _)), s') \<Rightarrow>
             (case fold (take_needed L) (block_outputs B (sl_network s') block) (needed, found, c) of
                (needed', found', c') \<Rightarrow> targeted_walk L B E max_backward h' needed' (loaded + 1) found' (s', c'))))"

definition prewarm_cache_targeted :: "'c utxo_lru_ops \<Rightarrow> btc \<Rightarrow> loader_env \<Rightarrow> u32 \<Rightarrow> u32 \<Rightarrow> u32 \<Rightarrow> u32
    \<Rightarrow> ('c, u32 \<times> u32 \<times> usize) warming" where
  "prewarm_cache_targeted L B E start_height scan_ahead max_backward end_height st =
     (case st of (s, c) \<Rightarrow>
        if start_height = 0 then (Inr (0, 0, 0), (s, c))
        else
          let scan_end = min (saturating_add start_height scan_ahead) end_height
          in case preload_full_range E start_height scan_end s of
               (Inl e, s1) \<Rightarrow> (Inl e, (s1, c))
             | (Inr _, s1) \<Rightarrow>
               (case forward_scan L B E c (map word_of_nat [unat start_height ..< Suc (unat scan_end)]) {} 0 s1 of
                  (Inl e, s2) \<Rightarrow> (Inl e, (s2, c))
                | (Inr (needed, scanned_forward), s2) \<Rightarrow>
                  if needed = {} then (Inr (scanned_forward, 0, 0), (s2, c))
                  else
                    (case preload_full_range E (saturating_sub start_height max_backward) (saturating_sub start_height 1) s2 of
                       (Inl e, s3) \<Rightarrow> (Inl e, (s3, c))
                     | (Inr _, s3) \<Rightarrow>
                       (case targeted_walk L B E max_backward (unat (saturating_sub start_height 1)) needed 0 0 (s3, c) of
                          (Inl e, st') \<Rightarrow> (Inl e, st')
                        | (Inr (loaded_backward, found), st') \<Rightarrow> (Inr (scanned_forward, loaded_backward, found), st')))))"

section \<open>Blocks of the main chain\<close>

text \<open>The locations in the table are those of the chain.\<close>

definition loader_ok :: "block_index_entry list \<Rightarrow> single_block_loader \<Rightarrow> bool" where
  "loader_ok chain s \<longleftrightarrow> (\<forall>h loc. sl_block_index s h = Some loc \<longrightarrow>
     (\<exists>e \<in> set chain. bie_height e = h \<and> loc = location_of e))"

text \<open>A file that holds the frame of a block's data where the entry says, with anything around it.\<close>

definition stored_at :: "loader_env \<Rightarrow> string \<Rightarrow> network \<Rightarrow> block_index_entry \<Rightarrow> btc_block \<Rightarrow> bool" where
  "stored_at E dir network e b \<longleftrightarrow>
     (\<exists>pre post data. le_files E (dir @ ''/'' @ block_file_name (bie_file_number e)) =
         Some (Inr (pre @ frame (le_magic E network) data @ post)) \<and>
       unat (bie_file_offset e) = length pre + 8 \<and> length data < 2 ^ 32 \<and> le_deserialize E data = Inr b)"

lemma insert_locations_index:
  "distinct (map fst batch) \<Longrightarrow> sl_block_index (insert_locations batch s) h =
     (case map_of batch h of Some e \<Rightarrow> Some (location_of e) | None \<Rightarrow> sl_block_index s h)"
proof -
  assume d: "distinct (map fst batch)"
  have "distinct (map fst batch) \<Longrightarrow> fold (\<lambda>(height, e) m. m(height \<mapsto> location_of e)) batch m h =
      (case map_of batch h of Some e \<Rightarrow> Some (location_of e) | None \<Rightarrow> m h)" for m
  proof (induction batch arbitrary: m)
    case (Cons p batch)
    have "map_of batch (fst p) = None" using Cons.prems by (simp add: map_of_eq_None_iff)
    then show ?case using Cons by (cases p; cases "h = fst p") (auto split: option.split)
  qed simp
  then show ?thesis using d by (simp add: insert_locations_def)
qed

lemma insert_locations_sel [simp]:
  "sl_blocks_dir (insert_locations batch s) = sl_blocks_dir s" "sl_network (insert_locations batch s) = sl_network s"
  by (simp_all add: insert_locations_def)

lemma find_chain:
  assumes "contiguous chain"
  shows "find (\<lambda>x. bie_height x = h) chain = Some e \<longleftrightarrow> e \<in> set chain \<and> bie_height e = h"
proof
  assume "e \<in> set chain \<and> bie_height e = h"
  then obtain x where x: "find (\<lambda>x. bie_height x = h) chain = Some x"
    by (cases "find (\<lambda>x. bie_height x = h) chain") (auto simp: find_None_iff)
  then have "x \<in> set chain" "bie_height x = h" by (auto simp: find_Some_iff)
  with \<open>e \<in> set chain \<and> bie_height e = h\<close> x contiguous_inj [OF assms] show "find (\<lambda>x. bie_height x = h) chain = Some e"
    by (auto simp: inj_on_def)
qed (auto simp: find_Some_iff)

lemma chain_contiguous: "get_main_chain I = Inr chain \<Longrightarrow> contiguous chain"
  by (auto simp: get_main_chain_iff sort_and_verify_iff)

lemma load_range:
  assumes "get_main_chain (le_index E) = Inr chain" "loader_ok chain s" "a \<le> b" "\<not> (a = 0 \<and> b = - 1)"
    "load_batch_index (le_index E) a b = Inr batch"
  shows "loader_ok chain (insert_locations batch s)"
    "a \<le> h \<Longrightarrow> h \<le> b \<Longrightarrow> e \<in> set chain \<Longrightarrow> bie_height e = h \<Longrightarrow>
       sl_block_index (insert_locations batch s) h = Some (location_of e)"
proof -
  note ch = chain_contiguous [OF assms(1)]
  have m: "map_of batch h = (if a \<le> h \<and> h \<le> b then find (\<lambda>x. bie_height x = h) chain else None)" for h
    using range_table_exact [OF assms(1,3,4)] assms(5) by auto
  have d: "distinct (map fst batch)"
    using assms(5) by (auto simp: load_batch_index_def Let_def load_batch_scan_distinct split: sum.splits)
  show "loader_ok chain (insert_locations batch s)"
    unfolding loader_ok_def insert_locations_index [OF d] m
    using assms(2) find_chain [OF ch] by (auto simp: loader_ok_def split: option.splits if_splits)
  show "sl_block_index (insert_locations batch s) h = Some (location_of e)"
    if "a \<le> h" "h \<le> b" "e \<in> set chain" "bie_height e = h"
    using that find_chain [OF ch, of h e] by (simp add: insert_locations_index [OF d] m)
qed

lemma ensure_loaded_ok:
  assumes "get_main_chain (le_index E) = Inr chain" "loader_ok chain s" "unat h + 500 \<le> 2 ^ 32"
  shows "\<exists>s'. ensure_loaded E h s = (Inr (), s') \<and> loader_ok chain s' \<and> sl_blocks_dir s' = sl_blocks_dir s \<and>
     sl_network s' = sl_network s \<and>
     sl_block_index s' h = map_option location_of (find (\<lambda>x. bie_height x = h) chain)"
proof (cases "sl_block_index s h")
  case (Some loc)
  then obtain e where e: "e \<in> set chain" "bie_height e = h" "loc = location_of e"
    using assms(2) by (auto simp: loader_ok_def)
  then show ?thesis
    using Some assms(2) find_chain [OF chain_contiguous [OF assms(1)], of h e] by (simp add: ensure_loaded_def)
next
  case None
  have last: "h + INDEX_BATCH_SIZE - 1 = h + 499" by (simp add: INDEX_BATCH_SIZE_def)
  have un: "unat (h + 499) = unat h + 499" using assms(3) by (simp add: unat_word_ariths)
  have range: "h \<le> h + INDEX_BATCH_SIZE - 1" "\<not> (h = 0 \<and> h + INDEX_BATCH_SIZE - 1 = - 1)"
    unfolding last by (simp only: word_le_nat_alt un) auto
  obtain batch where b: "load_batch_index (le_index E) h (h + INDEX_BATCH_SIZE - 1) = Inr batch"
    "\<And>k. map_of batch k = (if h \<le> k \<and> k \<le> h + INDEX_BATCH_SIZE - 1 then find (\<lambda>x. bie_height x = k) chain else None)"
    using range_table_exact [OF assms(1) range] by blast
  have d: "distinct (map fst batch)"
    using b(1) by (auto simp: load_batch_index_def Let_def load_batch_scan_distinct split: sum.splits)
  note lr = load_range(1) [OF assms(1,2) range b(1)]
  show ?thesis
    using None lr range(1) by (auto simp: ensure_loaded_def preload_batch_def b insert_locations_index [OF d] split: option.split)
qed

lemma read_located_frame:
  assumes "length magic = 4" "unat off = length pre + 8" "length data < 2 ^ 32" "le_magic E network = magic"
    "le_deserialize E data = Inr b"
  shows "read_located E network h off (pre @ frame magic data @ post) = Inr b"
proof -
  have "unat (saturating_sub off 8) = length pre" using assms(2) by (simp add: unat_saturating_sub)
  moreover have "unat (word_of_nat (length data) :: u32) = length data"
    using assms(3) by (intro unat_word_of_nat) simp
  ultimately show ?thesis using assms(1,4,5) by (simp add: read_located_def frame_def)
qed

lemma load_block_chain:
  assumes "get_main_chain (le_index E) = Inr chain" and "loader_ok chain s" and "unat h + 500 \<le> 2 ^ 32"
    and "length (le_magic E (sl_network s)) = 4"
  shows "\<exists>s'. loader_ok chain s' \<and> sl_blocks_dir s' = sl_blocks_dir s \<and> sl_network s' = sl_network s \<and>
     (h \<notin> bie_height ` set chain \<longrightarrow> load_block E h s = (Inr None, s')) \<and>
     (\<forall>e b. e \<in> set chain \<longrightarrow> bie_height e = h \<longrightarrow> stored_at E (sl_blocks_dir s) (sl_network s) e b \<longrightarrow>
        load_block E h s = (Inr (Some (h, b, block_file_name (bie_file_number e))), s') \<and>
        load_block E h s' = (Inr (Some (h, b, block_file_name (bie_file_number e))), s'))"
proof -
  obtain s' where s': "ensure_loaded E h s = (Inr (), s')" "loader_ok chain s'" "sl_blocks_dir s' = sl_blocks_dir s"
    "sl_network s' = sl_network s" "sl_block_index s' h = map_option location_of (find (\<lambda>x. bie_height x = h) chain)"
    using ensure_loaded_ok [OF assms(1-3)] by blast
  have none: "load_block E h s = (Inr None, s')" if "h \<notin> bie_height ` set chain"
  proof -
    have "find (\<lambda>x. bie_height x = h) chain = None" using that by (auto simp: find_None_iff)
    then show ?thesis by (simp add: load_block_def s')
  qed
  have some: "load_block E h s = (Inr (Some (h, b, block_file_name (bie_file_number e))), s') \<and>
        load_block E h s' = (Inr (Some (h, b, block_file_name (bie_file_number e))), s')"
    if e: "e \<in> set chain" "bie_height e = h" "stored_at E (sl_blocks_dir s) (sl_network s) e b" for e b
  proof -
    have loc: "sl_block_index s' h = Some (location_of e)"
      using s'(5) find_chain [OF chain_contiguous [OF assms(1)], of h e] e by simp
    obtain pre post data where fl: "le_files E (sl_blocks_dir s @ ''/'' @ block_file_name (bie_file_number e)) =
         Some (Inr (pre @ frame (le_magic E (sl_network s)) data @ post))"
      and d: "unat (bie_file_offset e) = length pre + 8" "length data < 2 ^ 32" "le_deserialize E data = Inr b"
      using e(3) by (auto simp: stored_at_def)
    have "ensure_loaded E h s' = (Inr (), s')" by (simp add: ensure_loaded_def loc)
    with s'(1,3,4) loc fl read_located_frame [OF assms(4) d(1,2) refl d(3)] show ?thesis
      by (simp add: load_block_def location_of_def Let_def)
  qed
  show ?thesis using s'(2-4) none some by blast
qed

text \<open>
  C31. Every block of the main chain can be loaded: in any state of the location table that only
  holds the chain's locations, loading a height answers the block that is stored where the index
  says, with the height and the name of its file, and \<open>None\<close> where the chain has no such height;
  the table stays the chain's, so a later call reads the same block again.
\<close>
theorem chain_block_loaded:
  assumes "get_main_chain (le_index E) = Inr chain" and "loader_ok chain s" and "unat h + 500 \<le> 2 ^ 32"
    and "length (le_magic E (sl_network s)) = 4"
  shows "\<exists>s'. loader_ok chain s' \<and> sl_blocks_dir s' = sl_blocks_dir s \<and> sl_network s' = sl_network s \<and>
     (h \<notin> bie_height ` set chain \<longrightarrow> load_block E h s = (Inr None, s')) \<and>
     (\<forall>e b. e \<in> set chain \<longrightarrow> bie_height e = h \<longrightarrow> stored_at E (sl_blocks_dir s) (sl_network s) e b \<longrightarrow>
        load_block E h s = (Inr (Some (h, b, block_file_name (bie_file_number e))), s') \<and>
        load_block E h s' = (Inr (Some (h, b, block_file_name (bie_file_number e))), s'))"
  using assms by (rule load_block_chain)

section \<open>What pre-warming does to the cache\<close>

definition grown_from :: "'c utxo_lru_ops \<Rightarrow> (utxo_key \<Rightarrow> cached_output \<Rightarrow> bool) \<Rightarrow> 'c utxo_cache \<Rightarrow> 'c utxo_cache \<Rightarrow> bool" where
  "grown_from L P c c' \<longleftrightarrow> cache_ok L c' \<and> dom (cache_view L c) \<subseteq> dom (cache_view L c') \<and>
     (\<forall>k v. cache_view L c' k = Some v \<longrightarrow> cache_view L c k = Some v \<or> P k v)"

lemma grown_refl: "cache_ok L c \<Longrightarrow> grown_from L P c c"
  by (simp add: grown_from_def)

lemma grown_trans: "grown_from L P c c' \<Longrightarrow> grown_from L P c' c'' \<Longrightarrow> grown_from L P c c''"
  unfolding grown_from_def by blast

lemma grown_mono: "grown_from L P c c' \<Longrightarrow> (\<And>k v. P k v \<Longrightarrow> Q k v) \<Longrightarrow> grown_from L Q c c'"
  unfolding grown_from_def by blast

lemma grown_prewarm:
  assumes "lru L" "cache_ok L c" "insert_prewarm L k v c = (b, c')" "P k v"
  shows "grown_from L P c c'"
  using utxo_lru.insert_prewarm_spec [OF assms(1) [unfolded utxo_lru_iff] assms(2,3)] assms(4)
  by (auto simp: grown_from_def split: if_splits)

lemma grown_outputs:
  assumes "lru L"
  shows "cache_ok L c \<Longrightarrow> prewarm_outputs L outs c = (b, c') \<Longrightarrow> (\<And>k v. (k, v) \<in> set outs \<Longrightarrow> P k v) \<Longrightarrow> grown_from L P c c'"
proof (induction outs arbitrary: c)
  case (Cons p outs)
  obtain k v where p: "p = (k, v)" by (cases p)
  obtain b1 c1 where one: "insert_prewarm L k v c = (b1, c1)" by (metis prod.collapse)
  have g: "grown_from L P c c1" using grown_prewarm [OF assms Cons.prems(1) one] Cons.prems(3) p by simp
  then show ?case
    using Cons.IH [of c1] Cons.prems(2,3) grown_trans [OF g]
    by (cases b1) (auto simp: p one grown_from_def)
qed (simp add: grown_refl)

text \<open>The entries that the blocks of the heights 1 to \<open>n\<close> can contribute.\<close>

definition output_below :: "btc \<Rightarrow> loader_env \<Rightarrow> nat \<Rightarrow> utxo_key \<Rightarrow> cached_output \<Rightarrow> bool" where
  "output_below B E n k v \<longleftrightarrow> (\<exists>h s s' b f. 0 < unat h \<and> unat h \<le> n \<and> load_block E h s = (Inr (Some (h, b, f)), s') \<and>
     (k, v) \<in> set (block_outputs B (sl_network s') b))"

lemma output_below_mono: "output_below B E m k v \<Longrightarrow> m \<le> n \<Longrightarrow> output_below B E n k v"
  unfolding output_below_def by (meson le_trans)

lemma load_block_height: "load_block E h s = (Inr (Some (h', b, f)), s') \<Longrightarrow> h' = h"
  by (auto simp: load_block_def Let_def elim!: and_then_InrE split: option.splits sum.splits)

lemma prewarm_walk_grows:
  assumes "lru L"
  shows "cache_ok L c \<Longrightarrow> n < 2 ^ 32 \<Longrightarrow> prewarm_walk L B E mx n loaded (s, c) = (r, s', c') \<Longrightarrow>
    grown_from L (output_below B E n) c c' \<and> (\<forall>m. r = Inr m \<longrightarrow> loaded \<le> mx \<longrightarrow> m \<le> mx)"
proof (induction n arbitrary: c loaded s)
  case (Suc h)
  define hh where "hh = (of_nat (Suc h) :: u32)"
  have h: "unat hh = Suc h" unfolding hh_def using Suc.prems(2) by (intro unat_word_of_nat) simp
  obtain lr s1 where load: "load_block E hh s = (lr, s1)" by (metis prod.collapse)
  note run = Suc.prems(3) [unfolded prewarm_walk.simps, folded hh_def, unfolded load]
  show ?case
  proof (cases "\<not> cache_has_capacity L c \<or> loaded \<ge> mx \<or> (\<exists>e. lr = Inl e) \<or> lr = Inr None")
    case True
    then consider "\<not> cache_has_capacity L c" | "loaded \<ge> mx" | e where "lr = Inl e" | "lr = Inr None" by blast
    then have "c' = c \<and> (\<forall>m. r = Inr m \<longrightarrow> m = loaded)"
    proof cases
      case 1 then have "Inr loaded = r \<and> c = c'" using run by simp
      then show ?thesis by auto
    next
      case 2 then have "Inr loaded = r \<and> c = c'" using run by (cases "cache_has_capacity L c") simp_all
      then show ?thesis by auto
    next
      case 3 then have "(Inr loaded = r \<or> Inl e = r) \<and> c = c'"
        using run by (cases "\<not> cache_has_capacity L c"; cases "loaded \<ge> mx") simp_all
      then show ?thesis by auto
    next
      case 4 then have "Inr loaded = r \<and> c = c'"
        using run by (cases "\<not> cache_has_capacity L c"; cases "loaded \<ge> mx") simp_all
      then show ?thesis by auto
    qed
    then show ?thesis using grown_refl [OF Suc.prems(1)] by auto
  next
    case False
    then obtain h' b f where lr: "lr = Inr (Some (h', b, f))" by (cases lr) auto
    with load_block_height load have h': "h' = hh" by blast
    obtain ok c1 where ins: "prewarm_outputs L (block_outputs B (sl_network s1) b) c = (ok, c1)" by (metis prod.collapse)
    have g: "grown_from L (output_below B E (Suc h)) c c1"
    proof (rule grown_outputs [OF assms Suc.prems(1) ins])
      fix k v assume m: "(k, v) \<in> set (block_outputs B (sl_network s1) b)"
      have "load_block E hh s = (Inr (Some (hh, b, f)), s1)" using load by (simp add: lr h')
      then show "output_below B E (Suc h) k v" unfolding output_below_def using m h
        by (intro exI [of _ hh] exI [of _ s] exI [of _ s1] exI [of _ b] exI [of _ f] conjI) simp_all
    qed
    show ?thesis
    proof (cases ok)
      case full: False
      then have "c' = c1" "r = Inr loaded" using run False lr ins by auto
      then show ?thesis using g by simp
    next
      case room: True
      have rest: "prewarm_walk L B E mx h (loaded + 1) (s1, c1) = (r, s', c')"
        using run False lr ins room by simp
      have "loaded < mx" using False by (simp add: not_le)
      then have le: "loaded + 1 \<le> mx" by (rule inc_le)
      have "cache_ok L c1" using g by (simp add: grown_from_def)
      note ih = Suc.IH [OF this _ rest]
      have "grown_from L (output_below B E (Suc h)) c1 c'"
      proof (rule grown_mono)
        show "grown_from L (output_below B E h) c1 c'" using ih Suc.prems(2) by simp
        show "output_below B E (Suc h) k v" if "output_below B E h k v" for k v
          using that by (rule output_below_mono) simp
      qed
      with grown_trans [OF g this] ih Suc.prems(2) le show ?thesis by simp
    qed
  qed
qed (auto simp: grown_refl)


text \<open>
  C33. A pre-warmed entry is not always the one ingestion caches for the same output: for the
  hashed scripts both classify and address it alike, but for a pay-to-pubkey output, which the
  library's \<open>Address::from_script\<close> has no address for, ingestion caches the address of the key
  and the loader caches none, so spending it from a pre-warmed cache records no PERFORMS.
\<close>
theorem prewarmed_entry_agreement:
  assumes "\<not> btc_is_op_return B (to_script_pubkey out)"
  shows "(btc_is_p2pkh B (to_script_pubkey out) \<longrightarrow> btc_address_from_script B (to_script_pubkey out) nw \<noteq> None \<longrightarrow>
      prewarm_output B nw i out = cached_of_output (from_output B out txid (usize_as_u32 i) nw)) \<and>
    (extract_address B (to_script_pubkey out) nw = address_info (Some a) P2PK \<longrightarrow>
       btc_address_from_script B (to_script_pubkey out) nw = None \<longrightarrow>
       co_address (cached_of_output (from_output B out txid (usize_as_u32 i) nw)) = Some a \<and>
       prewarm_output B nw i out \<noteq> cached_of_output (from_output B out txid (usize_as_u32 i) nw) \<and>
       input_items [k \<mapsto> prewarm_output B nw i out] [k] = [] \<and>
       input_items [k \<mapsto> cached_of_output (from_output B out txid (usize_as_u32 i) nw)] [k] = [(a, to_value out)])"
proof -
  let ?s = "to_script_pubkey out"
  have "prewarm_output B nw i out = cached_of_output (from_output B out txid (usize_as_u32 i) nw)"
    if "btc_is_p2pkh B ?s" "btc_address_from_script B ?s nw \<noteq> None"
    using that assms by (auto simp: prewarm_output_def prewarm_tag_def cached_of_output_def from_output_def Let_def
        extract_address_def address_or_unknown_def address_info_def tag_from_str_def)
  moreover have "co_address (cached_of_output (from_output B out txid (usize_as_u32 i) nw)) = Some a"
    "co_address (prewarm_output B nw i out) = None"
    "co_amount (cached_of_output (from_output B out txid (usize_as_u32 i) nw)) = to_value out"
    if "extract_address B ?s nw = address_info (Some a) P2PK" "btc_address_from_script B ?s nw = None"
    using that by (simp_all add: prewarm_output_def cached_of_output_def from_output_def Let_def address_info_def)
  ultimately show ?thesis by (auto simp: input_items_def)
qed

section \<open>Examples\<close>

definition ex_genesis :: btc_block where
  "ex_genesis = ex_block 0 []"

definition ex_loader_env :: loader_env where
  "ex_loader_env =
     \<lparr> le_index = ex_index,
       le_files = [''blocks/blk00000.dat'' \<mapsto> Inr (frame MAGIC_MAINNET [7, 7, 7])],
       le_magic = (\<lambda>_. MAGIC_MAINNET),
       le_deserialize = (\<lambda>bs. if bs = [7, 7, 7] then Inr ex_genesis else Inl ''bad block'') \<rparr>"

definition ex_loader :: single_block_loader where
  "ex_loader = \<lparr> sl_blocks_dir = ''blocks'', sl_network = Bitcoin, sl_block_index = Map.empty \<rparr>"

lemma ex_file_name: "block_file_name 0 = ''blk00000.dat''"
  by code_simp

lemma ex_stored: "stored_at ex_loader_env ''blocks'' Bitcoin (ex_entry 0 9 8 1) ex_genesis"
  unfolding stored_at_def
  by (intro exI [of _ "[]"] exI [of _ "[7, 7, 7]"]) (simp add: ex_loader_env_def ex_entry_def ex_file_name)

lemma chain_block_loaded_witness:
  "fst (load_block ex_loader_env 0 ex_loader) = Inr (Some (0, ex_genesis, ''blk00000.dat'')) \<and>
   fst (load_block ex_loader_env 3 ex_loader) = Inr None"
proof -
  have main: "get_main_chain (le_index ex_loader_env) = Inr ex_chain"
    by (simp add: ex_loader_env_def ex_main_chain)
  have ok: "loader_ok ex_chain ex_loader" "length (le_magic ex_loader_env (sl_network ex_loader)) = 4"
    by (simp_all add: loader_ok_def ex_loader_def ex_loader_env_def MAGIC_MAINNET_def)
  have stored: "stored_at ex_loader_env (sl_blocks_dir ex_loader) (sl_network ex_loader) (ex_entry 0 9 8 1) ex_genesis"
    using ex_stored by (simp add: ex_loader_def)
  have mem: "ex_entry 0 9 8 1 \<in> set ex_chain" "bie_height (ex_entry 0 9 8 1) = 0" "bie_file_number (ex_entry 0 9 8 1) = 0"
    by (simp_all add: ex_chain_def ex_entry_def)
  have "\<exists>s'. load_block ex_loader_env 0 ex_loader = (Inr (Some (0, ex_genesis, block_file_name 0)), s')"
    using chain_block_loaded [OF main ok(1) _ ok(2), of 0] stored mem by auto
  moreover have "\<exists>s'. load_block ex_loader_env 3 ex_loader = (Inr None, s')"
  proof -
    have "3 \<notin> bie_height ` set ex_chain" by (simp add: ex_chain_def ex_entry_def)
    then show ?thesis using chain_block_loaded [OF main ok(1) _ ok(2), of 3] by auto
  qed
  ultimately show ?thesis by (auto simp: ex_file_name)
qed


text \<open>A pay-to-pubkey output and a library that, as the real one, has no address for it.\<close>

definition ex_btc_p2pk :: btc where
  "ex_btc_p2pk = ex_btc\<lparr>btc_address_from_script := \<lambda>_ _. None\<rparr>"

definition ex_p2pk :: script where
  "ex_p2pk = 33 # replicate 33 2 @ [0xAC]"

lemma prewarmed_entry_agreement_witness:
  "input_items [ex_key 1 \<mapsto> prewarm_output ex_btc_p2pk Bitcoin 0 \<lparr>to_value = 50, to_script_pubkey = ex_p2pk\<rparr>] [ex_key 1] = []"
proof -
  have "\<not> btc_is_op_return ex_btc_p2pk ex_p2pk" "btc_address_from_script ex_btc_p2pk ex_p2pk Bitcoin = None"
    "extract_address ex_btc_p2pk ex_p2pk Bitcoin = address_info (Some (btc_address_p2pkh ex_btc_p2pk (replicate 33 2) Bitcoin)) P2PK"
    by code_simp+
  then show ?thesis
    using prewarmed_entry_agreement [of ex_btc_p2pk "\<lparr>to_value = 50, to_script_pubkey = ex_p2pk\<rparr>" Bitcoin 0 "[]" _ "ex_key 1"]
    by simp
qed

end
