(* ===== verification/Live.thy ===== *)
theory Live
  imports Config Recovery Zmq Rpc Loader
begin

text \<open>
  The live mode of \<open>src/src/main.rs\<close> (\<open>run_live_ingestion\<close>, \<open>find_fork_point\<close>): catching up with
  the node over RPC in batches, then following it block by block on ZMQ notifications, with the
  handling of chain reorganisations and of a shutdown. The shutdown token is the number of times
  it will still be seen uncancelled. Loops that may run forever take fuel and answer \<open>None\<close> when
  it is used up. Log lines and statistics are left out.
\<close>

section \<open>Errors and state\<close>

text \<open>An \<open>anyhow\<close> error: its contexts, outermost first, around its cause.\<close>

datatype live_cause =
    FromConfig config_error
  | FromRpc rpc_error
  | FromWriter werror
  | FromZmq zmq_error
  | FromLoader loader_error
  | FromText string
  | FromPanic

type_synonym live_error = "string list \<times> live_cause"

record ('w, 'c, 'p, 'e, 's) live_state =
  lv_orch :: "('w, 'c) orch_state"
  lv_rpc :: "'p rpc_provider"
  lv_zmq :: "('e, 's) zmq_listener"
  lv_tracker :: shutdown_height_tracker
  lv_current_height :: u32
  lv_blocks_processed :: u64
  lv_polls :: "nat option"

type_synonym ('w, 'c, 'p, 'e, 's, 'a) live = "(('w, 'c, 'p, 'e, 's) live_state, live_error, 'a) action"

definition on_orch :: "string list \<Rightarrow> ('w, 'c, 'a) orch \<Rightarrow> ('w, 'c, 'p, 'e, 's, 'a) live" where
  "on_orch ctx m s =
     (case m (lv_orch s) of
        (Inl e, st) \<Rightarrow> (Inl (ctx, FromWriter e), s\<lparr>lv_orch := st\<rparr>)
      | (Inr x, st) \<Rightarrow> (Inr x, s\<lparr>lv_orch := st\<rparr>))"

definition on_rpc :: "string list \<Rightarrow> ('p, 'a) rpc \<Rightarrow> ('w, 'c, 'p, 'e, 's, 'a) live" where
  "on_rpc ctx m s =
     (case m (lv_rpc s) of
        (Inl e, p) \<Rightarrow> (Inl (ctx, FromRpc e), s\<lparr>lv_rpc := p\<rparr>)
      | (Inr x, p) \<Rightarrow> (Inr x, s\<lparr>lv_rpc := p\<rparr>))"

definition on_zmq :: "string list \<Rightarrow> ('e, 's, 'a) zmq \<Rightarrow> ('w, 'c, 'p, 'e, 's, 'a) live" where
  "on_zmq ctx m s =
     (case m (lv_zmq s) of
        (Inl e, l) \<Rightarrow> (Inl (ctx, FromZmq e), s\<lparr>lv_zmq := l\<rparr>)
      | (Inr x, l) \<Rightarrow> (Inr x, s\<lparr>lv_zmq := l\<rparr>))"

definition is_cancelled :: "('w, 'c, 'p, 'e, 's, bool) live" where
  "is_cancelled s =
     (case lv_polls s of
        None \<Rightarrow> (Inr False, s)
      | Some 0 \<Rightarrow> (Inr True, s)
      | Some (Suc n) \<Rightarrow> (Inr False, s\<lparr>lv_polls := Some n\<rparr>))"

section \<open>The fork point\<close>

definition no_fork_point :: live_error where
  "no_fork_point = ([], FromText ''Fork point not found - stored and canonical chains diverge all the way to genesis. This likely means the database was built against a different Bitcoin network.'')"

fun fork_walk :: "('w, 'c) orchestrator \<Rightarrow> 'p http_ops \<Rightarrow> u32 list \<Rightarrow> ('w, 'c, 'p, 'e, 's, u32) live" where
  "fork_walk E H [] = fail no_fork_point"
| "fork_walk E H (height # hs) =
     and_then (on_orch [''Failed to lookup stored block hash at height '' @ u32_to_dec height] (lookup_block_hash E height))
       (\<lambda>our_hash.
     and_then (on_rpc [''Failed to get canonical block hash at height '' @ u32_to_dec height] (get_block_hash H height))
       (\<lambda>canonical_hash.
     if our_hash = Some canonical_hash then ret height else fork_walk E H hs))"

definition find_fork_point :: "('w, 'c) orchestrator \<Rightarrow> 'p http_ops \<Rightarrow> u32 \<Rightarrow> ('w, 'c, 'p, 'e, 's, u32) live" where
  "find_fork_point E H start_height = fork_walk E H (heights_down 0 start_height)"

section \<open>Phase A: catching up\<close>

text \<open>What follows the fetch of a batch that starts at \<open>current\<close>: the batch is ingested and its last
  height recorded. The answers of these steps say whether the loop goes on.\<close>

definition commit_batch :: "('w, 'c) orchestrator \<Rightarrow> u32 \<Rightarrow> sourced_block list \<Rightarrow> ('w, 'c, 'p, 'e, 's, bool) live" where
  "commit_batch E current blocks =
     (let batch_end = fst (last blocks) in
      and_then (on_orch [''Failed to ingest batch '' @ u32_to_dec current @ ''-'' @ u32_to_dec batch_end]
         (ingest_blocks_batch E blocks)) (\<lambda>_ s.
      and_then is_cancelled (\<lambda>stop s'.
        if stop then (Inr False, s')
        else (Inr True, s'\<lparr>lv_blocks_processed := lv_blocks_processed s' + of_nat (length blocks),
                           lv_current_height := batch_end + 1\<rparr>))
        (s\<lparr>lv_tracker := record_batch_commit batch_end (lv_tracker s)\<rparr>)))"

definition ingest_fetched :: "('w, 'c) orchestrator \<Rightarrow> u32 \<Rightarrow> sourced_block list \<Rightarrow> ('w, 'c, 'p, 'e, 's, bool) live" where
  "ingest_fetched E current blocks =
     (if blocks = [] then ret False
      else and_then is_cancelled (\<lambda>stop. if stop then ret False else commit_batch E current blocks))"

definition fetch_and_ingest :: "('w, 'c) orchestrator \<Rightarrow> 'p http_ops \<Rightarrow> u32 \<Rightarrow> u32 \<Rightarrow> ('w, 'c, 'p, 'e, 's, bool) live" where
  "fetch_and_ingest E H max_height tip s =
     (let target = min tip max_height; current = lv_current_height s in
      if current > target then (Inr False, s)
      else
        let remaining = unat (target - current + 1);
            fetch_count = min remaining (rp_batch_size (lv_rpc s))
        in and_then (on_rpc [''Failed to fetch RPC batch at height '' @ u32_to_dec current]
               (get_block_batch H current fetch_count)) (ingest_fetched E current) s)"

text \<open>One turn of the loop.\<close>

definition catchup_turn :: "('w, 'c) orchestrator \<Rightarrow> 'p http_ops \<Rightarrow> u32 \<Rightarrow> ('w, 'c, 'p, 'e, 's, bool) live" where
  "catchup_turn E H max_height =
     and_then is_cancelled (\<lambda>stop.
     if stop then ret False
     else and_then (on_rpc [''Failed to get chain tip during catchup''] (get_tip_height H)) (fetch_and_ingest E H max_height))"

fun catchup :: "('w, 'c) orchestrator \<Rightarrow> 'p http_ops \<Rightarrow> u32 \<Rightarrow> nat \<Rightarrow> ('w, 'c, 'p, 'e, 's) live_state
    \<Rightarrow> ((live_error + unit) \<times> ('w, 'c, 'p, 'e, 's) live_state) option" where
  "catchup E H max_height 0 s = None"
| "catchup E H max_height (Suc n) s =
     (case catchup_turn E H max_height s of
        (Inl e, s') \<Rightarrow> Some (Inl e, s')
      | (Inr False, s') \<Rightarrow> Some (Inr (), s')
      | (Inr True, s') \<Rightarrow> catchup E H max_height n s')"

section \<open>Phase C: real time\<close>

text \<open>A reorganisation reported at \<open>reorg_height\<close>: the blocks above the fork point are rolled back and
  the height to go on from is the one above it.\<close>

definition handle_reorg :: "('w, 'c) orchestrator \<Rightarrow> 'p http_ops \<Rightarrow> u32 \<Rightarrow> ('w, 'c, 'p, 'e, 's, unit) live" where
  "handle_reorg E H reorg_height =
     and_then (\<lambda>s. case find_fork_point E H (saturating_sub reorg_height 1) s of
         (Inl (ctx, e), s') \<Rightarrow> (Inl (''Failed to find fork point during reorg'' # ctx, e), s')
       | (Inr f, s') \<Rightarrow> (Inr f, s')) (\<lambda>fork_point.
     and_then (on_orch [''Rollback failed during reorg handling'']
         (rollback_to_height E (saturating_sub reorg_height 1) fork_point)) (\<lambda>_ s.
     (Inr (), s\<lparr>lv_current_height := fork_point + 1\<rparr>)))"

text \<open>The inner loop over the heights up to the effective tip. It runs to its end, where
  \<open>height = effective_tip + 1\<close>, or breaks after a reorganisation.\<close>

fun follow :: "('w, 'c) orchestrator \<Rightarrow> 'p http_ops \<Rightarrow> u32 \<Rightarrow> u32 list \<Rightarrow> ('w, 'c, 'p, 'e, 's, unit) live" where
  "follow E H effective_tip [] s = (Inr (), s\<lparr>lv_current_height := effective_tip + 1\<rparr>)"
| "follow E H effective_tip (height # hs) s =
     and_then (on_rpc [''Failed to fetch block '' @ u32_to_dec height @ '' via RPC''] (get_block H height)) (\<lambda>block_data s1.
       case block_data of
         None \<Rightarrow> follow E H effective_tip hs s1
       | Some block_tuple \<Rightarrow>
           (case ingest_blocks_batch E [block_tuple] (lv_orch s1) of
              (Inr _, st) \<Rightarrow>
                follow E H effective_tip hs
                  (s1\<lparr>lv_orch := st, lv_tracker := record_block_commit height (lv_tracker s1),
                      lv_blocks_processed := lv_blocks_processed s1 + 1\<rparr>)
            | (Inl (ReorgDetected reorg_height expected actual), st) \<Rightarrow>
                and_then (handle_reorg E H reorg_height) (\<lambda>_ s2.
                  (Inr (), if lv_current_height s2 > effective_tip then s2\<lparr>lv_current_height := effective_tip + 1\<rparr> else s2))
                  (s1\<lparr>lv_orch := st\<rparr>)
            | (Inl e, st) \<Rightarrow>
                (Inl ([''Failed to ingest block '' @ u32_to_dec height], FromWriter e), s1\<lparr>lv_orch := st\<rparr>))) s"

definition heights_up :: "u32 \<Rightarrow> u32 \<Rightarrow> u32 list" where
  "heights_up a b = map word_of_nat [unat a ..< Suc (unat b)]"

text \<open>What follows a notification: the blocks up to the tip, and whether the loop goes on.\<close>

definition on_notification :: "('w, 'c) orchestrator \<Rightarrow> 'p http_ops \<Rightarrow> u32 \<Rightarrow> ('w, 'c, 'p, 'e, 's, bool) live" where
  "on_notification E H max_height =
     and_then (on_rpc [''Failed to get chain tip after ZMQ notification''] (get_tip_height H)) (\<lambda>tip s.
       let effective_tip = min tip max_height in
       and_then
         (if lv_current_height s \<le> effective_tip
          then follow E H effective_tip (heights_up (lv_current_height s) effective_tip)
          else ret ())
         (\<lambda>_ s'. (Inr (\<not> (max_height \<noteq> - 1 \<and> lv_current_height s' > max_height)), s')) s)"

text \<open>One turn of the loop with the number of consecutive failures. The token is looked at before
  the notification is waited for and before the pause after a failure.\<close>

definition realtime_turn :: "('w, 'c) orchestrator \<Rightarrow> 'p http_ops \<Rightarrow> ('e, 's) zmq_ops \<Rightarrow> u32 \<Rightarrow> u32 \<Rightarrow> u32
    \<Rightarrow> ('w, 'c, 'p, 'e, 's, u32 option) live" where
  "realtime_turn E H Z max_failures max_height failures =
     and_then is_cancelled (\<lambda>stop.
     if stop then ret None
     else (\<lambda>s.
       case recv_block_hash Z (lv_zmq s) of
         (Inr _, l) \<Rightarrow>
           and_then (on_notification E H max_height) (\<lambda>go. ret (if go then Some 0 else None)) (s\<lparr>lv_zmq := l\<rparr>)
       | (Inl e, l) \<Rightarrow>
           let failures' = failures + 1 in
           if failures' \<ge> max_failures
           then (Inl ([''ZMQ listener failed '' @ u32_to_dec failures' @ '' consecutive times, giving up''], FromZmq e),
                 s\<lparr>lv_zmq := l\<rparr>)
           else and_then is_cancelled (\<lambda>stop. ret (if stop then None else Some failures')) (s\<lparr>lv_zmq := l\<rparr>)))"

fun realtime :: "('w, 'c) orchestrator \<Rightarrow> 'p http_ops \<Rightarrow> ('e, 's) zmq_ops \<Rightarrow> u32 \<Rightarrow> u32 \<Rightarrow> nat \<Rightarrow> u32
    \<Rightarrow> ('w, 'c, 'p, 'e, 's) live_state \<Rightarrow> ((live_error + unit) \<times> ('w, 'c, 'p, 'e, 's) live_state) option" where
  "realtime E H Z max_failures max_height 0 failures s = None"
| "realtime E H Z max_failures max_height (Suc n) failures s =
     (case realtime_turn E H Z max_failures max_height failures s of
        (Inl e, s') \<Rightarrow> Some (Inl e, s')
      | (Inr None, s') \<Rightarrow> Some (Inr (), s')
      | (Inr (Some failures'), s') \<Rightarrow> realtime E H Z max_failures max_height n failures' s')"

section \<open>Shutdown\<close>

text \<open>The cache is saved under the height of the last committed block; a failed save is only logged.\<close>

definition save_on_shutdown :: "('w, 'c) orchestrator \<Rightarrow> string \<Rightarrow> ('w, 'c, 'p, 'e, 's) live_state \<Rightarrow> ('w, 'c, 'p, 'e, 's) live_state" where
  "save_on_shutdown E cache_file s =
     (if cache_file = [] then s
      else case save_height (lv_tracker s) of
        None \<Rightarrow> s
      | Some height \<Rightarrow>
          (let st = lv_orch s
           in s\<lparr>lv_orch := st\<lparr>os_disk := snd (save_to_file (or_lru E) (or_crc E) (or_io_faults E) cache_file height
                (os_cache st) (os_disk st))\<rparr>\<rparr>))"

text \<open>Phases A to C and the shutdown.\<close>

definition live_phases :: "('w, 'c) orchestrator \<Rightarrow> 'p http_ops \<Rightarrow> ('e, 's) zmq_ops \<Rightarrow> config \<Rightarrow> bitcoin_rpc_config \<Rightarrow> u32 \<Rightarrow> nat
    \<Rightarrow> ('w, 'c, 'p, 'e, 's) live_state \<Rightarrow> ((live_error + unit) \<times> ('w, 'c, 'p, 'e, 's) live_state) option" where
  "live_phases E H Z config rpc_config max_height fuel s =
     (case catchup E H max_height fuel s of
        None \<Rightarrow> None
      | Some (Inl e, s1) \<Rightarrow> Some (Inl e, s1)
      | Some (Inr _, s1) \<Rightarrow>
          if max_height \<noteq> - 1 \<and> lv_current_height s1 > max_height then Some (Inr (), s1)
          else case on_zmq [''Failed to establish ZMQ connection''] (connect Z) s1 of
            (Inl e, s2) \<Rightarrow> Some (Inl e, s2)
          | (Inr _, s2) \<Rightarrow>
              (case realtime E H Z (rc_zmq_max_consecutive_failures rpc_config) max_height fuel 0 s2 of
                 None \<Rightarrow> None
               | Some (Inl e, s3) \<Rightarrow> Some (Inl e, s3)
               | Some (Inr _, s3) \<Rightarrow>
                   Some (Inr (), save_on_shutdown E (pc_utxo_cache_file (cf_performance config)) s3)))"

end
