(* ===== verification/Streaming.thy ===== *)
theory Streaming
  imports Live
begin

text \<open>
  Streaming ingestion from the block files (\<open>run_streaming_ingestion\<close> of \<open>src/src/main.rs\<close>): the
  cache is restored or pre-warmed, blocks are read one after the other into a batch of at most
  5000, and every full batch is ingested. The state is the orchestrator's and the loader's.
\<close>

section \<open>State\<close>

type_synonym ('w, 'c, 'a) streaming = "(('w, 'c) orch_state \<times> single_block_loader, live_error, 'a) action"

definition READ_AHEAD_BLOCKS :: usize where
  "READ_AHEAD_BLOCKS = 5000"

section \<open>The loop\<close>

definition ingest_batch :: "('w, 'c) orchestrator \<Rightarrow> chunk \<Rightarrow> ('w, 'c, unit) streaming" where
  "ingest_batch E batch = (\<lambda>(st, ld).
     case ingest_blocks_batch E batch st of
       (Inl e, st') \<Rightarrow>
         (Inl ([''Failed to ingest batch starting at block '' @ u32_to_dec (fst (hd batch))], FromWriter e), (st', ld))
     | (Inr _, st') \<Rightarrow> (Inr (), (st', ld)))"

text \<open>The loop over the heights \<open>height, ..., max_height\<close>, of which there are \<open>n\<close>; the answer is
  \<open>blocks_processed\<close>. A missing block ends it.\<close>

fun stream_loop :: "('w, 'c) orchestrator \<Rightarrow> loader_env \<Rightarrow> u32 \<Rightarrow> nat \<Rightarrow> u32 \<Rightarrow> chunk \<Rightarrow> nat
    \<Rightarrow> ('w, 'c, nat) streaming" where
  "stream_loop E LE max_height 0 height batch processed (st, ld) = (Inr processed, (st, ld))"
| "stream_loop E LE max_height (Suc n) height batch processed (st, ld) =
     (case load_block LE height ld of
        (Inl e, ld') \<Rightarrow> (Inl ([], FromLoader e), (st, ld'))
      | (Inr None, ld') \<Rightarrow> (Inr processed, (st, ld'))
      | (Inr (Some loaded), ld') \<Rightarrow>
          let batch' = batch @ [loaded] in
          if length batch' \<ge> READ_AHEAD_BLOCKS \<or> height = max_height
          then and_then (ingest_batch E batch') (\<lambda>_.
                 stream_loop E LE max_height n (height + 1) [] (processed + length batch')) (st, ld')
          else stream_loop E LE max_height n (height + 1) batch' processed (st, ld'))"

section \<open>Around the loop\<close>

text \<open>An error while restoring is only logged.\<close>

definition restore_cache :: "('w, 'c) orchestrator \<Rightarrow> string \<Rightarrow> ('w, 'c) orch_state \<Rightarrow> ('w, 'c) orch_state" where
  "restore_cache E cache_file st =
     (if cache_file = [] then st
      else st\<lparr>os_cache := snd (load_from_file (or_lru E) (or_crc E) cache_file (os_disk st) (os_cache st))\<rparr>)"

definition prewarm_if :: "('w, 'c) orchestrator \<Rightarrow> loader_env \<Rightarrow> bool \<Rightarrow> u32 \<Rightarrow> u32 \<Rightarrow> ('w, 'c, unit) streaming" where
  "prewarm_if E LE enable_prewarm depth start_height = (\<lambda>(st, ld).
     if enable_prewarm \<and> depth > 0 \<and> start_height > 0 then
       (case prewarm_cache (or_lru E) (or_btc E) LE start_height depth (ld, enable_prewarm_mode (os_cache st)) of
          (Inl e, ld', c) \<Rightarrow> (Inl ([''Cache pre-warming failed''], FromLoader e), (st\<lparr>os_cache := c\<rparr>, ld'))
        | (Inr _, ld', c) \<Rightarrow> (Inr (), (st\<lparr>os_cache := disable_prewarm_mode c\<rparr>, ld')))
     else (Inr (), (st, ld)))"

definition preload_if :: "loader_env \<Rightarrow> u32 \<Rightarrow> u32 \<Rightarrow> ('w, 'c, unit) streaming" where
  "preload_if LE start_height max_height = (\<lambda>(st, ld).
     if max_height \<noteq> - 1 then
       (case preload_full_range LE start_height max_height ld of
          (Inl e, ld') \<Rightarrow> (Inl ([''Failed to preload index range''], FromLoader e), (st, ld'))
        | (Inr _, ld') \<Rightarrow> (Inr (), (st, ld')))
     else (Inr (), (st, ld)))"

definition save_on_completion :: "('w, 'c) orchestrator \<Rightarrow> string \<Rightarrow> u32 \<Rightarrow> ('w, 'c) orch_state \<Rightarrow> ('w, 'c) orch_state" where
  "save_on_completion E cache_file final_height st =
     (if cache_file = [] then st
      else st\<lparr>os_disk := snd (save_to_file (or_lru E) (or_crc E) (or_io_faults E) cache_file final_height
             (os_cache st) (os_disk st))\<rparr>)"

definition run_streaming_ingestion :: "('w, 'c) orchestrator \<Rightarrow> loader_env \<Rightarrow> config \<Rightarrow> u32 \<Rightarrow> u32 \<Rightarrow> bool
    \<Rightarrow> ('w, 'c, unit) streaming" where
  "run_streaming_ingestion E LE config start_height max_height enable_prewarm = (\<lambda>(st0, ld0).
     let cache_file = pc_utxo_cache_file (cf_performance config);
         st = restore_cache E cache_file
                (set_cache_snapshot_path (if cache_file = [] then None else Some cache_file) st0)
     in and_then (prewarm_if E LE enable_prewarm (pc_utxo_prewarm_depth (cf_performance config)) start_height) (\<lambda>_.
        and_then (preload_if LE start_height max_height) (\<lambda>_.
        and_then (stream_loop E LE max_height (Suc (unat max_height) - unat start_height) start_height [] 0)
          (\<lambda>blocks_processed (st', ld').
             (Inr (), (save_on_completion E cache_file (start_height + of_nat blocks_processed) st', ld')))))
        (st, ld0))"

end
