(* ===== verification/Cypher.thy ===== *)
theory Cypher
  imports Prelude
begin

text \<open>
  The Cypher statements of \<open>src/src/writer/neo4j/queries.rs\<close> and \<open>schema.rs\<close>, character by
  character: what the writer of \<open>Neo4j\<close> sends to the server. Their meaning is the server's.
\<close>

section \<open>Statements of the writer\<close>

definition CREATE_BLOCKS_QUERY :: string where
  "CREATE_BLOCKS_QUERY = ''
    UNWIND $blocks AS block
    MERGE (b:Block {hash: block.hash})
    SET b.height = block.height,
        b.previousHash = block.previousHash,
        b.merkleRoot = block.merkleRoot,
        b.timestamp = datetime({epochSeconds: block.timestamp}),
        b.bits = block.bits,
        b.difficulty = block.difficulty,
        b.nonce = block.nonce,
        b.version = block.version,
        b.txCount = block.txCount,
        b.size = block.size,
        b.weight = block.weight
    WITH b, block
    WHERE block.height > 0
    OPTIONAL MATCH (prev:Block {height: block.height - 1})
    FOREACH (ignoreMe IN CASE WHEN prev IS NOT NULL THEN [1] ELSE [] END |
        MERGE (prev)-[:NEXT_BLOCK]->(b)
    )
''"

definition CREATE_TRANSACTIONS_QUERY :: string where
  "CREATE_TRANSACTIONS_QUERY = ''
    UNWIND $transactions AS tx
    MERGE (t:Transaction {txid: tx.txid})
    SET t.blockHeight = tx.blockHeight,
        t.blockHash = tx.blockHash,
        t.timestamp = datetime({epochSeconds: tx.timestamp}),
        t.version = tx.version,
        t.locktime = tx.locktime,
        t.size = tx.size,
        t.vsize = tx.vsize,
        t.weight = tx.weight,
        t.isCoinbase = tx.isCoinbase,
        t.totalInput = tx.totalInput,
        t.totalOutput = tx.totalOutput,
        t.fee = tx.fee
    WITH t, tx
    MATCH (b:Block {height: tx.blockHeight})
    MERGE (t)-[:INCLUDED_IN]->(b)
''"

definition CREATE_OUTPUTS_QUERY :: string where
  "CREATE_OUTPUTS_QUERY = ''
    UNWIND $outputs AS out
    MERGE (o:Output {outputId: out.outputId})
    ON CREATE SET
        o.outputIndex = out.outputIndex,
        o.amount = out.amount,
        o.scriptPubKey = out.scriptPubKey,
        o.scriptType = out.scriptType
    ON MATCH SET
        o.outputIndex = out.outputIndex,
        o.amount = out.amount,
        o.scriptPubKey = out.scriptPubKey,
        o.scriptType = out.scriptType
''"

definition CREATE_LOCKED_TO_QUERY :: string where
  "CREATE_LOCKED_TO_QUERY = ''
    UNWIND $outputs AS out
    MATCH (o:Output {outputId: out.outputId})
    MERGE (a:Address {address: out.address})
    MERGE (o)-[:LOCKED_TO]->(a)
''"

definition CREATE_HAS_OUTPUT_QUERY :: string where
  "CREATE_HAS_OUTPUT_QUERY = ''
    UNWIND $outputs AS out
    MATCH (t:Transaction {txid: out.txid})
    MATCH (o:Output {outputId: out.outputId})
    MERGE (t)-[:HAS_OUTPUT]->(o)
''"

definition CREATE_INPUTS_QUERY :: string where
  "CREATE_INPUTS_QUERY = ''
    UNWIND $inputs AS inp
    MERGE (i:Input {inputId: inp.inputId})
    SET i.inputIndex = inp.inputIndex,
        i.scriptSig = inp.scriptSig,
        i.sequence = inp.sequence,
        i.witness = inp.witness
    WITH i, inp
    MATCH (t:Transaction {txid: inp.txid})
    MERGE (t)-[:HAS_INPUT]->(i)
    WITH i, inp
    WHERE inp.previousOutputIndex <> 4294967295
    MATCH (o:Output {outputId: inp.previousOutputId})
    MERGE (i)-[:SPENDS]->(o)
''"

definition CREATE_PERFORMS_BULK_QUERY :: string where
  "CREATE_PERFORMS_BULK_QUERY = ''
    UNWIND $performs AS p
    MERGE (addr:Address {address: p.fromAddress})
    WITH addr, p
    MATCH (t:Transaction {txid: p.toTxid})
    MERGE (addr)-[r:PERFORMS]->(t)
    SET r.inputCount = p.inputCount,
        r.amountSpent = p.amountSpent
''"

definition CREATE_BENEFITS_TO_BULK_QUERY :: string where
  "CREATE_BENEFITS_TO_BULK_QUERY = ''
    UNWIND $benefitsTo AS b
    MATCH (t:Transaction {txid: b.fromTxid})
    WITH t, b
    MERGE (addr:Address {address: b.toAddress})
    MERGE (t)-[r:BENEFITS_TO]->(addr)
    SET r.outputCount = b.outputCount,
        r.amountReceived = b.amountReceived
''"

definition MARK_OUTPUT_SPENT_QUERY :: string where
  "MARK_OUTPUT_SPENT_QUERY = ''
    MATCH (o:Output {outputId: $outputId})
    SET o.isSpent = true,
        o.spentInTxid = $spentInTxid,
        o.spentAtHeight = $spentAtHeight
''"

definition LOOKUP_OUTPUTS_BATCH_QUERY :: string where
  "LOOKUP_OUTPUTS_BATCH_QUERY = ''
    UNWIND $outputIds AS oid
    MATCH (o:Output {outputId: oid})
    OPTIONAL MATCH (o)-[:LOCKED_TO]->(a:Address)
    RETURN o.outputId AS outputId,
           o.outputIndex AS outputIndex,
           o.amount AS amount,
           o.scriptType AS scriptType,
           a.address AS address
''"

definition DELETE_CHECKPOINT_QUERY :: string where
  "DELETE_CHECKPOINT_QUERY = ''
    MATCH (c:IngestionCheckpoint) DELETE c
''"

definition CREATE_CHECKPOINT_QUERY :: string where
  "CREATE_CHECKPOINT_QUERY = ''
    CREATE (c:IngestionCheckpoint {
        lastProcessedHeight: -999,
        lastProcessedHash: '0000000000000000000000000000000000000000000000000000000000000000',
        lastProcessedFile: 'blk00000.dat',
        lastProcessedFileOffset: 0,
        timestamp: datetime(),
        status: 'in_progress'
    })
''"

definition SET_CHECKPOINT_STATUS_QUERY :: string where
  "SET_CHECKPOINT_STATUS_QUERY = ''
    MATCH (c:IngestionCheckpoint)
    SET c.status = $status,
        c.timestamp = datetime()
''"

definition UPDATE_CHECKPOINT_QUERY :: string where
  "UPDATE_CHECKPOINT_QUERY = ''
    MERGE (c:IngestionCheckpoint)
    SET c.lastProcessedHeight = $height,
        c.lastProcessedHash = $hash,
        c.lastProcessedFile = $file,
        c.lastProcessedFileOffset = $offset,
        c.timestamp = datetime(),
        c.status = $status
''"

definition GET_CHECKPOINT_QUERY :: string where
  "GET_CHECKPOINT_QUERY = ''
    MATCH (c:IngestionCheckpoint)
    RETURN c.lastProcessedHeight AS lastProcessedHeight,
           c.lastProcessedHash AS lastProcessedHash,
           c.lastProcessedFile AS lastProcessedFile,
           c.lastProcessedFileOffset AS lastProcessedFileOffset,
           c.timestamp AS timestamp,
           c.status AS status
''"

definition MARK_CHECKPOINT_COMPLETE_QUERY :: string where
  "MARK_CHECKPOINT_COMPLETE_QUERY = ''
    MATCH (c:IngestionCheckpoint)
    SET c.status = 'completed',
        c.timestamp = datetime()
''"

definition LOOKUP_BLOCK_HASH_QUERY :: string where
  "LOOKUP_BLOCK_HASH_QUERY = ''
    MATCH (b:Block {height: $height})
    RETURN b.hash AS hash
''"

definition ROLLBACK_DELETE_INPUTS_QUERY :: string where
  "ROLLBACK_DELETE_INPUTS_QUERY = ''
    MATCH (:Block {height: $height})<-[:INCLUDED_IN]-(:Transaction)-[:HAS_INPUT]->(i:Input)
    DETACH DELETE i
''"

definition ROLLBACK_DELETE_OUTPUTS_QUERY :: string where
  "ROLLBACK_DELETE_OUTPUTS_QUERY = ''
    MATCH (:Block {height: $height})<-[:INCLUDED_IN]-(:Transaction)-[:HAS_OUTPUT]->(o:Output)
    DETACH DELETE o
''"

definition ROLLBACK_DELETE_TRANSACTIONS_QUERY :: string where
  "ROLLBACK_DELETE_TRANSACTIONS_QUERY = ''
    MATCH (:Block {height: $height})<-[:INCLUDED_IN]-(t:Transaction)
    DETACH DELETE t
''"

definition ROLLBACK_DELETE_BLOCK_QUERY :: string where
  "ROLLBACK_DELETE_BLOCK_QUERY = ''
    MATCH (b:Block {height: $height})
    DETACH DELETE b
''"

definition CREATE_BLOCKS_FAST_QUERY :: string where
  "CREATE_BLOCKS_FAST_QUERY = ''
    UNWIND $blocks AS block
    CREATE (b:Block {hash: block.hash})
    SET b.height = block.height,
        b.previousHash = block.previousHash,
        b.merkleRoot = block.merkleRoot,
        b.timestamp = datetime({epochSeconds: block.timestamp}),
        b.bits = block.bits,
        b.difficulty = block.difficulty,
        b.nonce = block.nonce,
        b.version = block.version,
        b.txCount = block.txCount,
        b.size = block.size,
        b.weight = block.weight
    WITH b, block
    WHERE block.height > 0
    MATCH (prev:Block {height: block.height - 1})
    CREATE (prev)-[:NEXT_BLOCK]->(b)
''"

definition CREATE_TRANSACTIONS_FAST_QUERY :: string where
  "CREATE_TRANSACTIONS_FAST_QUERY = ''
    UNWIND $transactions AS tx
    CREATE (t:Transaction {txid: tx.txid})
    SET t.blockHeight = tx.blockHeight,
        t.blockHash = tx.blockHash,
        t.timestamp = datetime({epochSeconds: tx.timestamp}),
        t.version = tx.version,
        t.locktime = tx.locktime,
        t.size = tx.size,
        t.vsize = tx.vsize,
        t.weight = tx.weight,
        t.isCoinbase = tx.isCoinbase,
        t.totalInput = tx.totalInput,
        t.totalOutput = tx.totalOutput,
        t.fee = tx.fee
    WITH t, tx
    MATCH (b:Block {height: tx.blockHeight})
    CREATE (t)-[:INCLUDED_IN]->(b)
''"

definition CREATE_OUTPUTS_WITH_LOCKED_TO_FAST_QUERY :: string where
  "CREATE_OUTPUTS_WITH_LOCKED_TO_FAST_QUERY = ''
    UNWIND $outputs AS out
    CREATE (o:Output {
        outputId: out.outputId,
        outputIndex: out.outputIndex,
        amount: out.amount,
        scriptPubKey: out.scriptPubKey,
        scriptType: out.scriptType
    })
    WITH o, out
    WHERE out.address IS NOT NULL
    MERGE (a:Address {address: out.address})
    CREATE (o)-[:LOCKED_TO]->(a)
''"

definition CREATE_INPUTS_FAST_QUERY :: string where
  "CREATE_INPUTS_FAST_QUERY = ''
    UNWIND $inputs AS inp
    CREATE (i:Input {inputId: inp.inputId})
    SET i.inputIndex = inp.inputIndex,
        i.scriptSig = inp.scriptSig,
        i.sequence = inp.sequence,
        i.witness = inp.witness
    WITH i, inp
    MATCH (t:Transaction {txid: inp.txid})
    CREATE (t)-[:HAS_INPUT]->(i)
    WITH i, inp
    WHERE inp.previousOutputIndex <> 4294967295
    MATCH (o:Output {outputId: inp.previousOutputId})
    CREATE (i)-[:SPENDS]->(o)
''"

definition CREATE_HAS_OUTPUT_FAST_QUERY :: string where
  "CREATE_HAS_OUTPUT_FAST_QUERY = ''
    UNWIND $outputs AS out
    MATCH (t:Transaction {txid: out.txid})
    MATCH (o:Output {outputId: out.outputId})
    CREATE (t)-[:HAS_OUTPUT]->(o)
''"

definition GET_MAX_BLOCK_HEIGHT_QUERY :: string where
  "GET_MAX_BLOCK_HEIGHT_QUERY = ''
    MATCH (b:Block)
    RETURN max(b.height) AS maxHeight
''"

definition CHECK_BLOCK_COMPLETE_QUERY :: string where
  "CHECK_BLOCK_COMPLETE_QUERY = ''
    MATCH (b:Block {height: $height})
    OPTIONAL MATCH (t:Transaction)-[:INCLUDED_IN]->(b)
    RETURN b.txCount AS expectedTxCount, count(t) AS actualTxCount
''"

section \<open>Statements of the schema\<close>

definition schema_constraints :: "string list" where
  "schema_constraints =
    [''CREATE CONSTRAINT block_height_unique IF NOT EXISTS
         FOR (b:Block) REQUIRE b.height IS UNIQUE'',
     ''CREATE CONSTRAINT block_hash_unique IF NOT EXISTS
         FOR (b:Block) REQUIRE b.hash IS UNIQUE'',
     ''CREATE CONSTRAINT transaction_unique IF NOT EXISTS
         FOR (t:Transaction) REQUIRE t.txid IS UNIQUE'',
     ''CREATE CONSTRAINT output_unique IF NOT EXISTS
         FOR (o:Output) REQUIRE o.outputId IS UNIQUE'',
     ''CREATE CONSTRAINT input_unique IF NOT EXISTS
         FOR (i:Input) REQUIRE i.inputId IS UNIQUE'',
     ''CREATE CONSTRAINT address_unique IF NOT EXISTS
         FOR (a:Address) REQUIRE a.address IS UNIQUE'']"

definition schema_indexes :: "string list" where
  "schema_indexes =
    [''CREATE INDEX transaction_timestamp IF NOT EXISTS
         FOR (t:Transaction) ON (t.timestamp)'',
     ''CREATE INDEX transaction_block IF NOT EXISTS
         FOR (t:Transaction) ON (t.blockHeight)'',
     ''CREATE INDEX transaction_coinbase IF NOT EXISTS
         FOR (t:Transaction) ON (t.isCoinbase)'',
     ''CREATE INDEX output_amount IF NOT EXISTS
         FOR (o:Output) ON (o.amount)'',
     ''CREATE INDEX output_script_type IF NOT EXISTS
         FOR (o:Output) ON (o.scriptType)'',
     ''CREATE INDEX block_timestamp IF NOT EXISTS
         FOR (b:Block) ON (b.timestamp)'']"

end
