(* ===== verification/BoltConv.thy ===== *)
theory BoltConv
  imports Models Cypher
begin

text \<open>
  The conversions from the domain records to the parameter values of the database driver
  (\<open>src/src/writer/neo4j/conversions.rs\<close>). A value of the Bolt protocol is a \<open>bolt\<close>; a
  \<open>BoltMap\<close> holds its fields in the order of their first insertion.
\<close>

section \<open>Bolt values\<close>

datatype bolt =
    BoltString string
  | BoltInteger i64
  | BoltBoolean bool
  | BoltFloat f64
  | BoltList "bolt list"
  | BoltMap "(string \<times> bolt) list"

text \<open>\<open>BoltMap::put\<close>, and the map that a sequence of \<open>put\<close>s builds.\<close>

definition bolt_put :: "(string \<times> bolt) \<Rightarrow> (string \<times> bolt) list \<Rightarrow> (string \<times> bolt) list" where
  "bolt_put = (\<lambda>(k, v). AList.update k v)"

definition bolt_map :: "(string \<times> bolt) list \<Rightarrow> (string \<times> bolt) list" where
  "bolt_map puts = fold bolt_put puts []"

text \<open>The casts \<open>as i64\<close>: exact from the narrower types, reinterpreting from 64 bits.\<close>

definition u32_as_i64 :: "u32 \<Rightarrow> bolt" where
  "u32_as_i64 x = BoltInteger (uint x)"

definition u64_as_i64 :: "u64 \<Rightarrow> bolt" where
  "u64_as_i64 x = BoltInteger (sint x)"

definition usize_as_i64 :: "usize \<Rightarrow> bolt" where
  "usize_as_i64 n = BoltInteger (sint (word_of_nat n :: u64))"

section \<open>Records to maps\<close>

definition block_to_bolt_map :: "block_data \<Rightarrow> (string \<times> bolt) list" where
  "block_to_bolt_map block = bolt_map
     [(''height'', u32_as_i64 (bd_height block)),
      (''hash'', BoltString (bd_hash block)),
      (''previousHash'', BoltString (bd_previous_hash block)),
      (''merkleRoot'', BoltString (bd_merkle_root block)),
      (''timestamp'', BoltInteger (bd_timestamp block)),
      (''bits'', BoltString (bd_bits block)),
      (''difficulty'', BoltFloat (bd_difficulty block)),
      (''nonce'', u32_as_i64 (bd_nonce block)),
      (''version'', BoltInteger (bd_version block)),
      (''txCount'', u32_as_i64 (bd_tx_count block)),
      (''size'', u64_as_i64 (bd_size block)),
      (''weight'', u64_as_i64 (bd_weight block))]"

definition blocks_to_bolt_list :: "block_data list \<Rightarrow> bolt list" where
  "blocks_to_bolt_list blocks = map (\<lambda>b. BoltMap (block_to_bolt_map b)) blocks"

definition transaction_to_bolt_map :: "transaction_data \<Rightarrow> (string \<times> bolt) list" where
  "transaction_to_bolt_map tx = bolt_map
     [(''txid'', BoltString (td_txid tx)),
      (''blockHeight'', u32_as_i64 (td_block_height tx)),
      (''blockHash'', BoltString (td_block_hash tx)),
      (''timestamp'', BoltInteger (td_timestamp tx)),
      (''version'', BoltInteger (td_version tx)),
      (''locktime'', u32_as_i64 (td_locktime tx)),
      (''size'', usize_as_i64 (td_size tx)),
      (''vsize'', usize_as_i64 (td_vsize tx)),
      (''weight'', usize_as_i64 (td_weight tx)),
      (''isCoinbase'', BoltBoolean (td_is_coinbase tx)),
      (''totalInput'', case td_total_input tx of Some n \<Rightarrow> u64_as_i64 n | None \<Rightarrow> BoltInteger 0),
      (''totalOutput'', case td_total_output tx of Some n \<Rightarrow> u64_as_i64 n | None \<Rightarrow> BoltInteger 0),
      (''fee'', case td_fee tx of Some n \<Rightarrow> u64_as_i64 n | None \<Rightarrow> BoltInteger 0)]"

definition transactions_to_bolt_list :: "transaction_data list \<Rightarrow> bolt list" where
  "transactions_to_bolt_list transactions = map (\<lambda>tx. BoltMap (transaction_to_bolt_map tx)) transactions"

definition output_to_bolt_map :: "output_data \<Rightarrow> (string \<times> bolt) list" where
  "output_to_bolt_map output = bolt_map
     ([(''outputId'', BoltString (od_output_id output)),
       (''outputIndex'', u32_as_i64 (od_output_index output)),
       (''txid'', BoltString (od_txid output)),
       (''amount'', u64_as_i64 (od_amount output)),
       (''scriptPubKey'', BoltString (od_script_pubkey output)),
       (''scriptType'', BoltString (od_script_type output))] @
      (case od_address output of Some address \<Rightarrow> [(''address'', BoltString address)] | None \<Rightarrow> []))"

definition outputs_to_bolt_list :: "output_data list \<Rightarrow> bolt list" where
  "outputs_to_bolt_list outputs = map (\<lambda>out. BoltMap (output_to_bolt_map out)) outputs"

definition output_refs_to_bolt_list :: "output_data list \<Rightarrow> bolt list" where
  "output_refs_to_bolt_list outputs = map (\<lambda>out. BoltMap (output_to_bolt_map out)) outputs"

definition filter_outputs_with_address :: "output_data list \<Rightarrow> output_data list" where
  "filter_outputs_with_address outputs = filter (\<lambda>out. od_address out \<noteq> None) outputs"

definition input_to_bolt_map :: "input_data \<Rightarrow> (string \<times> bolt) list" where
  "input_to_bolt_map inp = bolt_map
     [(''inputId'', BoltString (id_input_id inp)),
      (''inputIndex'', u32_as_i64 (id_input_index inp)),
      (''txid'', BoltString (id_txid inp)),
      (''previousTxid'', BoltString (id_previous_txid inp)),
      (''previousOutputIndex'', u32_as_i64 (id_previous_output_index inp)),
      (''scriptSig'', BoltString (id_script_sig inp)),
      (''sequence'', u32_as_i64 (id_sequence inp)),
      (''witness'', BoltList (map BoltString (id_witness inp))),
      (''previousOutputId'', BoltString (id_previous_txid inp @ '':'' @ u32_to_dec (id_previous_output_index inp)))]"

definition inputs_to_bolt_list :: "input_data list \<Rightarrow> bolt list" where
  "inputs_to_bolt_list inputs = map (\<lambda>inp. BoltMap (input_to_bolt_map inp)) inputs"

definition performs_to_bolt_map :: "performs_data \<Rightarrow> (string \<times> bolt) list" where
  "performs_to_bolt_map p = bolt_map
     [(''fromAddress'', BoltString (pd_from_address p)),
      (''toTxid'', BoltString (pd_to_txid p)),
      (''inputCount'', u32_as_i64 (pd_input_count p)),
      (''amountSpent'', u64_as_i64 (pd_amount_spent p))]"

definition performs_to_bolt_list :: "performs_data list \<Rightarrow> bolt list" where
  "performs_to_bolt_list performs = map (\<lambda>p. BoltMap (performs_to_bolt_map p)) performs"

definition benefits_to_to_bolt_map :: "benefits_to_data \<Rightarrow> (string \<times> bolt) list" where
  "benefits_to_to_bolt_map b = bolt_map
     [(''fromTxid'', BoltString (ben_from_txid b)),
      (''toAddress'', BoltString (ben_to_address b)),
      (''outputCount'', u32_as_i64 (ben_output_count b)),
      (''amountReceived'', u64_as_i64 (ben_amount_received b))]"

definition benefits_to_to_bolt_list :: "benefits_to_data list \<Rightarrow> bolt list" where
  "benefits_to_to_bolt_list benefits_to = map (\<lambda>b. BoltMap (benefits_to_to_bolt_map b)) benefits_to"

section \<open>Facts\<close>

text \<open>Puts of distinct fields make exactly those fields.\<close>

lemma bolt_map_distinct:
  assumes "distinct (map fst puts)"
  shows "bolt_map puts = puts"
proof -
  have "distinct (map fst (m @ puts)) \<Longrightarrow> fold bolt_put puts m = m @ puts" for m
  proof (induction puts arbitrary: m)
    case (Cons p puts)
    obtain k v where p: "p = (k, v)" by (cases p)
    have "k \<notin> fst ` set m" using Cons.prems p by auto
    then have "AList.update k v m = m @ [(k, v)]" by (induction m) auto
    then show ?case using Cons.IH [of "m @ [(k, v)]"] Cons.prems by (simp add: p bolt_put_def)
  qed simp
  from this [of "[]"] assms show ?thesis by (simp add: bolt_map_def)
qed

text \<open>The identifiers that a statement reads as \<open>alias.identifier\<close>.\<close>

definition ident_char :: "char \<Rightarrow> bool" where
  "ident_char c \<longleftrightarrow> (let n = of_char c :: nat in
     48 \<le> n \<and> n \<le> 57 \<or> 65 \<le> n \<and> n \<le> 90 \<or> n = 95 \<or> 97 \<le> n \<and> n \<le> 122)"

fun fields_read :: "string \<Rightarrow> char \<Rightarrow> string \<Rightarrow> string list" where
  "fields_read alias_dot prev [] = []"
| "fields_read alias_dot prev (c # cs) =
     (if \<not> ident_char prev \<and> take (length alias_dot) (c # cs) = alias_dot
      then [takeWhile ident_char (drop (length alias_dot) (c # cs))] else []) @
     fields_read alias_dot c cs"

definition supplied :: "string \<Rightarrow> string \<Rightarrow> (string \<times> bolt) list \<Rightarrow> bool" where
  "supplied alias q m \<longleftrightarrow> set (fields_read (alias @ ''.'') (CHR '' '') q) \<subseteq> fst ` set m"

end
