(* ===== verification/Neo4j.thy ===== *)
theory Neo4j
  imports GraphWriter BoltConv Config
begin

text \<open>
  The database writer (\<open>src/src/writer/neo4j/mod.rs\<close>, \<open>schema.rs\<close>). The driver crate
  \<open>neo4rs\<close> with the server behind it, and the clock of \<open>tokio::time\<close>, are the parameter
  \<open>neo4j_driver\<close>: actions on the outside world \<open>'g\<close> and on an open transaction \<open>'t\<close>. The
  writer's own state is its configuration and the open transaction.
\<close>

section \<open>The driver\<close>

record cypher_query =
  cq_text :: string
  cq_params :: "(string \<times> bolt) list"

type_synonym row = "(string \<times> bolt) list"

text \<open>What \<open>timeout(d, fut)\<close> gives: \<open>None\<close> when the time elapsed, else the answer.\<close>

type_synonym 'a timed = "(string + 'a) option"

text \<open>A result stream is the list of what its \<open>next\<close> calls answer before the end. The getters are
  \<open>row.get\<close> at the types the program asks for.\<close>

record ('g, 't) neo4j_driver =
  nd_connect :: "neo4j_config \<Rightarrow> string + 'g"
  nd_run :: "cypher_query \<Rightarrow> ('g, string, unit) action"
  nd_run_timeout :: "u64 \<Rightarrow> cypher_query \<Rightarrow> 'g \<Rightarrow> unit timed \<times> 'g"
  nd_execute :: "cypher_query \<Rightarrow> ('g, string, (string + row) list) action"
  nd_execute_timeout :: "u64 \<Rightarrow> cypher_query \<Rightarrow> 'g \<Rightarrow> (string + row) list timed \<times> 'g"
  nd_start_txn :: "('g, string, 't) action"
  nd_txn_run :: "cypher_query \<Rightarrow> ('t \<times> 'g, string, unit) action"
  nd_txn_commit :: "'t \<Rightarrow> ('g, string, unit) action"
  nd_txn_rollback :: "'t \<Rightarrow> ('g, string, unit) action"
  nd_sleep :: "nat \<Rightarrow> 'g \<Rightarrow> 'g"
  nd_get_string :: "string \<Rightarrow> row \<Rightarrow> string + string"
  nd_get_i64 :: "string \<Rightarrow> row \<Rightarrow> string + i64"
  nd_get_u64 :: "string \<Rightarrow> row \<Rightarrow> string + u64"
  nd_now :: "'g \<Rightarrow> i64"

definition query :: "string \<Rightarrow> cypher_query" where
  "query text = \<lparr>cq_text = text, cq_params = []\<rparr>"

definition param :: "string \<Rightarrow> bolt \<Rightarrow> cypher_query \<Rightarrow> cypher_query" where
  "param name v q = q\<lparr>cq_params := AList.update name v (cq_params q)\<rparr>"

section \<open>State\<close>

definition CHECKPOINT_INITIAL_HEIGHT :: i64 where
  "CHECKPOINT_INITIAL_HEIGHT = - 999"

record ('g, 't) neo4j_writer =
  nw_graph :: 'g
  nw_batch_size :: usize
  nw_max_retries :: usize
  nw_query_timeout :: u64
  nw_active_txn :: "'t option"

type_synonym ('g, 't, 'a) neo = "(('g, 't) neo4j_writer, werror, 'a) action"

section \<open>Access to the graph\<close>

text \<open>A call on the graph handle with its error turned into a writer error.\<close>

definition on_graph :: "(string \<Rightarrow> werror) \<Rightarrow> ('g, string, 'a) action \<Rightarrow> ('g, 't, 'a) neo" where
  "on_graph err m w =
     (case m (nw_graph w) of
        (Inl e, g) \<Rightarrow> (Inl (err e), w\<lparr>nw_graph := g\<rparr>)
      | (Inr x, g) \<Rightarrow> (Inr x, w\<lparr>nw_graph := g\<rparr>))"

text \<open>The same under \<open>timeout\<close>: the first error is for the elapsed time.\<close>

definition on_graph_timeout ::
  "werror \<Rightarrow> (string \<Rightarrow> werror) \<Rightarrow> (u64 \<Rightarrow> 'g \<Rightarrow> 'a timed \<times> 'g) \<Rightarrow> ('g, 't, 'a) neo" where
  "on_graph_timeout elapsed err m w =
     (case m (nw_query_timeout w) (nw_graph w) of
        (None, g) \<Rightarrow> (Inl elapsed, w\<lparr>nw_graph := g\<rparr>)
      | (Some (Inl e), g) \<Rightarrow> (Inl (err e), w\<lparr>nw_graph := g\<rparr>)
      | (Some (Inr x), g) \<Rightarrow> (Inr x, w\<lparr>nw_graph := g\<rparr>))"

definition health_check :: "('g, 't) neo4j_driver \<Rightarrow> ('g, 't, unit) neo" where
  "health_check D =
     on_graph_timeout (ConnectionFailed (Msg ''Health check timed out''))
       (\<lambda>e. ConnectionFailed (Msg (''Health check failed: '' @ e)))
       (\<lambda>t. nd_run_timeout D t (query ''RETURN 1''))"

text \<open>\<open>connect\<close> passes the configuration to the driver's builder; both of its errors are
  connection failures.\<close>

definition neo4j_connect :: "('g, 't) neo4j_driver \<Rightarrow> neo4j_config \<Rightarrow> werror + 'g" where
  "neo4j_connect D c =
     (case nd_connect D c of Inl e \<Rightarrow> Inl (ConnectionFailed (Msg e)) | Inr g \<Rightarrow> Inr g)"

definition neo4j_new :: "('g, 't) neo4j_driver \<Rightarrow> neo4j_config \<Rightarrow> werror + ('g, 't) neo4j_writer" where
  "neo4j_new D c =
     (case neo4j_connect D c of
        Inl e \<Rightarrow> Inl e
      | Inr g \<Rightarrow>
          (case health_check D \<lparr>nw_graph = g, nw_batch_size = nc_write_batch_size c, nw_max_retries = nc_max_retries c,
              nw_query_timeout = nc_query_timeout_secs c, nw_active_txn = None\<rparr> of
             (Inl e, _) \<Rightarrow> Inl e
           | (Inr _, w) \<Rightarrow> Inr w))"

section \<open>Retries\<close>

definition batch_error :: "string \<Rightarrow> nat \<Rightarrow> nat \<Rightarrow> nat \<Rightarrow> string \<Rightarrow> werror" where
  "batch_error operation_name batch_num total_batches record_count e =
     QueryFailed (Msg (operation_name @ '' failed (batch '' @ nat_to_dec batch_num @ ''/'' @ nat_to_dec total_batches @
       '', '' @ nat_to_dec record_count @ '' records): '' @ e))"

definition batch_timeout :: "u64 \<Rightarrow> string \<Rightarrow> nat \<Rightarrow> nat \<Rightarrow> nat \<Rightarrow> werror" where
  "batch_timeout secs operation_name batch_num total_batches record_count =
     QueryFailed (Msg (operation_name @ '' timed out after '' @ nat_to_dec (unat secs) @ ''s (batch '' @ nat_to_dec batch_num @
       ''/'' @ nat_to_dec total_batches @ '', '' @ nat_to_dec record_count @ '' records) - possible dead connection''))"

definition retry_delay_ms :: "nat \<Rightarrow> nat" where
  "retry_delay_ms attempt = 200 * 2 ^ (attempt - 1)"

text \<open>The loop at \<open>attempt\<close>; the first argument is the number of retries left,
  \<open>max_retries - attempt\<close>.\<close>

fun retry_loop :: "('g, 't) neo4j_driver \<Rightarrow> (u64 \<Rightarrow> 'g \<Rightarrow> unit timed \<times> 'g) \<Rightarrow> string \<Rightarrow> nat \<Rightarrow> nat \<Rightarrow> nat
    \<Rightarrow> nat \<Rightarrow> nat \<Rightarrow> ('g, 't, unit) neo" where
  "retry_loop D f operation_name batch_num total_batches record_count left attempt w =
     (case f (nw_query_timeout w) (nw_graph w) of
        (Some (Inr _), g) \<Rightarrow> (Inr (), w\<lparr>nw_graph := g\<rparr>)
      | (Some (Inl e), g) \<Rightarrow>
          (let writer_err = batch_error operation_name batch_num total_batches record_count e
           in case left of
                Suc left' \<Rightarrow>
                  if is_retryable writer_err
                  then retry_loop D f operation_name batch_num total_batches record_count left' (attempt + 1)
                         (w\<lparr>nw_graph := nd_sleep D (retry_delay_ms (attempt + 1)) g\<rparr>)
                  else (Inl writer_err, w\<lparr>nw_graph := g\<rparr>)
              | 0 \<Rightarrow> (Inl writer_err, w\<lparr>nw_graph := g\<rparr>))
      | (None, g) \<Rightarrow>
          (case left of
             Suc left' \<Rightarrow>
               retry_loop D f operation_name batch_num total_batches record_count left' (attempt + 1)
                 (w\<lparr>nw_graph := nd_sleep D (retry_delay_ms (attempt + 1)) g\<rparr>)
           | 0 \<Rightarrow> (Inl (batch_timeout (nw_query_timeout w) operation_name batch_num total_batches record_count),
                   w\<lparr>nw_graph := g\<rparr>)))"

definition run_with_retry :: "('g, 't) neo4j_driver \<Rightarrow> string \<Rightarrow> (u64 \<Rightarrow> 'g \<Rightarrow> unit timed \<times> 'g) \<Rightarrow> nat \<Rightarrow> nat \<Rightarrow> nat
    \<Rightarrow> ('g, 't, unit) neo" where
  "run_with_retry D operation_name f batch_num total_batches record_count w =
     retry_loop D f operation_name batch_num total_batches record_count (nw_max_retries w) 0 w"

section \<open>Batched writes\<close>

text \<open>\<open>slice::chunks\<close> for a positive size.\<close>

function chunks :: "nat \<Rightarrow> 'a list \<Rightarrow> 'a list list" where
  "chunks n xs = (if xs = [] \<or> n = 0 then [] else take n xs # chunks n (drop n xs))"
  by pat_completeness auto
termination
  by (relation "measure (\<lambda>(n, xs). length xs)") (auto simp: diff_less_mono2)

declare chunks.simps [simp del]

definition div_ceil :: "nat \<Rightarrow> nat \<Rightarrow> nat" where
  "div_ceil n m = (n + m - 1) div m"

definition in_txn :: "(string \<Rightarrow> werror) \<Rightarrow> ('g, 't) neo4j_driver \<Rightarrow> cypher_query \<Rightarrow> 't \<Rightarrow> ('g, 't, unit) neo" where
  "in_txn err D q txn w =
     (case nd_txn_run D q (txn, nw_graph w) of
        (Inl e, txn', g) \<Rightarrow> (Inl (err e), w\<lparr>nw_graph := g, nw_active_txn := Some txn'\<rparr>)
      | (Inr _, txn', g) \<Rightarrow> (Inr (), w\<lparr>nw_graph := g, nw_active_txn := Some txn'\<rparr>))"

text \<open>One batch: through the open transaction without a retry, or committed on its own.\<close>

definition batch_step :: "('g, 't) neo4j_driver \<Rightarrow> bool \<Rightarrow> cypher_query \<Rightarrow> string \<Rightarrow> nat \<Rightarrow> nat \<Rightarrow> nat \<Rightarrow> ('g, 't, unit) neo" where
  "batch_step D use_txn q operation_name batch_num total_batches records w =
     (if use_txn then
        (case nw_active_txn w of
           None \<Rightarrow> (Inl (TransactionFailed (Msg ''transaction was unexpectedly closed'')), w)
         | Some txn \<Rightarrow>
             in_txn (\<lambda>e. TransactionFailed (Msg (operation_name @ '' failed in transaction (batch '' @ nat_to_dec batch_num @
               ''/'' @ nat_to_dec total_batches @ ''): '' @ e))) D q txn w)
      else run_with_retry D operation_name (\<lambda>t. nd_run_timeout D t q) batch_num total_batches records w)"

fun batch_loop :: "('g, 't) neo4j_driver \<Rightarrow> bool \<Rightarrow> string \<Rightarrow> string \<Rightarrow> string \<Rightarrow> ('a list \<Rightarrow> bolt list) \<Rightarrow> nat
    \<Rightarrow> nat \<Rightarrow> 'a list list \<Rightarrow> ('g, 't, unit) neo" where
  "batch_loop D use_txn query_str param_name operation_name convert total_batches i [] w = (Inr (), w)"
| "batch_loop D use_txn query_str param_name operation_name convert total_batches i (chunk # cs) w =
     and_then
       (batch_step D use_txn (param param_name (BoltList (convert chunk)) (query query_str))
          operation_name (i + 1) total_batches (length chunk))
       (\<lambda>_. batch_loop D use_txn query_str param_name operation_name convert total_batches (i + 1) cs) w"

text \<open>A batch size of 0 panics in \<open>div_ceil\<close>.\<close>

definition execute_batched :: "('g, 't) neo4j_driver \<Rightarrow> 'a list \<Rightarrow> string \<Rightarrow> string \<Rightarrow> string \<Rightarrow> ('a list \<Rightarrow> bolt list)
    \<Rightarrow> ('g, 't, unit) neo" where
  "execute_batched D items query_str param_name operation_name convert w =
     (if items = [] then (Inr (), w)
      else if nw_batch_size w = 0 then (Inl (QueryFailed Panicked), w)
      else batch_loop D (nw_active_txn w \<noteq> None) query_str param_name operation_name convert
             (div_ceil (length items) (nw_batch_size w)) 0 (chunks (nw_batch_size w) items) w)"

definition run_query_single :: "('g, 't) neo4j_driver \<Rightarrow> cypher_query \<Rightarrow> string \<Rightarrow> ('g, 't, unit) neo" where
  "run_query_single D q operation_name w =
     (case nw_active_txn w of
        Some txn \<Rightarrow> in_txn (\<lambda>e. TransactionFailed (Msg (operation_name @ '' failed in transaction: '' @ e))) D q txn w
      | None \<Rightarrow> on_graph (\<lambda>e. QueryFailed (Msg (operation_name @ '' failed: '' @ e))) (nd_run D q) w)"

section \<open>Writes\<close>

definition neo4j_write_blocks :: "('g, 't) neo4j_driver \<Rightarrow> block_data list \<Rightarrow> ('g, 't, unit) neo" where
  "neo4j_write_blocks D blocks =
     execute_batched D blocks CREATE_BLOCKS_QUERY ''blocks'' ''write_blocks'' blocks_to_bolt_list"

definition neo4j_write_transactions :: "('g, 't) neo4j_driver \<Rightarrow> transaction_data list \<Rightarrow> ('g, 't, unit) neo" where
  "neo4j_write_transactions D transactions =
     execute_batched D transactions CREATE_TRANSACTIONS_QUERY ''transactions'' ''write_transactions'' transactions_to_bolt_list"

definition neo4j_write_has_output :: "('g, 't) neo4j_driver \<Rightarrow> output_data list \<Rightarrow> ('g, 't, unit) neo" where
  "neo4j_write_has_output D outputs =
     execute_batched D outputs CREATE_HAS_OUTPUT_QUERY ''outputs'' ''write_has_output_relationships'' outputs_to_bolt_list"

definition neo4j_write_inputs :: "('g, 't) neo4j_driver \<Rightarrow> input_data list \<Rightarrow> ('g, 't, unit) neo" where
  "neo4j_write_inputs D inputs =
     execute_batched D inputs CREATE_INPUTS_QUERY ''inputs'' ''write_inputs'' inputs_to_bolt_list"

definition neo4j_write_performs :: "('g, 't) neo4j_driver \<Rightarrow> performs_data list \<Rightarrow> ('g, 't, unit) neo" where
  "neo4j_write_performs D performs =
     execute_batched D performs CREATE_PERFORMS_BULK_QUERY ''performs'' ''write_performs'' performs_to_bolt_list"

definition neo4j_write_benefits_to :: "('g, 't) neo4j_driver \<Rightarrow> benefits_to_data list \<Rightarrow> ('g, 't, unit) neo" where
  "neo4j_write_benefits_to D benefits_to =
     execute_batched D benefits_to CREATE_BENEFITS_TO_BULK_QUERY ''benefitsTo'' ''write_benefits_to'' benefits_to_to_bolt_list"

definition neo4j_write_blocks_fast :: "('g, 't) neo4j_driver \<Rightarrow> block_data list \<Rightarrow> ('g, 't, unit) neo" where
  "neo4j_write_blocks_fast D blocks =
     execute_batched D blocks CREATE_BLOCKS_FAST_QUERY ''blocks'' ''write_blocks_fast'' blocks_to_bolt_list"

definition neo4j_write_transactions_fast :: "('g, 't) neo4j_driver \<Rightarrow> transaction_data list \<Rightarrow> ('g, 't, unit) neo" where
  "neo4j_write_transactions_fast D transactions =
     execute_batched D transactions CREATE_TRANSACTIONS_FAST_QUERY ''transactions'' ''write_transactions_fast''
       transactions_to_bolt_list"

definition neo4j_write_outputs_fast :: "('g, 't) neo4j_driver \<Rightarrow> output_data list \<Rightarrow> ('g, 't, unit) neo" where
  "neo4j_write_outputs_fast D outputs =
     execute_batched D outputs CREATE_OUTPUTS_WITH_LOCKED_TO_FAST_QUERY ''outputs'' ''write_outputs_fast'' outputs_to_bolt_list"

definition neo4j_write_has_output_fast :: "('g, 't) neo4j_driver \<Rightarrow> output_data list \<Rightarrow> ('g, 't, unit) neo" where
  "neo4j_write_has_output_fast D outputs =
     execute_batched D outputs CREATE_HAS_OUTPUT_FAST_QUERY ''outputs'' ''write_has_output_relationships_fast''
       outputs_to_bolt_list"

definition neo4j_write_inputs_fast :: "('g, 't) neo4j_driver \<Rightarrow> input_data list \<Rightarrow> ('g, 't, unit) neo" where
  "neo4j_write_inputs_fast D inputs =
     execute_batched D inputs CREATE_INPUTS_FAST_QUERY ''inputs'' ''write_inputs_fast'' inputs_to_bolt_list"

text \<open>\<open>write_outputs\<close> runs two statements a batch, both on the graph handle.\<close>

definition write_outputs_chunk :: "('g, 't) neo4j_driver \<Rightarrow> nat \<Rightarrow> nat \<Rightarrow> output_data list \<Rightarrow> ('g, 't, unit) neo" where
  "write_outputs_chunk D total_batches batch_num chunk =
     and_then
       (run_with_retry D ''write_outputs''
         (\<lambda>t. nd_run_timeout D t (param ''outputs'' (BoltList (outputs_to_bolt_list chunk)) (query CREATE_OUTPUTS_QUERY)))
         batch_num total_batches (length chunk))
       (\<lambda>_. let outputs_with_address = filter_outputs_with_address chunk
            in if outputs_with_address \<noteq> [] then
                 run_with_retry D ''write_outputs:locked_to''
                   (\<lambda>t. nd_run_timeout D t (param ''outputs'' (BoltList (output_refs_to_bolt_list outputs_with_address))
                      (query CREATE_LOCKED_TO_QUERY)))
                   batch_num total_batches (length outputs_with_address)
               else ret ())"

fun write_outputs_loop :: "('g, 't) neo4j_driver \<Rightarrow> nat \<Rightarrow> nat \<Rightarrow> output_data list list \<Rightarrow> ('g, 't, unit) neo" where
  "write_outputs_loop D total_batches i [] w = (Inr (), w)"
| "write_outputs_loop D total_batches i (chunk # cs) w =
     and_then (write_outputs_chunk D total_batches (i + 1) chunk) (\<lambda>_. write_outputs_loop D total_batches (i + 1) cs) w"

definition neo4j_write_outputs :: "('g, 't) neo4j_driver \<Rightarrow> output_data list \<Rightarrow> ('g, 't, unit) neo" where
  "neo4j_write_outputs D outputs w =
     (if outputs = [] then (Inr (), w)
      else if nw_batch_size w = 0 then (Inl (QueryFailed Panicked), w)
      else write_outputs_loop D (div_ceil (length outputs) (nw_batch_size w)) 0 (chunks (nw_batch_size w) outputs) w)"

section \<open>Reads\<close>

definition missing_field :: "string \<Rightarrow> string \<Rightarrow> werror" where
  "missing_field what e = DatabaseError (Msg (''Missing '' @ what @ '': '' @ e))"

definition field :: "(string \<Rightarrow> row \<Rightarrow> string + 'a) \<Rightarrow> string \<Rightarrow> row \<Rightarrow> werror + 'a" where
  "field get name r = (case get name r of Inl e \<Rightarrow> Inl (missing_field name e) | Inr v \<Rightarrow> Inr v)"

definition lookup_row :: "('g, 't) neo4j_driver \<Rightarrow> row \<Rightarrow> werror + output_lookup_result" where
  "lookup_row D r =
     (case field (nd_get_string D) ''outputId'' r of Inl e \<Rightarrow> Inl e | Inr output_id \<Rightarrow>
      case field (nd_get_i64 D) ''outputIndex'' r of Inl e \<Rightarrow> Inl e | Inr output_index \<Rightarrow>
      case field (nd_get_i64 D) ''amount'' r of Inl e \<Rightarrow> Inl e | Inr amount \<Rightarrow>
      case field (nd_get_string D) ''scriptType'' r of Inl e \<Rightarrow> Inl e | Inr script_type \<Rightarrow>
      Inr \<lparr> olr_output_id = output_id, olr_output_index = word_of_int output_index, olr_amount = word_of_int amount,
            olr_script_type = script_type,
            olr_address = (case nd_get_string D ''address'' r of Inl _ \<Rightarrow> None | Inr a \<Rightarrow> Some a) \<rparr>)"

fun lookup_rows :: "('g, 't) neo4j_driver \<Rightarrow> (string + row) list \<Rightarrow> werror + output_lookup_result list" where
  "lookup_rows D [] = Inr []"
| "lookup_rows D (Inl e # rs) = Inl (QueryFailed (Msg (''lookup_outputs_batch row fetch failed: '' @ e)))"
| "lookup_rows D (Inr r # rs) =
     (case lookup_row D r of Inl e \<Rightarrow> Inl e
      | Inr x \<Rightarrow> (case lookup_rows D rs of Inl e \<Rightarrow> Inl e | Inr xs \<Rightarrow> Inr (x # xs)))"

text \<open>A pure step on the rows that a statement returned.\<close>

definition result :: "werror + 'a \<Rightarrow> ('g, 't, 'a) neo" where
  "result r w = (r, w)"

definition neo4j_lookup_outputs_batch :: "('g, 't) neo4j_driver \<Rightarrow> string list \<Rightarrow> ('g, 't, output_lookup_result list) neo" where
  "neo4j_lookup_outputs_batch D output_ids =
     (if output_ids = [] then ret []
      else
        and_then
          (on_graph_timeout (QueryFailed (Msg ''lookup_outputs_batch timed out''))
            (\<lambda>e. QueryFailed (Msg (''lookup_outputs_batch failed: '' @ e)))
            (\<lambda>t. nd_execute_timeout D t (param ''outputIds'' (BoltList (map BoltString output_ids)) (query LOOKUP_OUTPUTS_BATCH_QUERY))))
          (\<lambda>rows. result (lookup_rows D rows)))"

text \<open>The first row of a result stream.\<close>

definition first_row :: "string \<Rightarrow> (string \<Rightarrow> werror) \<Rightarrow> (string + row) list \<Rightarrow> werror + row option" where
  "first_row what err rows =
     (case rows of
        [] \<Rightarrow> Inr None
      | Inl e # _ \<Rightarrow> Inl (err (what @ e))
      | Inr r # _ \<Rightarrow> Inr (Some r))"

definition query_failed :: "string \<Rightarrow> werror" where
  "query_failed text = QueryFailed (Msg text)"

definition neo4j_mark_output_spent :: "('g, 't) neo4j_driver \<Rightarrow> string \<Rightarrow> string \<Rightarrow> u32 \<Rightarrow> ('g, 't, unit) neo" where
  "neo4j_mark_output_spent D output_id spent_in_txid spent_at_height =
     run_query_single D
       (param ''spentAtHeight'' (u32_as_i64 spent_at_height)
         (param ''spentInTxid'' (BoltString spent_in_txid)
           (param ''outputId'' (BoltString output_id) (query MARK_OUTPUT_SPENT_QUERY))))
       ''mark_output_spent''"

section \<open>Checkpoints\<close>

definition checkpoint_failed :: "string \<Rightarrow> werror" where
  "checkpoint_failed text = CheckpointError (Msg text)"

definition neo4j_create_checkpoint :: "('g, 't) neo4j_driver \<Rightarrow> ('g, 't, unit) neo" where
  "neo4j_create_checkpoint D =
     and_then (on_graph (\<lambda>e. checkpoint_failed (''delete failed: '' @ e)) (nd_run D (query DELETE_CHECKPOINT_QUERY)))
       (\<lambda>_. on_graph (\<lambda>e. checkpoint_failed (''create failed: '' @ e)) (nd_run D (query CREATE_CHECKPOINT_QUERY)))"

definition checkpoint_query :: "checkpoint_data \<Rightarrow> cypher_query" where
  "checkpoint_query cp =
     param ''status'' (BoltString (cp_status cp))
       (param ''offset'' (u64_as_i64 (case cp_last_processed_file_offset cp of Some n \<Rightarrow> n | None \<Rightarrow> 0))
         (param ''file'' (BoltString (cp_last_processed_file cp))
           (param ''hash'' (BoltString (cp_last_processed_hash cp))
             (param ''height'' (BoltInteger (cp_last_processed_height cp)) (query UPDATE_CHECKPOINT_QUERY)))))"

definition neo4j_update_checkpoint :: "('g, 't) neo4j_driver \<Rightarrow> checkpoint_data \<Rightarrow> ('g, 't, unit) neo" where
  "neo4j_update_checkpoint D cp = run_query_single D (checkpoint_query cp) ''update_checkpoint''"

text \<open>The stored height: the initial value and two legacy values stand for -1; \<open>as i32\<close> wraps.\<close>

definition checkpoint_height :: "i64 \<Rightarrow> i32" where
  "checkpoint_height val =
     (if val = CHECKPOINT_INITIAL_HEIGHT \<or> val = 255 \<or> val = - 1 then - 1 else sint (word_of_int val :: u32))"

definition checkpoint_row :: "('g, 't) neo4j_driver \<Rightarrow> i64 \<Rightarrow> row \<Rightarrow> werror + checkpoint_data" where
  "checkpoint_row D now r =
     (case field (nd_get_i64 D) ''lastProcessedHeight'' r of Inl e \<Rightarrow> Inl e | Inr val \<Rightarrow>
      case field (nd_get_string D) ''lastProcessedHash'' r of Inl e \<Rightarrow> Inl e | Inr hash \<Rightarrow>
      case field (nd_get_string D) ''lastProcessedFile'' r of Inl e \<Rightarrow> Inl e | Inr fl \<Rightarrow>
      case field (nd_get_string D) ''status'' r of Inl e \<Rightarrow> Inl e | Inr status \<Rightarrow>
      Inr \<lparr> cp_last_processed_height = checkpoint_height val, cp_last_processed_hash = hash,
            cp_last_processed_file = fl,
            cp_last_processed_file_offset = (case nd_get_u64 D ''lastProcessedFileOffset'' r of Inl _ \<Rightarrow> None | Inr n \<Rightarrow> Some n),
            cp_timestamp = now, cp_status = status \<rparr>)"

definition neo4j_get_checkpoint :: "('g, 't) neo4j_driver \<Rightarrow> ('g, 't, checkpoint_data option) neo" where
  "neo4j_get_checkpoint D w =
     and_then
       (on_graph_timeout
         (checkpoint_failed (''get_checkpoint timed out after '' @ nat_to_dec (unat (nw_query_timeout w)) @ ''s''))
         (\<lambda>e. checkpoint_failed (''get_checkpoint failed: '' @ e))
         (\<lambda>t. nd_execute_timeout D t (query GET_CHECKPOINT_QUERY)))
       (\<lambda>rows w'. case first_row ''Failed to fetch checkpoint: '' checkpoint_failed rows of
          Inl e \<Rightarrow> (Inl e, w')
        | Inr None \<Rightarrow> (Inr None, w')
        | Inr (Some r) \<Rightarrow> (map_sum id Some (checkpoint_row D (nd_now D (nw_graph w')) r), w')) w"

definition neo4j_mark_checkpoint_complete :: "('g, 't) neo4j_driver \<Rightarrow> ('g, 't, unit) neo" where
  "neo4j_mark_checkpoint_complete D =
     on_graph (\<lambda>e. checkpoint_failed (''mark_checkpoint_complete failed: '' @ e)) (nd_run D (query MARK_CHECKPOINT_COMPLETE_QUERY))"

definition neo4j_set_checkpoint_status :: "('g, 't) neo4j_driver \<Rightarrow> string \<Rightarrow> ('g, 't, unit) neo" where
  "neo4j_set_checkpoint_status D status =
     on_graph (\<lambda>e. checkpoint_failed (''set_checkpoint_status failed: '' @ e))
       (nd_run D (param ''status'' (BoltString status) (query SET_CHECKPOINT_STATUS_QUERY)))"

section \<open>Blocks\<close>

definition neo4j_lookup_block_hash :: "('g, 't) neo4j_driver \<Rightarrow> u32 \<Rightarrow> ('g, 't, string option) neo" where
  "neo4j_lookup_block_hash D height w =
     and_then
       (on_graph_timeout
         (query_failed (''lookup_block_hash timed out after '' @ nat_to_dec (unat (nw_query_timeout w)) @ ''s (height '' @
           u32_to_dec height @ '')''))
         (\<lambda>e. query_failed (''lookup_block_hash failed (height '' @ u32_to_dec height @ ''): '' @ e))
         (\<lambda>t. nd_execute_timeout D t (param ''height'' (u32_as_i64 height) (query LOOKUP_BLOCK_HASH_QUERY))))
       (\<lambda>rows. result
         (case first_row ''Failed to fetch block hash row: '' query_failed rows of
            Inl e \<Rightarrow> Inl e
          | Inr None \<Rightarrow> Inr None
          | Inr (Some r) \<Rightarrow>
              (case nd_get_string D ''hash'' r of
                 Inl e \<Rightarrow> Inl (missing_field ''hash field'' e)
               | Inr hash \<Rightarrow> Inr (Some hash)))) w"

definition rollback_step :: "('g, 't) neo4j_driver \<Rightarrow> string \<Rightarrow> string \<Rightarrow> u32 \<Rightarrow> ('g, 't, unit) neo" where
  "rollback_step D text what height =
     on_graph (\<lambda>e. query_failed (''rollback_block step '' @ what @ '' failed at height '' @ u32_to_dec height @ '': '' @ e))
       (nd_run D (param ''height'' (u32_as_i64 height) (query text)))"

definition neo4j_rollback_block :: "('g, 't) neo4j_driver \<Rightarrow> u32 \<Rightarrow> ('g, 't, unit) neo" where
  "neo4j_rollback_block D height =
     and_then (rollback_step D ROLLBACK_DELETE_INPUTS_QUERY ''1 (delete inputs)'' height) (\<lambda>_.
     and_then (rollback_step D ROLLBACK_DELETE_OUTPUTS_QUERY ''2 (delete outputs)'' height) (\<lambda>_.
     and_then (rollback_step D ROLLBACK_DELETE_TRANSACTIONS_QUERY ''3 (delete transactions)'' height) (\<lambda>_.
     rollback_step D ROLLBACK_DELETE_BLOCK_QUERY ''4 (delete block)'' height)))"

definition neo4j_get_max_block_height :: "('g, 't) neo4j_driver \<Rightarrow> ('g, 't, u32 option) neo" where
  "neo4j_get_max_block_height D =
     and_then
       (on_graph_timeout (query_failed ''get_max_block_height timed out'')
         (\<lambda>e. query_failed (''get_max_block_height failed: '' @ e))
         (\<lambda>t. nd_execute_timeout D t (query GET_MAX_BLOCK_HEIGHT_QUERY)))
       (\<lambda>rows. result
         (case first_row ''Failed to fetch max height: '' query_failed rows of
            Inl e \<Rightarrow> Inl e
          | Inr None \<Rightarrow> Inr None
          | Inr (Some r) \<Rightarrow> Inr (case nd_get_i64 D ''maxHeight'' r of Inl _ \<Rightarrow> None | Inr h \<Rightarrow> Some (word_of_int h))))"

definition int_or_0 :: "string + i64 \<Rightarrow> i64" where
  "int_or_0 v = (case v of Inl _ \<Rightarrow> 0 | Inr n \<Rightarrow> n)"

definition neo4j_check_block_complete :: "('g, 't) neo4j_driver \<Rightarrow> u32 \<Rightarrow> ('g, 't, u32 \<times> u32) neo" where
  "neo4j_check_block_complete D height =
     and_then
       (on_graph_timeout (query_failed ''check_block_complete timed out'')
         (\<lambda>e. query_failed (''check_block_complete failed: '' @ e))
         (\<lambda>t. nd_execute_timeout D t (param ''height'' (u32_as_i64 height) (query CHECK_BLOCK_COMPLETE_QUERY))))
       (\<lambda>rows. result
         (case first_row ''Failed to fetch block completeness: '' query_failed rows of
            Inl e \<Rightarrow> Inl e
          | Inr None \<Rightarrow> Inl (QueryFailed (BlockNotFound height))
          | Inr (Some r) \<Rightarrow>
              Inr (word_of_int (int_or_0 (nd_get_i64 D ''expectedTxCount'' r)),
                   word_of_int (int_or_0 (nd_get_i64 D ''actualTxCount'' r)))))"

section \<open>Transactions\<close>

definition neo4j_begin_transaction :: "('g, 't) neo4j_driver \<Rightarrow> ('g, 't, unit) neo" where
  "neo4j_begin_transaction D w =
     (if nw_active_txn w \<noteq> None then (Inl (TransactionFailed (Msg ''transaction already active'')), w)
      else case on_graph (\<lambda>e. TransactionFailed (Msg (''failed to begin transaction: '' @ e))) (nd_start_txn D) w of
        (Inl e, w') \<Rightarrow> (Inl e, w')
      | (Inr txn, w') \<Rightarrow> (Inr (), w'\<lparr>nw_active_txn := Some txn\<rparr>))"

text \<open>\<open>guard.take()\<close> leaves no transaction behind, whatever its end answers.\<close>

definition end_transaction :: "string \<Rightarrow> ('t \<Rightarrow> ('g, string, unit) action) \<Rightarrow> ('g, 't, unit) neo" where
  "end_transaction what finish w =
     (case nw_active_txn w of
        None \<Rightarrow> (Inl (TransactionFailed (Msg ''no active transaction'')), w)
      | Some txn \<Rightarrow>
          on_graph (\<lambda>e. TransactionFailed (Msg (what @ '' failed: '' @ e))) (finish txn) (w\<lparr>nw_active_txn := None\<rparr>))"

definition neo4j_commit_transaction :: "('g, 't) neo4j_driver \<Rightarrow> ('g, 't, unit) neo" where
  "neo4j_commit_transaction D = end_transaction ''commit'' (nd_txn_commit D)"

definition neo4j_rollback_transaction :: "('g, 't) neo4j_driver \<Rightarrow> ('g, 't, unit) neo" where
  "neo4j_rollback_transaction D = end_transaction ''rollback'' (nd_txn_rollback D)"

section \<open>Schema\<close>

fun run_each :: "('g, 't) neo4j_driver \<Rightarrow> string \<Rightarrow> string list \<Rightarrow> ('g, 't, unit) neo" where
  "run_each D what [] = ret ()"
| "run_each D what (text # texts) =
     and_then (on_graph (\<lambda>e. DatabaseError (Msg (what @ e))) (nd_run D (query text))) (\<lambda>_. run_each D what texts)"

definition create_constraints :: "('g, 't) neo4j_driver \<Rightarrow> ('g, 't, unit) neo" where
  "create_constraints D = run_each D ''Failed to create constraint: '' schema_constraints"

definition create_indexes :: "('g, 't) neo4j_driver \<Rightarrow> ('g, 't, unit) neo" where
  "create_indexes D = run_each D ''Failed to create index: '' schema_indexes"

text \<open>The verification only logs: it runs the statement and ignores what it answers.\<close>

definition verify_schema :: "('g, 't) neo4j_driver \<Rightarrow> ('g, 't, unit) neo" where
  "verify_schema D w =
     (case nd_execute D (query ''SHOW CONSTRAINTS'') (nw_graph w) of (_, g) \<Rightarrow> (Inr (), w\<lparr>nw_graph := g\<rparr>))"

definition neo4j_init_schema :: "('g, 't) neo4j_driver \<Rightarrow> ('g, 't, unit) neo" where
  "neo4j_init_schema D =
     and_then (create_constraints D) (\<lambda>_. and_then (create_indexes D) (\<lambda>_. verify_schema D))"

section \<open>The writer as a \<open>GraphWriter\<close>\<close>

definition neo4j_graph_writer :: "('g, 't) neo4j_driver \<Rightarrow> ('g, 't) neo4j_writer graph_writer" where
  "neo4j_graph_writer D =
     \<lparr> gw_init_schema = neo4j_init_schema D,
       gw_write_blocks = neo4j_write_blocks D,
       gw_write_transactions = neo4j_write_transactions D,
       gw_write_outputs = neo4j_write_outputs D,
       gw_write_has_output = neo4j_write_has_output D,
       gw_write_inputs = neo4j_write_inputs D,
       gw_write_performs = neo4j_write_performs D,
       gw_write_benefits_to = neo4j_write_benefits_to D,
       gw_mark_output_spent = neo4j_mark_output_spent D,
       gw_create_checkpoint = neo4j_create_checkpoint D,
       gw_update_checkpoint = neo4j_update_checkpoint D,
       gw_get_checkpoint = neo4j_get_checkpoint D,
       gw_mark_checkpoint_complete = neo4j_mark_checkpoint_complete D,
       gw_set_checkpoint_status = neo4j_set_checkpoint_status D,
       gw_lookup_outputs_batch = neo4j_lookup_outputs_batch D,
       gw_lookup_block_hash = neo4j_lookup_block_hash D,
       gw_rollback_block = neo4j_rollback_block D,
       gw_get_max_block_height = neo4j_get_max_block_height D,
       gw_check_block_complete = neo4j_check_block_complete D,
       gw_write_blocks_fast = neo4j_write_blocks_fast D,
       gw_write_transactions_fast = neo4j_write_transactions_fast D,
       gw_write_outputs_fast = neo4j_write_outputs_fast D,
       gw_write_has_output_fast = neo4j_write_has_output_fast D,
       gw_write_inputs_fast = neo4j_write_inputs_fast D,
       gw_begin_transaction = neo4j_begin_transaction D,
       gw_commit_transaction = neo4j_commit_transaction D,
       gw_rollback_transaction = neo4j_rollback_transaction D \<rparr>"

end
