(* ===== verification/Commands.thy ===== *)
theory Commands
  imports Streaming Neo4j
begin

text \<open>
  The commands of the program (\<open>src/src/main.rs\<close>): what \<open>main\<close> runs for each of them on the
  database writer. What is printed is left out. Everything outside the program is the parameter
  \<open>program_env\<close>; a command answers its error and, if it got that far, the orchestrator's state.
\<close>

section \<open>Environment\<close>

text \<open>\<open>pe_orch\<close> holds the parameters of the orchestrator other than its writer and sizes.\<close>

record ('g, 't, 'c, 'p, 'e, 's) program_env =
  pe_driver :: "('g, 't) neo4j_driver"
  pe_orch :: "(('g, 't) neo4j_writer, 'c) orchestrator"
  pe_loader :: loader_env
  pe_path_exists :: "string \<Rightarrow> bool"
  pe_db_open :: "string \<Rightarrow> string + leveldb"
  pe_http :: "'p http_ops"
  pe_rpc_new :: "bitcoin_rpc_config \<Rightarrow> rpc_error + 'p rpc_provider"
  pe_zmq :: "('e, 's) zmq_ops"
  pe_zmq_env :: 'e
  pe_disk :: disk
  pe_polls :: "nat option"

type_synonym ('g, 't, 'c) neo4j_state = "(('g, 't) neo4j_writer, 'c) orch_state"

type_synonym ('g, 't, 'c, 'a) command = "(('g, 't, 'c) neo4j_state, live_error, 'a) action"

definition with_ctx :: "string \<Rightarrow> (('g, 't) neo4j_writer, 'c, 'a) orch \<Rightarrow> ('g, 't, 'c, 'a) command" where
  "with_ctx ctx m st =
     (case m st of (Inl e, st') \<Rightarrow> (Inl ([ctx], FromWriter e), st') | (Inr x, st') \<Rightarrow> (Inr x, st'))"

text \<open>Connecting and building the orchestrator; the cache's constructor may panic.\<close>

definition open_orchestrator :: "('g, 't, 'c, 'p, 'e, 's) program_env \<Rightarrow> config
    \<Rightarrow> live_error + (('g, 't) neo4j_writer, 'c) orchestrator \<times> ('g, 't, 'c) neo4j_state" where
  "open_orchestrator P config =
     (case neo4j_new (pe_driver P) (cf_neo4j config) of
        Inl e \<Rightarrow> Inl ([''Failed to connect to Neo4j''], FromWriter e)
      | Inr w \<Rightarrow>
          (case orchestrator_new (pe_orch P) (neo4j_graph_writer (pe_driver P)) Bitcoin
              (config_cache_capacity (cf_performance config)) w (pe_disk P) of
             None \<Rightarrow> Inl ([], FromPanic)
           | Some (E, st) \<Rightarrow> Inr (E, st)))"

definition memory_limited :: "config \<Rightarrow> ('w, 'c) orchestrator \<Rightarrow> ('w, 'c) orchestrator" where
  "memory_limited config E = with_max_transaction_memory_mb (ic_max_transaction_memory_mb (cf_ingestion config)) E"

definition open_loader :: "('g, 't, 'c, 'p, 'e, 's) program_env \<Rightarrow> config \<Rightarrow> live_error + loader_env \<times> single_block_loader" where
  "open_loader P config =
     (case loader_new (pe_path_exists P) (pe_db_open P) (bc_blocks_dir (cf_bitcoin config)) Bitcoin of
        Inl e \<Rightarrow> Inl ([''Failed to initialize block loader''], FromLoader e)
      | Inr (db, ld) \<Rightarrow>
          Inr ((pe_loader P)\<lparr>le_index := (le_index (pe_loader P))\<lparr>ie_db := db\<rparr>\<rparr>, ld))"

text \<open>CLI argument, then configuration, then the chain tip.\<close>

definition max_height_of :: "u32 option \<Rightarrow> config \<Rightarrow> u32" where
  "max_height_of cli_max_height config =
     (case cli_max_height of Some h \<Rightarrow> h
      | None \<Rightarrow> (case bc_end_height (cf_bitcoin config) of Some h \<Rightarrow> h | None \<Rightarrow> - 1))"

definition stream_from :: "('g, 't, 'c, 'p, 'e, 's) program_env \<Rightarrow> (('g, 't) neo4j_writer, 'c) orchestrator \<Rightarrow> config
    \<Rightarrow> loader_env \<times> single_block_loader \<Rightarrow> u32 \<Rightarrow> u32 \<Rightarrow> bool \<Rightarrow> ('g, 't, 'c, unit) command" where
  "stream_from P E config = (\<lambda>(LE, ld) start_height max_height enable_prewarm st.
     case run_streaming_ingestion E LE config start_height max_height enable_prewarm (st, ld) of
       (r, (st', _)) \<Rightarrow> (r, st'))"

section \<open>The commands\<close>

type_synonym ('g, 't, 'c) outcome = "(live_error + unit) \<times> ('g, 't, 'c) neo4j_state option"

definition run_command :: "live_error + (('g, 't) neo4j_writer, 'c) orchestrator \<times> ('g, 't, 'c) neo4j_state
    \<Rightarrow> ((('g, 't) neo4j_writer, 'c) orchestrator \<Rightarrow> ('g, 't, 'c, unit) command) \<Rightarrow> ('g, 't, 'c) outcome" where
  "run_command opened body =
     (case opened of
        Inl e \<Rightarrow> (Inl e, None)
      | Inr (E, st) \<Rightarrow> (case body E st of (r, st') \<Rightarrow> (r, Some st')))"

definition cmd_init_schema :: "('g, 't, 'c, 'p, 'e, 's) program_env \<Rightarrow> config \<Rightarrow> ('g, 't, 'c) outcome" where
  "cmd_init_schema P config =
     run_command (open_orchestrator P config) (\<lambda>E. with_ctx ''Failed to initialize schema'' (init_schema E))"

definition cmd_ingest :: "('g, 't, 'c, 'p, 'e, 's) program_env \<Rightarrow> config \<Rightarrow> u32 option \<Rightarrow> ('g, 't, 'c) outcome" where
  "cmd_ingest P config cli_max_height =
     run_command (open_orchestrator P config) (\<lambda>E0.
       let E = memory_limited config E0 in
       and_then (with_ctx ''Failed to check checkpoint'' (get_checkpoint E)) (\<lambda>checkpoint.
       and_then (if checkpoint = None then with_ctx ''Failed to initialize schema'' (init_schema E) else ret ()) (\<lambda>_.
       and_then (with_ctx ''Failed to get resume height'' (get_resume_height E)) (\<lambda>resume_height.
       if resume_height > 0 then ret ()
       else case open_loader P config of
         Inl e \<Rightarrow> fail e
       | Inr opened \<Rightarrow> stream_from P E config opened 0 (max_height_of cli_max_height config) False))))"

definition no_checkpoint :: live_error where
  "no_checkpoint = ([], FromText ''No checkpoint found. Run 'init-schema' first.'')"

definition cmd_resume :: "('g, 't, 'c, 'p, 'e, 's) program_env \<Rightarrow> config \<Rightarrow> u32 option \<Rightarrow> ('g, 't, 'c) outcome" where
  "cmd_resume P config cli_max_height =
     run_command (open_orchestrator P config) (\<lambda>E0.
       let E = memory_limited config E0; max_height = max_height_of cli_max_height config in
       and_then (with_ctx ''Failed to get checkpoint'' (get_checkpoint E)) (\<lambda>found.
       case found of
         None \<Rightarrow> fail no_checkpoint
       | Some checkpoint \<Rightarrow>
           if cp_status checkpoint = ''completed'' then ret ()
           else
             and_then (with_ctx ''Failed to sync checkpoint with database'' (sync_checkpoint_with_db E)) (\<lambda>resume_height.
             case open_loader P config of
               Inl e \<Rightarrow> fail e
             | Inr opened \<Rightarrow>
                 if resume_height \<ge> max_height \<and> max_height \<noteq> - 1 then ret ()
                 else stream_from P E config opened resume_height max_height True)))"

text \<open>\<open>status\<close> only reads: the checkpoint and, if there is one, the height to resume from.\<close>

definition cmd_status :: "('g, 't, 'c, 'p, 'e, 's) program_env \<Rightarrow> config \<Rightarrow> ('g, 't, 'c) outcome" where
  "cmd_status P config =
     run_command (open_orchestrator P config) (\<lambda>E.
       and_then (with_ctx ''Failed to query checkpoint'' (get_checkpoint E)) (\<lambda>checkpoint.
       case checkpoint of
         None \<Rightarrow> ret ()
       | Some _ \<Rightarrow> (\<lambda>st. case get_resume_height E st of
           (Inl e, st') \<Rightarrow> (Inl ([], FromWriter e), st') | (Inr _, st') \<Rightarrow> (Inr (), st'))))"

section \<open>Live mode\<close>

text \<open>The snapshot is loaded before the checkpoint is looked at; an error while loading is only
  logged, and so is one while reading the checkpoint for it.\<close>

definition restore_live_cache :: "(('g, 't) neo4j_writer, 'c) orchestrator \<Rightarrow> string \<Rightarrow> ('g, 't, 'c, unit) command" where
  "restore_live_cache E cache_file st =
     (if cache_file = [] then (Inr (), st)
      else (Inr (), restore_cache E cache_file (snd (get_checkpoint E st))))"

definition live_setup :: "(('g, 't) neo4j_writer, 'c) orchestrator \<Rightarrow> string \<Rightarrow> ('g, 't, 'c, u32) command" where
  "live_setup E cache_file st0 =
     and_then (restore_live_cache E cache_file) (\<lambda>_.
     and_then (with_ctx ''Failed to check checkpoint'' (get_checkpoint E)) (\<lambda>checkpoint.
     and_then (if checkpoint = None then with_ctx ''Failed to initialize schema'' (init_schema E) else ret ()) (\<lambda>_.
     with_ctx ''Failed to sync checkpoint with database'' (sync_checkpoint_with_db E))))
     (set_cache_snapshot_path (if cache_file = [] then None else Some cache_file) st0)"

definition live_start :: "('g, 't, 'c, 'p, 'e, 's) program_env \<Rightarrow> bitcoin_rpc_config \<Rightarrow> ('g, 't, 'c) neo4j_state \<Rightarrow> 'p rpc_provider
    \<Rightarrow> u32 \<Rightarrow> (('g, 't) neo4j_writer, 'c, 'p, 'e, 's) live_state" where
  "live_start P rpc st provider resume_height =
     \<lparr> lv_orch = st, lv_rpc = provider,
       lv_zmq = zmq_from_config (rc_zmq_endpoint rpc) (rc_zmq_max_reconnect_attempts rpc) (rc_zmq_reconnect_base_delay_ms rpc)
                  (rc_zmq_recv_timeout_mins rpc) (pe_zmq_env P),
       lv_tracker = tracker_new, lv_current_height = resume_height, lv_blocks_processed = 0, lv_polls = pe_polls P \<rparr>"

text \<open>\<open>None\<close>: the loops are still running when the fuel is used up.\<close>

definition run_live_ingestion :: "('g, 't, 'c, 'p, 'e, 's) program_env \<Rightarrow> nat \<Rightarrow> config \<Rightarrow> u32 option \<Rightarrow> ('g, 't, 'c) outcome option" where
  "run_live_ingestion P fuel config cli_max_height =
     (case validate_rpc config of
        Inl e \<Rightarrow> Some (Inl ([''RPC configuration validation failed for live mode''], FromConfig e), None)
      | Inr _ \<Rightarrow>
        (case cf_bitcoin_rpc config of
           None \<Rightarrow> Some (Inl ([], FromText ''[bitcoin_rpc] section missing from config file. Required for live mode.''), None)
         | Some rpc \<Rightarrow>
           (case open_orchestrator P config of
              Inl e \<Rightarrow> Some (Inl e, None)
            | Inr (E0, st0) \<Rightarrow>
              (let E = memory_limited config E0 in
               case live_setup E (pc_utxo_cache_file (cf_performance config)) st0 of
                 (Inl e, st) \<Rightarrow> Some (Inl e, Some st)
               | (Inr resume_height, st) \<Rightarrow>
                 (case pe_rpc_new P rpc of
                    Inl e \<Rightarrow> Some (Inl ([''Failed to create RPC provider''], FromRpc e), Some st)
                  | Inr provider \<Rightarrow>
                    (case verify_connection (pe_http P) provider of
                       (Inl e, _) \<Rightarrow> Some (Inl ([], FromRpc e), Some st)
                     | (Inr _, provider') \<Rightarrow>
                       map_option (\<lambda>(r, s). (r, Some (lv_orch s)))
                         (live_phases E (pe_http P) (pe_zmq P) config rpc
                            (case cli_max_height of Some h \<Rightarrow> h | None \<Rightarrow> - 1) fuel
                            (live_start P rpc st provider' resume_height))))))))"

section \<open>Dispatch\<close>

datatype cli_command =
    InitSchema
  | Ingest "u32 option"
  | Resume "u32 option"
  | Status
  | LiveMode "u32 option"

definition program_main :: "('g, 't, 'c, 'p, 'e, 's) program_env \<Rightarrow> nat \<Rightarrow> (string \<Rightarrow> config_error + config) \<Rightarrow> string \<Rightarrow> cli_command
    \<Rightarrow> ('g, 't, 'c) outcome option" where
  "program_main P fuel from_file config_path command =
     (case from_file config_path of
        Inl e \<Rightarrow> Some (Inl ([''Failed to load config from '' @ config_path], FromConfig e), None)
      | Inr config \<Rightarrow>
        (case validate config of
           Inl e \<Rightarrow> Some (Inl ([''Configuration validation failed''], FromConfig e), None)
         | Inr _ \<Rightarrow>
           (case command of
              InitSchema \<Rightarrow> Some (cmd_init_schema P config)
            | Ingest max_height \<Rightarrow> Some (cmd_ingest P config max_height)
            | Resume max_height \<Rightarrow> Some (cmd_resume P config max_height)
            | Status \<Rightarrow> Some (cmd_status P config)
            | LiveMode max_height \<Rightarrow> run_live_ingestion P fuel config max_height)))"

end
