(* ===== verification/CommitLaws.thy ===== *)
theory CommitLaws
  imports Recovery
begin

text \<open>
  What a committed chunk, block or batch has added to the stored graph: exactly the records
  that a reference function computes block by block, whatever order the parallel bucket tasks
  ran in. The stored graph is a multiset of items; a writer that stores it is the locale
  \<open>graph_store\<close>, an extension of the transaction contract.
\<close>

section \<open>Items and the reference\<close>

datatype graph_item =
    BlockItem block_data
  | TransactionItem transaction_data
  | OutputItem output_data
  | InputItem input_data
  | PerformsItem performs_data
  | BenefitsItem benefits_to_data

definition tx_items :: "('w, 'c) orchestrator \<Rightarrow> (utxo_key \<rightharpoonup> cached_output) \<Rightarrow> u32 \<Rightarrow> btc_block \<Rightarrow> btc_tx \<Rightarrow> graph_item list" where
  "tx_items E ao h b tx =
     TransactionItem (tx_record E ao h b tx) # map OutputItem (tx_output_data E tx) @
     map InputItem (tx_input_data E h tx) @ map PerformsItem (tx_performs E ao tx) @
     map BenefitsItem (tx_benefits E tx)"

definition block_items :: "('w, 'c) orchestrator \<Rightarrow> (utxo_key \<rightharpoonup> cached_output) \<Rightarrow> u32 \<Rightarrow> btc_block \<Rightarrow> graph_item list" where
  "block_items E ao h b =
     BlockItem (from_block (or_btc E) b h) # concat (map (tx_items E ao h b) (bl_txdata b))"

definition chunk_items :: "('w, 'c) orchestrator \<Rightarrow> (utxo_key \<rightharpoonup> cached_output) \<Rightarrow> chunk \<Rightarrow> graph_item list" where
  "chunk_items E ao chunk = concat (map (\<lambda>(h, b, _). block_items E ao h b) chunk)"

definition last_checkpoint :: "('w, 'c) orchestrator \<Rightarrow> chunk \<Rightarrow> checkpoint_data" where
  "last_checkpoint E chunk = (case last chunk of (height, block, file_name) \<Rightarrow>
     checkpoint_at E (u32_as_i32 height) (btc_hash_to_string (or_btc E) (btc_block_hash (or_btc E) block)) file_name None)"

text \<open>The outputs a chunk creates, the keys it spends, and the outputs its inputs are resolved to:
  what was pre-fetched, and for the other keys what the cache holds once the chunk's own outputs
  are in it.\<close>

definition chunk_outputs :: "('w, 'c) orchestrator \<Rightarrow> chunk \<Rightarrow> output_data list" where
  "chunk_outputs E chunk = concat (map (\<lambda>(h, b, tx). tx_output_data E tx) (chunk_txs chunk))"

definition chunk_keys :: "('w, 'c) orchestrator \<Rightarrow> chunk \<Rightarrow> utxo_key list" where
  "chunk_keys E chunk = concat (map (\<lambda>(h, b, tx). tx_keys (or_btc E) tx) (chunk_txs chunk))"

definition chunk_resolution :: "('w, 'c) orchestrator \<Rightarrow> chunk \<Rightarrow> (utxo_key \<rightharpoonup> cached_output) \<Rightarrow> 'c utxo_cache
    \<Rightarrow> (utxo_key \<rightharpoonup> cached_output) \<times> 'c utxo_cache" where
  "chunk_resolution E chunk pf c =
     fold (supplement E) (chunk_keys E chunk) (pf, fold (cache_output E) (chunk_outputs E chunk) c)"

definition chunk_cache :: "('w, 'c) orchestrator \<Rightarrow> chunk \<Rightarrow> (utxo_key \<rightharpoonup> cached_output) \<Rightarrow> 'c utxo_cache \<Rightarrow> 'c utxo_cache" where
  "chunk_cache E chunk pf c =
     cache_remove_many (or_lru E) (concat (map (\<lambda>(_, b, _). spent_keys_of_block (or_btc E) b) chunk))
       (snd (chunk_resolution E chunk pf c))"

lemma chunk_txs_Cons: "chunk_txs ((h, b, f) # chunk) = map (\<lambda>tx. (h, b, tx)) (bl_txdata b) @ chunk_txs chunk"
  by (simp add: chunk_txs_def)

text \<open>The items of a chunk, kind by kind, as the phases write them.\<close>

lemma mset_concat_add:
  "mset (concat (map (\<lambda>x. f x @ g x) xs)) = mset (concat (map f xs)) + mset (concat (map g xs))"
  by (induction xs) simp_all

lemma mset_map_snoc: "mset (concat (map (\<lambda>x. f x # g x) xs)) = mset (map f xs) + mset (concat (map g xs))"
  by (induction xs) simp_all

lemma mset_block_txs:
  "mset (concat (map (tx_items E ao h b) txs)) =
    mset (map (\<lambda>tx. TransactionItem (tx_record E ao h b tx)) txs) +
    mset (map OutputItem (concat (map (tx_output_data E) txs))) +
    mset (map InputItem (concat (map (tx_input_data E h) txs))) +
    mset (map PerformsItem (concat (map (tx_performs E ao) txs))) +
    mset (map BenefitsItem (concat (map (tx_benefits E) txs)))"
  by (induction txs) (simp_all add: tx_items_def)

lemma mset_chunk_items:
  "mset (chunk_items E ao chunk) =
    image_mset BlockItem (mset (map (\<lambda>(h, b, _). from_block (or_btc E) b h) chunk)) +
    image_mset TransactionItem (mset (map (\<lambda>(h, b, tx). tx_record E ao h b tx) (chunk_txs chunk))) +
    image_mset OutputItem (mset (concat (map (\<lambda>(h, b, tx). tx_output_data E tx) (chunk_txs chunk)))) +
    image_mset InputItem (mset (concat (map (\<lambda>(h, b, tx). tx_input_data E h tx) (chunk_txs chunk)))) +
    image_mset PerformsItem (mset (concat (map (\<lambda>(h, b, tx). tx_performs E ao tx) (chunk_txs chunk)))) +
    image_mset BenefitsItem (mset (concat (map (\<lambda>(h, b, tx). tx_benefits E tx) (chunk_txs chunk))))"
proof (induction chunk)
  case (Cons c chunk)
  obtain h b f where c: "c = (h, b, f)" by (cases c)
  have "mset (chunk_items E ao (c # chunk)) = mset (block_items E ao h b) + mset (chunk_items E ao chunk)"
    by (simp add: chunk_items_def c)
  then show ?case
    by (simp add: Cons.IH c chunk_txs_Cons block_items_def mset_block_txs o_def image_mset.compositionality)
qed (simp add: chunk_items_def chunk_txs_def)

section \<open>Agreement with a ledger\<close>

text \<open>\<open>U\<close> is the ledger of all outputs. A chunk is on the ledger when the outputs it creates are
  the ledger's and the rows of the database are; a cache is when its entries are.\<close>

definition on_ledger :: "('w, 'c) orchestrator \<Rightarrow> ('w \<Rightarrow> bool) \<Rightarrow> (utxo_key \<rightharpoonup> cached_output) \<Rightarrow> chunk \<Rightarrow> bool" where
  "on_ledger E ok U chunk \<longleftrightarrow> lru (or_lru E) \<and>
     (\<forall>out \<in> set (chunk_outputs E chunk). \<forall>k. key_from_hex_txid (or_btc E) (od_txid out) (od_output_index out) = Some k \<longrightarrow>
        U k = Some (cached_of_output out)) \<and>
     (\<forall>ids w rows w' k r. ok w \<longrightarrow> gw_lookup_outputs_batch (or_writer E) ids w = (Inr rows, w') \<longrightarrow>
        result_map rows (to_output_id_string (or_btc E) k) = Some r \<longrightarrow> U k = Some (lookup_to_cached r))"

definition coherent :: "('w, 'c) orchestrator \<Rightarrow> (utxo_key \<rightharpoonup> cached_output) \<Rightarrow> 'c utxo_cache \<Rightarrow> bool" where
  "coherent E U c \<longleftrightarrow> cache_ok (or_lru E) c \<and> cache_view (or_lru E) c \<subseteq>\<^sub>m U"

context utxo_lru
begin

lemmas miss_None = resolve_miss_None and miss_Some = resolve_miss_Some
lemmas insert_le = ins_le and lookup_le = get_all_le and remove_le = del_le

end

lemma coherent_insert:
  "lru (or_lru E) \<Longrightarrow> coherent E U c \<Longrightarrow> U k = Some v \<Longrightarrow> coherent E U (cache_insert (or_lru E) k v c)"
  by (simp add: coherent_def utxo_lru_iff utxo_lru.insert_ok utxo_lru.insert_le)

lemma coherent_outputs:
  assumes "lru (or_lru E)"
  shows "coherent E U c \<Longrightarrow> (\<And>out k. out \<in> set os \<Longrightarrow>
      key_from_hex_txid (or_btc E) (od_txid out) (od_output_index out) = Some k \<Longrightarrow> U k = Some (cached_of_output out)) \<Longrightarrow>
    coherent E U (fold (cache_output E) os c)"
proof (induction os arbitrary: c)
  case (Cons out os)
  have "coherent E U (cache_output E out c)"
    using Cons.prems coherent_insert [OF assms, of U c] by (simp add: cache_output_def split: option.split)
  then show ?case using Cons by simp
qed simp

lemma supplement_fold:
  assumes "lru (or_lru E)"
  shows "coherent E U c \<Longrightarrow> pf \<subseteq>\<^sub>m U \<Longrightarrow> fold (supplement E) ks (pf, c) = (ao, c') \<Longrightarrow>
    coherent E U c' \<and> ao \<subseteq>\<^sub>m U \<and> cache_view (or_lru E) c' = cache_view (or_lru E) c \<and>
    ao = (cache_view (or_lru E) c |` set ks) ++ pf"
proof (induction ks arbitrary: pf c)
  case (Cons k ks)
  let ?v = "cache_view (or_lru E) c"
  obtain r c1 where g: "cache_get_quiet (or_lru E) (or_btc E) k c = (r, c1)" by (metis prod.collapse)
  have ok: "cache_ok (or_lru E) c" using Cons.prems(1) by (simp add: coherent_def)
  note spec = utxo_lru.get_quiet_spec [OF assms [unfolded utxo_lru_iff] ok g]
  have c1: "coherent E U c1" using Cons.prems(1) spec(1,2) by (simp add: coherent_def)
  have step: "supplement E k (pf, c) =
      (if pf k \<noteq> None then (pf, c) else case ?v k of Some v \<Rightarrow> (pf(k \<mapsto> v), c1) | None \<Rightarrow> (pf, c1))"
    using spec(3) by (simp add: supplement_def g split: option.split)
  have U: "U k = Some v" if "?v k = Some v" for v
    using Cons.prems(1) that by (auto simp: coherent_def map_le_iff)
  show ?case
  proof (cases "pf k")
    case (Some v)
    then have eq: "(?v |` set (k # ks)) ++ pf = (?v |` set ks) ++ pf"
      by (auto simp: fun_eq_iff map_add_def restrict_map_def split: option.split)
    have "fold (supplement E) ks (pf, c) = (ao, c')" using Cons.prems(3) Some by (simp add: step)
    from Cons.IH [OF Cons.prems(1,2) this] show ?thesis unfolding eq .
  next
    case None
    show ?thesis
    proof (cases "?v k")
      case miss: None
      have eq: "(?v |` set (k # ks)) ++ pf = (?v |` set ks) ++ pf"
        using miss by (auto simp: fun_eq_iff map_add_def restrict_map_def split: option.split)
      have "fold (supplement E) ks (pf, c1) = (ao, c')" using Cons.prems(3) None miss by (simp add: step)
      from Cons.IH [OF c1 Cons.prems(2) this, unfolded spec(2)] show ?thesis unfolding eq .
    next
      case hit: (Some v)
      have eq: "(?v |` set (k # ks)) ++ pf = (?v |` set ks) ++ pf(k \<mapsto> v)"
        using hit None by (auto simp: fun_eq_iff map_add_def restrict_map_def split: option.split)
      have le: "pf(k \<mapsto> v) \<subseteq>\<^sub>m U" using Cons.prems(2) U [OF hit] by (auto simp: map_le_iff)
      have "fold (supplement E) ks (pf(k \<mapsto> v), c1) = (ao, c')" using Cons.prems(3) None hit by (simp add: step)
      from Cons.IH [OF c1 le this, unfolded spec(2)] show ?thesis unfolding eq .
    qed
  qed
qed (simp add: coherent_def map_add_def restrict_map_def map_le_iff)

lemma resolution_coherent:
  assumes "on_ledger E ok U chunk" "coherent E U c" "pf \<subseteq>\<^sub>m U"
  shows "fst (chunk_resolution E chunk pf c) \<subseteq>\<^sub>m U" "coherent E U (chunk_cache E chunk pf c)"
proof -
  obtain ao c' where r: "chunk_resolution E chunk pf c = (ao, c')" by (metis prod.collapse)
  have l: "lru (or_lru E)" using assms(1) by (simp add: on_ledger_def)
  have "coherent E U (fold (cache_output E) (chunk_outputs E chunk) c)"
    using coherent_outputs [OF l assms(2)] assms(1) by (auto simp: on_ledger_def)
  from supplement_fold [OF l this assms(3) r [unfolded chunk_resolution_def]]
  show "fst (chunk_resolution E chunk pf c) \<subseteq>\<^sub>m U" "coherent E U (chunk_cache E chunk pf c)"
    using utxo_lru.remove_many_spec(1) [OF l [unfolded utxo_lru_iff]] utxo_lru.remove_le [OF l [unfolded utxo_lru_iff]]
    by (auto simp: r chunk_cache_def coherent_def)
qed

lemma prefetch_coherent:
  assumes "on_ledger E ok U chunk" "ok (os_db st)" "coherent E U (os_cache st)" "prefetch E chunk' st = (Inr pf, st')"
  shows "pf \<subseteq>\<^sub>m U \<and> coherent E U (os_cache st')"
proof -
  have l: "lru (or_lru E)" using assms(1) by (simp add: on_ledger_def)
  have ok: "cache_ok (or_lru E) (os_cache st)" and le: "cache_view (or_lru E) (os_cache st) \<subseteq>\<^sub>m U"
    using assms(3) by (simp_all add: coherent_def)
  let ?ks = "collect_input_keys (or_btc E) chunk'"
  obtain c1 f m where gm: "cache_get_many (or_lru E) ?ks (os_cache st) = (c1, f, m)" by (metis prod_cases3)
  have c1: "coherent E U c1" and f: "f \<subseteq>\<^sub>m U"
    using utxo_lru.get_many_spec(1,2) [OF l [unfolded utxo_lru_iff] ok gm]
      utxo_lru.lookup_le [OF l [unfolded utxo_lru_iff] ok le gm] le by (simp_all add: coherent_def)
  have fold_le: "f' \<subseteq>\<^sub>m U \<and> coherent E U c'"
    if rows: "\<And>k r. rm (to_output_id_string (or_btc E) k) = Some r \<Longrightarrow> U k = Some (lookup_to_cached r)"
      and "fold (resolve_prefetch E rm) ks (f, c) = (f', c')" "f \<subseteq>\<^sub>m U" "coherent E U c" for rm ks f c f' c'
    using that(2-4)
  proof (induction ks arbitrary: f c)
    case (Cons k ks)
    show ?case
    proof (cases "rm (to_output_id_string (or_btc E) k)")
      case None
      then show ?thesis using Cons by (simp add: resolve_prefetch_def)
    next
      case (Some r)
      have le: "f(k \<mapsto> lookup_to_cached r) \<subseteq>\<^sub>m U" using Cons.prems(2) rows [OF Some] by (auto simp: map_le_iff)
      have "resolve_prefetch E rm k (f, c) = (f(k \<mapsto> lookup_to_cached r), cache_insert (or_lru E) k (lookup_to_cached r) c)"
        by (simp add: resolve_prefetch_def Some)
      with Cons.prems(1) have "fold (resolve_prefetch E rm) ks
          (f(k \<mapsto> lookup_to_cached r), cache_insert (or_lru E) k (lookup_to_cached r) c) = (f', c')"
        by (simp only: fold_simps)
      from Cons.IH [OF this le coherent_insert [OF l Cons.prems(3) rows [OF Some]]] show ?thesis .
    qed
  qed simp
  have adj: "coherent E U c \<Longrightarrow> coherent E U (cache_adjust_misses n c)" for n c
    by (simp add: coherent_def cache_adjust_misses_def)
  consider "?ks = []" | "?ks \<noteq> []" "m = []" | "?ks \<noteq> []" "m \<noteq> []" by blast
  then show ?thesis
  proof cases
    case 1
    then show ?thesis using assms(3,4) by (auto simp: prefetch_def map_le_iff)
  next
    case 2
    then show ?thesis using assms(4) c1 f by (auto simp: prefetch_def gm)
  next
    case 3
    obtain rows w where look: "gw_lookup_outputs_batch (or_writer E) (map (to_output_id_string (or_btc E)) m) (os_db st) = (Inr rows, w)"
      using assms(4) 3 by (auto simp: prefetch_def gm Let_def split: prod.splits sum.splits)
    have rows: "result_map rows (to_output_id_string (or_btc E) k) = Some r \<Longrightarrow> U k = Some (lookup_to_cached r)" for k r
      using assms(1,2) look unfolding on_ledger_def by blast
    obtain f' c2 where res: "fold (resolve_prefetch E (result_map rows)) m (f, c1) = (f', c2)" by (metis prod.collapse)
    show ?thesis using fold_le [OF rows res f c1] adj assms(4) 3 by (auto simp: prefetch_def gm look res Let_def)
  qed
qed

text \<open>The lookup of the single-block path answers every key, with the ledger's output.\<close>

lemma fallback_coherent:
  assumes "on_ledger E ok U chunk" "ok w" "coherent E U c"
    "get_many_with_fallback (or_lru E) (or_btc E) (gw_lookup_outputs_batch (or_writer E)) keys (w, c) = (Inr found, w', c')"
  shows "dom found = set keys \<and> found \<subseteq>\<^sub>m U \<and> coherent E U c'"
proof -
  have l: "lru (or_lru E)" using assms(1) by (simp add: on_ledger_def)
  note l' = l [unfolded utxo_lru_iff]
  have ok: "cache_ok (or_lru E) c" and le: "cache_view (or_lru E) c \<subseteq>\<^sub>m U"
    using assms(3) by (simp_all add: coherent_def)
  obtain c1 f m where gm: "cache_get_many (or_lru E) keys c = (c1, f, m)" by (metis prod_cases3)
  note get = utxo_lru.get_many_spec [OF l' ok gm] and mis = utxo_lru.get_many_misses(2) [OF l' ok gm]
  have f: "f \<subseteq>\<^sub>m U" by (rule utxo_lru.lookup_le [OF l' ok le gm])
  have c1: "coherent E U c1" using get(1,2) le by (simp add: coherent_def)
  have fold_le: "coherent E U c' \<and> f' \<subseteq>\<^sub>m U"
    if rows: "\<And>k r. rm (to_output_id_string (or_btc E) k) = Some r \<Longrightarrow> U k = Some (lookup_to_cached r)"
      and "fold (resolve_miss (or_lru E) (or_btc E) rm) ks (c, f, s) = (c', f', s')" "coherent E U c" "f \<subseteq>\<^sub>m U"
    for rm ks c f s c' f' s'
    using that(2-4)
  proof (induction ks arbitrary: c f s)
    case (Cons k ks)
    show ?case
    proof (cases "rm (to_output_id_string (or_btc E) k)")
      case None
      then show ?thesis using Cons by (simp add: utxo_lru.miss_None [OF l'])
    next
      case (Some r)
      have "f(k \<mapsto> lookup_to_cached r) \<subseteq>\<^sub>m U" using Cons.prems(3) rows [OF Some] by (auto simp: map_le_iff)
      with Cons.IH [OF _ coherent_insert [OF l Cons.prems(2) rows [OF Some]]] Cons.prems(1)
      show ?thesis by (simp only: fold_simps utxo_lru.miss_Some [OF l', of rm, OF Some])
    qed
  qed simp
  show ?thesis
  proof (cases "m = []")
    case True
    then have "found = f" "c' = c1" using assms(4) by (simp_all add: get_many_with_fallback_def gm)
    moreover have "dom f = set keys" using get(3) mis True by (auto simp: dom_def restrict_map_def split: if_splits)
    ultimately show ?thesis using f c1 by simp
  next
    case False
    obtain rows w2 where look: "gw_lookup_outputs_batch (or_writer E) (map (to_output_id_string (or_btc E)) m) w = (Inr rows, w2)"
      using assms(4) False by (auto simp: get_many_with_fallback_def gm Let_def split: prod.splits sum.splits)
    have rows: "result_map rows (to_output_id_string (or_btc E) k) = Some r \<Longrightarrow> U k = Some (lookup_to_cached r)" for k r
      using assms(1,2) look unfolding on_ledger_def by blast
    obtain c3 f3 s3 where res: "fold (resolve_miss (or_lru E) (or_btc E) (result_map rows)) m
        (upd_stats record_neo4j_fallback c1, f, []) = (c3, f3, s3)"
      by (metis prod_cases3)
    have eq: "s3 = []" "found = f3" "c' = c3"
      using assms(4) False look res by (auto simp: get_many_with_fallback_def gm Let_def split: if_splits)
    have c1': "coherent E U (upd_stats record_neo4j_fallback c1)" using c1 by (simp add: coherent_def)
    have "cache_ok (or_lru E) (upd_stats record_neo4j_fallback c1)" using get(1) by simp
    note sp = utxo_lru.resolve_fold_spec [OF l' this res]
    have hit: "k \<in> set m \<Longrightarrow> \<exists>r. result_map rows (to_output_id_string (or_btc E) k) = Some r" for k
      using sp eq(1) filter_empty_conv [of "\<lambda>k. result_map rows (to_output_id_string (or_btc E) k) = None" m] by auto
    have f3: "f3 = f ++ (\<lambda>k. if k \<in> set m then map_option lookup_to_cached (result_map rows (to_output_id_string (or_btc E) k)) else None)"
      using sp by blast
    have "dom f3 = set keys"
    proof (rule set_eqI)
      fix k
      show "k \<in> dom f3 \<longleftrightarrow> k \<in> set keys"
        using hit [of k] by (cases "k \<in> set m")
          (auto simp: f3 get(3) mis dom_def map_add_def restrict_map_def split: option.splits if_splits)
    qed
    with fold_le [OF rows res c1' f] show ?thesis by (simp add: eq)
  qed
qed

text \<open>Resolving every input from the ledger gives the ledger's records.\<close>

lemma tx_items_ledger:
  assumes "ao \<subseteq>\<^sub>m U" "set (tx_keys (or_btc E) tx) \<subseteq> dom ao"
  shows "tx_items E ao h b tx = tx_items E U h b tx"
proof -
  have "ao k = U k" if "k \<in> set (tx_keys (or_btc E) tx)" for k
    using assms that by (force simp: map_le_iff)
  then have "map (amount_at ao) (tx_keys (or_btc E) tx) = map (amount_at U) (tx_keys (or_btc E) tx)"
    "input_items ao (tx_keys (or_btc E) tx) = input_items U (tx_keys (or_btc E) tx)"
    unfolding input_items_def by (auto simp: amount_at_def cong: map_cong)
  then show ?thesis by (simp only: tx_items_def tx_record_def tx_performs_def)
qed

lemma block_items_ledger:
  assumes "ao \<subseteq>\<^sub>m U" "\<Union> (set ` tx_keys (or_btc E) ` set (bl_txdata b)) \<subseteq> dom ao"
  shows "block_items E ao h b = block_items E U h b"
proof -
  have "tx_items E ao h b tx = tx_items E U h b tx" if "tx \<in> set (bl_txdata b)" for tx
    using assms that by (intro tx_items_ledger) auto
  then show ?thesis by (simp add: block_items_def cong: map_cong)
qed

lemma chunk_keys_blocks: "set (chunk_keys E chunk) = (\<Union>(h, b, f) \<in> set chunk. \<Union> (set ` tx_keys (or_btc E) ` set (bl_txdata b)))"
  by (force simp: chunk_keys_def chunk_txs_def)

lemma chunk_items_ledger:
  assumes "ao \<subseteq>\<^sub>m U" "set (chunk_keys E chunk) \<subseteq> dom ao"
  shows "chunk_items E ao chunk = chunk_items E U chunk"
proof -
  have "block_items E ao h b = block_items E U h b" if "(h, b, f) \<in> set chunk" for h b f
    using assms that unfolding chunk_keys_blocks by (intro block_items_ledger) blast+
  then show ?thesis unfolding chunk_items_def by (intro arg_cong [where f = concat] map_cong) auto
qed

section \<open>Writers that store the graph\<close>

text \<open>A write adds the items \<open>d\<close>, in the form \<open>item\<close> in which the store holds an item.\<close>

definition adds :: "('w \<Rightarrow> bool) \<Rightarrow> (graph_item \<Rightarrow> 'i) \<Rightarrow> ('w \<Rightarrow> 'i multiset) \<Rightarrow> ('w, 'a) db \<Rightarrow> graph_item multiset \<Rightarrow> bool" where
  "adds ok item stored m d \<longleftrightarrow> (\<forall>w x w'. ok w \<longrightarrow> m w = (Inr x, w') \<longrightarrow> stored w' = stored w + image_mset item d)"

locale graph_store = txn_writer W ok data saved
  for W :: "'w graph_writer" and ok :: "'w \<Rightarrow> bool" and data :: "'w \<Rightarrow> 'd" and saved :: "'w \<Rightarrow> 'd option" +
  fixes graph :: "'d \<Rightarrow> 'i multiset"
    and item :: "graph_item \<Rightarrow> 'i"
    and stored_cp :: "'d \<Rightarrow> 'p option"
    and cp_item :: "checkpoint_data \<Rightarrow> 'p"
  assumes add_blocks:
      "adds ok item (\<lambda>w. graph (data w)) (gw_write_blocks W bs) (image_mset BlockItem (mset bs))"
      "adds ok item (\<lambda>w. graph (data w)) (gw_write_blocks_fast W bs) (image_mset BlockItem (mset bs))"
    and add_transactions:
      "adds ok item (\<lambda>w. graph (data w)) (gw_write_transactions W ts) (image_mset TransactionItem (mset ts))"
      "adds ok item (\<lambda>w. graph (data w)) (gw_write_transactions_fast W ts) (image_mset TransactionItem (mset ts))"
    and add_outputs:
      "adds ok item (\<lambda>w. graph (data w)) (gw_write_outputs W os) (image_mset OutputItem (mset os))"
      "adds ok item (\<lambda>w. graph (data w)) (gw_write_outputs_fast W os) (image_mset OutputItem (mset os))"
    and add_has_output:
      "adds ok item (\<lambda>w. graph (data w)) (gw_write_has_output W os) {#}"
      "adds ok item (\<lambda>w. graph (data w)) (gw_write_has_output_fast W os) {#}"
    and add_inputs:
      "adds ok item (\<lambda>w. graph (data w)) (gw_write_inputs W is) (image_mset InputItem (mset is))"
      "adds ok item (\<lambda>w. graph (data w)) (gw_write_inputs_fast W is) (image_mset InputItem (mset is))"
    and add_performs: "adds ok item (\<lambda>w. graph (data w)) (gw_write_performs W ps) (image_mset PerformsItem (mset ps))"
    and add_benefits: "adds ok item (\<lambda>w. graph (data w)) (gw_write_benefits_to W bns) (image_mset BenefitsItem (mset bns))"
    and add_checkpoint: "adds ok item (\<lambda>w. graph (data w)) (gw_update_checkpoint W cp) {#}"
    and set_checkpoint: "ok w \<Longrightarrow> gw_update_checkpoint W cp w = (Inr u, w') \<Longrightarrow> stored_cp (data w') = Some (cp_item cp)"
begin

definition stored :: "'w \<Rightarrow> 'i multiset" where
  "stored w = graph (data w)"

lemmas add_writes = add_blocks add_transactions add_outputs add_has_output add_inputs add_performs add_benefits
  add_checkpoint

lemma writes_add: "adds ok item stored m d \<longleftrightarrow> adds ok item (\<lambda>w. graph (data w)) m d"
  by (simp add: adds_def stored_def)

text \<open>The same for actions of the orchestrator.\<close>

definition orch_adds :: "('w, 'c, 'a) orch \<Rightarrow> graph_item multiset \<Rightarrow> bool" where
  "orch_adds m d \<longleftrightarrow> (\<forall>st x st'. ok (os_db st) \<longrightarrow> m st = (Inr x, st') \<longrightarrow>
     ok (os_db st') \<and> stored (os_db st') = stored (os_db st) + image_mset item d)"

lemma orch_addsD:
  "orch_adds m d \<Longrightarrow> ok (os_db st) \<Longrightarrow> m st = (Inr x, st') \<Longrightarrow>
    ok (os_db st') \<and> stored (os_db st') = stored (os_db st) + image_mset item d"
  unfolding orch_adds_def by blast

lemma orch_adds_db:
  "keeps ok saved m \<Longrightarrow> adds ok item (\<lambda>w. graph (data w)) m d \<Longrightarrow> orch_adds (in_db m) d"
  by (auto simp: orch_adds_def keeps_def adds_def in_db_Inr stored_def)

lemma orch_adds_join:
  "keeps ok saved m \<Longrightarrow> adds ok item (\<lambda>w. graph (data w)) m d \<Longrightarrow> orch_adds (write_and_cache E m os) d"
  using orch_adds_db [of m d] by (auto simp: orch_adds_def write_and_cache_def split: prod.splits)

lemma orch_adds_cache: "orch_adds (in_cache f) {#}"
  by (simp add: orch_adds_def in_cache_def)

lemma orch_adds_ret: "orch_adds (ret x) {#}"
  by (simp add: orch_adds_def)

lemma orch_adds_lookup: "orch_adds (phase3_lookup E pf keys) {#}"
  by (simp add: orch_adds_def phase3_lookup_def case_prod_beta)

section \<open>Bucket tasks\<close>

fun step_items :: "bucket_step \<Rightarrow> 'i multiset" where
  "step_items (WritePerforms ps) = image_mset (\<lambda>p. item (PerformsItem p)) (mset ps)"
| "step_items (WriteBenefits bs) = image_mset (\<lambda>b. item (BenefitsItem b)) (mset bs)"

definition left_items :: "bucket_task \<Rightarrow> 'i multiset" where
  "left_items t = sum_list (map step_items (fst t))"

text \<open>While no task has failed, what is stored and what the tasks still hold is constant.\<close>

lemma run_step_adds: "ok w \<Longrightarrow> run_step W s w = (Inr u, w') \<Longrightarrow> stored w' = stored w + step_items s"
  using add_performs add_benefits
  by (cases s) (auto simp: adds_def stored_def image_mset.compositionality o_def)

lemma run_step_keeps: "keeps ok saved (run_step W s)"
  by (cases s; simp add: keeps_writes)+

lemma task_turn_adds:
  assumes "ok w" "task_turn W t w = (t', w')"
  shows "ok w' \<and> (snd t' = None \<longrightarrow> snd t = None \<and> fst t' = tl (fst t) \<and>
           stored w' + left_items t' = stored w + left_items t)"
proof (cases "fst t")
  case Nil
  then have "t' = t" "w' = w" using assms(2) by (cases t; simp)+
  then show ?thesis using assms(1) Nil by simp
next
  case (Cons s ss)
  then obtain e where t: "t = (s # ss, e)" by (cases t) simp
  obtain r w1 where run: "run_step W s w = (r, w1)" by (metis prod.collapse)
  have w1: "ok w1" using run_step_keeps [of s] assms(1) run by (auto simp: keeps_def)
  show ?thesis
  proof (cases r)
    case (Inl err)
    then show ?thesis using assms(2) w1 by (auto simp: t run)
  next
    case (Inr u)
    then have "stored w1 = stored w + step_items s" using run_step_adds [OF assms(1)] run by auto
    then show ?thesis using assms(2) w1 Inr by (auto simp: t run left_items_def)
  qed
qed

lemma turn_of_adds:
  assumes "ok w" "turn_of W i (ts, w) = (ts', w')"
  shows "ok w' \<and> (list_all (\<lambda>t. snd t = None) ts' \<longrightarrow> list_all (\<lambda>t. snd t = None) ts \<and>
           stored w' + sum_list (map left_items ts') = stored w + sum_list (map left_items ts))"
proof (cases "i < length ts")
  case True
  obtain t' w1 where turn: "task_turn W (ts ! i) w = (t', w1)" by (metis prod.collapse)
  then have res: "ts' = ts[i := t']" "w' = w1" using assms(2) True by (simp_all add: turn_of_def)
  note one = task_turn_adds [OF assms(1) turn]
  have "stored w' + sum_list (map left_items ts') = stored w + sum_list (map left_items ts) \<and> list_all (\<lambda>t. snd t = None) ts"
    if none: "list_all (\<lambda>t. snd t = None) ts'"
  proof
    have "snd t' = None" using none True set_update_memI [OF True, of t'] by (simp add: res list_all_iff)
    then have t: "snd (ts ! i) = None" "stored w1 + left_items t' = stored w + left_items (ts ! i)" using one by simp_all
    have "snd (ts ! j) = None" if "j < length ts" for j
      using none that t(1) by (cases "j = i") (auto simp: res list_all_length dest: spec [of _ j])
    then show "list_all (\<lambda>t. snd t = None) ts" by (simp add: list_all_length)
    have "sum_list (map left_items (take i ts @ ts ! i # drop (Suc i) ts)) =
        left_items (ts ! i) + sum_list (map left_items (take i ts @ drop (Suc i) ts))"
      by (simp add: ac_simps)
    then have "sum_list (map left_items ts) = left_items (ts ! i) + sum_list (map left_items (take i ts @ drop (Suc i) ts))"
      by (simp only: id_take_nth_drop [OF True, symmetric])
    moreover have "sum_list (map left_items ts') = left_items t' + sum_list (map left_items (take i ts @ drop (Suc i) ts))"
      using True by (simp add: res upd_conv_take_nth_drop)
    ultimately show "stored w' + sum_list (map left_items ts') = stored w + sum_list (map left_items ts)"
      using t(2) by (simp add: res add.assoc [symmetric])
  qed
  then show ?thesis using one res by blast
next
  case False
  then show ?thesis using assms by (simp add: turn_of_def)
qed

lemma turns_add:
  "ok w \<Longrightarrow> fold (turn_of W) is (ts, w) = (ts', w') \<Longrightarrow>
    ok w' \<and> (list_all (\<lambda>t. snd t = None) ts' \<longrightarrow> list_all (\<lambda>t. snd t = None) ts \<and>
      stored w' + sum_list (map left_items ts') = stored w + sum_list (map left_items ts))"
proof (induction "is" arbitrary: ts w)
  case (Cons i "is")
  obtain ts1 w1 where one: "turn_of W i (ts, w) = (ts1, w1)" by (metis prod.collapse)
  from turn_of_adds [OF Cons.prems(1) one] Cons.IH [of w1 ts1] Cons.prems(2) show ?case by (simp add: one)
qed simp

lemma finish_adds:
  assumes "ok w" "finish_task W t w = (t', w')"
  shows "ok w' \<and> (snd t' = None \<longrightarrow> snd t = None \<and> stored w' = stored w + left_items t)"
proof -
  have gen: "ok w \<Longrightarrow> fold (\<lambda>_ (t, w). task_turn W t w) xs (t, w) = (t', w') \<Longrightarrow>
      ok w' \<and> (snd t' = None \<longrightarrow> snd t = None \<and> fst t' = drop (length xs) (fst t) \<and>
        stored w' + left_items t' = stored w + left_items t)" for xs :: "bucket_step list" and t w
  proof (induction xs arbitrary: t w)
    case (Cons x xs)
    obtain t1 w1 where one: "task_turn W t w = (t1, w1)" by (metis prod.collapse)
    from task_turn_adds [OF Cons.prems(1) one] Cons.IH [of w1 t1] Cons.prems(2)
    show ?case by (auto simp: one drop_Suc)
  qed simp
  from gen [of w "fst t" t] assms show ?thesis by (auto simp: finish_task_def left_items_def)
qed

lemma await_adds:
  "ok w \<Longrightarrow> await_all W ts w = (Inr u, rest, w') \<Longrightarrow>
    ok w' \<and> list_all (\<lambda>t. snd t = None) ts \<and> stored w' = stored w + sum_list (map left_items ts)"
proof (induction ts arbitrary: w)
  case (Cons t ts)
  obtain ss e w1 where one: "finish_task W t w = ((ss, e), w1)" by (metis prod.collapse)
  show ?case
  proof (cases e)
    case None
    with finish_adds [OF Cons.prems(1) one] Cons.IH [of w1] Cons.prems(2) show ?thesis
      by (simp add: one add.assoc)
  next
    case (Some err)
    then show ?thesis using Cons.prems(2) by (simp add: one)
  qed
qed simp

lemma bucket_tasks_items:
  "sum_list (map left_items (bucket_tasks E ps bs)) =
    image_mset item (image_mset PerformsItem (mset ps) + image_mset BenefitsItem (mset bs))"
proof -
  have one: "sum_list (map (\<lambda>i. image_mset f (mset (filter (\<lambda>x. h x = i) xs))) [0..<8]) = image_mset f (mset xs)"
    if "\<And>x. h x < 8" for f :: "'x \<Rightarrow> 'i" and h and xs :: "'x list"
  proof -
    have "sum_list (map (\<lambda>i. image_mset f (mset (filter (\<lambda>x. h x = i) xs))) ys) =
        image_mset f (mset (concat (map (\<lambda>i. filter (\<lambda>x. h x = i) xs) ys)))" for ys :: "nat list"
      by (induction ys) simp_all
    then show ?thesis using mset_buckets [of h 8 xs, OF that] by simp
  qed
  have left: "left_items ((if ps \<noteq> [] then [WritePerforms ps] else []) @ (if bs \<noteq> [] then [WriteBenefits bs] else []), None) =
      image_mset (\<lambda>p. item (PerformsItem p)) (mset ps) + image_mset (\<lambda>b. item (BenefitsItem b)) (mset bs)" for ps bs
    by (simp add: left_items_def)
  have "sum_list (map left_items (bucket_tasks E ps bs)) =
      sum_list (map (\<lambda>i. image_mset (\<lambda>p. item (PerformsItem p)) (mset (filter (\<lambda>p. unat (or_string_hash E (pd_from_address p) mod 8) = i) ps)) +
        image_mset (\<lambda>b. item (BenefitsItem b)) (mset (filter (\<lambda>b. unat (or_string_hash E (ben_to_address b) mod 8) = i) bs))) [0..<8])"
    unfolding bucket_tasks_def NUM_BUCKETS_def
    by (simp add: partition_performs_buckets partition_benefits_buckets zip_map_map zip_same_conv_map o_def left
        del: upt_rec upt_Suc)
  also have "\<dots> = image_mset item (image_mset PerformsItem (mset ps) + image_mset BenefitsItem (mset bs))"
    using one [of "\<lambda>p. unat (or_string_hash E (pd_from_address p) mod 8)" "\<lambda>p. item (PerformsItem p)" ps]
      one [of "\<lambda>b. unat (or_string_hash E (ben_to_address b) mod 8)" "\<lambda>b. item (BenefitsItem b)" bs] bucket_less [of 8]
    by (simp add: sum_list_addf image_mset.compositionality o_def)
  finally show ?thesis .
qed

lemma write_buckets_adds:
  assumes "or_writer E = W"
  shows "orch_adds (write_buckets E ps bs) (image_mset PerformsItem (mset ps) + image_mset BenefitsItem (mset bs))"
  unfolding orch_adds_def
proof (intro allI impI)
  fix st x st' assume ok: "ok (os_db st)" and run: "write_buckets E ps bs st = (Inr x, st')"
  obtain ts w where turns: "fold (turn_of W) (or_schedule E) (bucket_tasks E ps bs, os_db st) = (ts, w)"
    by (metis prod.collapse)
  obtain r rest w' where fin: "await_all W ts w = (r, rest, w')" by (metis prod.collapse)
  have res: "r = Inr x" "os_db st' = w'" using run by (simp_all add: write_buckets_def assms turns fin Let_def) auto
  note a = turns_add [OF ok turns]
  have "ok w' \<and> list_all (\<lambda>t. snd t = None) ts \<and> stored w' = stored w + sum_list (map left_items ts)"
    using await_adds [of w ts x rest w'] a fin res by simp
  then show "ok (os_db st') \<and> stored (os_db st') = stored (os_db st) +
      image_mset item (image_mset PerformsItem (mset ps) + image_mset BenefitsItem (mset bs))"
    using a by (simp add: res bucket_tasks_items)
qed

section \<open>A chunk\<close>

lemma phase2_results:
  "phase2_accumulate E chunk = (concat (map (\<lambda>(h, b, tx). tx_output_data E tx) (chunk_txs chunk)),
     concat (map (\<lambda>(h, b, tx). tx_benefits E tx) (chunk_txs chunk)))"
proof -
  have "fold (\<lambda>(h, b, tx) (outputs, benefits). (outputs @ tx_output_data E tx, benefits @ tx_benefits E tx)) xs (os, bs) =
      (os @ concat (map (\<lambda>(h, b, tx). tx_output_data E tx) xs), bs @ concat (map (\<lambda>(h, b, tx). tx_benefits E tx) xs))"
    for xs :: "(u32 \<times> btc_block \<times> btc_tx) list" and os bs
    by (induction xs arbitrary: os bs) auto
  then show ?thesis by (simp add: phase2_accumulate_def)
qed

lemma phase_adds:
  assumes "or_writer E = W"
  shows "orch_adds (phase1_blocks E chunk) (image_mset BlockItem (mset (map (\<lambda>(h, b, _). from_block (or_btc E) b h) chunk)))"
    "orch_adds (phase2_write E chunk os) (image_mset OutputItem (mset os))"
    "orch_adds (phase3_write E chunk ts) (image_mset TransactionItem (mset ts))"
    "orch_adds (in_db (gw_write_has_output_fast (or_writer E) os)) {#}"
    "orch_adds (phase4_inputs E chunk)
       (image_mset InputItem (mset (concat (map (\<lambda>(h, b, tx). tx_input_data E h tx) (chunk_txs chunk)))))"
    "orch_adds (phase7_cleanup E chunk) {#}"
    "orch_adds (chunk_checkpoint E chunk) {#}"
  using orch_adds_db [OF keeps_write_blocks(2) add_blocks(2)] orch_adds_db [OF keeps_write_has_output(2) add_has_output(2)]
    orch_adds_join [OF keeps_write_outputs(1) add_outputs(1)] orch_adds_join [OF keeps_write_outputs(2) add_outputs(2)]
    orch_adds_db [OF keeps_write_transactions(1) add_transactions(1)] orch_adds_db [OF keeps_write_transactions(2) add_transactions(2)]
    orch_adds_db [OF keeps_write_inputs(1) add_inputs(1)] orch_adds_db [OF keeps_write_inputs(2) add_inputs(2)]
    orch_adds_db [OF keeps_update_checkpoint add_checkpoint] orch_adds_ret orch_adds_cache
  by (auto simp: phase1_blocks_def phase2_write_def phase3_write_def phase4_inputs_def phase7_cleanup_def
      chunk_checkpoint_def Let_def assms case_prod_beta simp del: mset_map)

lemma phase_cache:
  "phase1_blocks E chunk st = (Inr u, st') \<Longrightarrow> os_cache st' = os_cache st"
  "phase2_write E chunk os st = (Inr u, st') \<Longrightarrow> os_cache st' = fold (cache_output E) os (os_cache st)"
  "phase3_write E chunk ts st = (Inr u, st') \<Longrightarrow> os_cache st' = os_cache st"
  "in_db m st = (r, st') \<Longrightarrow> os_cache st' = os_cache st"
  "phase4_inputs E chunk st = (Inr u, st') \<Longrightarrow> os_cache st' = os_cache st"
  "write_buckets E ps bs st = (r, st') \<Longrightarrow> os_cache st' = os_cache st"
  "chunk_checkpoint E chunk st = (Inr u, st') \<Longrightarrow> os_cache st' = os_cache st"
  by (auto simp: phase1_blocks_def phase2_write_def phase3_write_def phase4_inputs_def chunk_checkpoint_def
      write_and_cache_def in_db_def write_buckets_def Let_def split: prod.splits if_splits)

lemma process_chunk_adds:
  assumes "or_writer E = W" "ok (os_db st)" "process_batch_chunk E chunk pf st = (Inr counts, st')"
  shows "ok (os_db st') \<and> os_cache st' = chunk_cache E chunk pf (os_cache st) \<and>
    stored (os_db st') = stored (os_db st) + image_mset item (mset (chunk_items E (fst (chunk_resolution E chunk pf (os_cache st))) chunk)) \<and>
    (chunk \<noteq> [] \<longrightarrow> stored_cp (data (os_db st')) = Some (cp_item (last_checkpoint E chunk)))"
proof -
  note ph = phase_adds [OF assms(1)]
  let ?os = "concat (map (\<lambda>(h, b, tx). tx_output_data E tx) (chunk_txs chunk))"
  let ?bs = "concat (map (\<lambda>(h, b, tx). tx_benefits E tx) (chunk_txs chunk))"
  obtain ks ps where coll: "phase3_collect E chunk = (ks, ps)" by (metis prod.collapse)
  note run = assms(3) [unfolded process_batch_chunk_def phase2_results coll Let_def case_prod_conv]
  from run obtain u1 st1 u2 st2 ao st3 u4 st4 u5 st5 u6 st6 u7 st7 u8 st8 u9 where
    p1: "phase1_blocks E chunk st = (Inr u1, st1)" and
    p2: "phase2_write E chunk ?os st1 = (Inr u2, st2)" and
    p3: "phase3_lookup E pf ks st2 = (Inr ao, st3)" and
    p4: "phase3_write E chunk (map fst (map (phase3_amounts E ao ks) ps)) st3 = (Inr u4, st4)" and
    p5: "in_db (gw_write_has_output_fast (or_writer E) ?os) st4 = (Inr u5, st5)" and
    p6: "phase4_inputs E chunk st5 = (Inr u6, st6)" and
    p7: "write_buckets E (concat (map snd (map (phase3_amounts E ao ks) ps))) ?bs st6 = (Inr u7, st7)" and
    p8: "phase7_cleanup E chunk st7 = (Inr u8, st8)" and
    p9: "chunk_checkpoint E chunk st8 = (Inr u9, st')"
    by (elim and_then_InrE) (simp del: map_map)
  note s1 = orch_addsD [OF ph(1) assms(2) p1]
  note s2 = orch_addsD [OF ph(2) conjunct1 [OF s1] p2]
  note s3 = orch_addsD [OF orch_adds_lookup conjunct1 [OF s2] p3]
  note s4 = orch_addsD [OF ph(3) conjunct1 [OF s3] p4]
  note s5 = orch_addsD [OF ph(4) conjunct1 [OF s4] p5]
  note s6 = orch_addsD [OF ph(5) conjunct1 [OF s5] p6]
  note s7 = orch_addsD [OF write_buckets_adds [OF assms(1)] conjunct1 [OF s6] p7]
  note s8 = orch_addsD [OF ph(6) conjunct1 [OF s7] p8]
  note s9 = orch_addsD [OF ph(7) conjunct1 [OF s8] p9]
  have res: "map fst (map (phase3_amounts E ao ks) ps) = map (\<lambda>(h, b, tx). tx_record E ao h b tx) (chunk_txs chunk)"
    "concat (map snd (map (phase3_amounts E ao ks) ps)) = concat (map (\<lambda>(h, b, tx). tx_performs E ao tx) (chunk_txs chunk))"
    unfolding phase3_results(2) [OF coll, of ao] by (simp_all add: o_def case_prod_unfold)
  have "stored (os_db st') = stored (os_db st) + image_mset item (mset (chunk_items E ao chunk))"
    unfolding mset_chunk_items
    using s1 s2 s3 s4 [unfolded res] s5 s6 s7 [unfolded res] s8 s9
    by (simp add: ac_simps del: mset_map map_map)
  moreover have ks: "ks = chunk_keys E chunk"
    using phase3_results(1) [OF coll] by (simp add: chunk_keys_def)
  moreover have "fold (supplement E) ks (pf, fold (cache_output E) ?os (os_cache st)) = (ao, os_cache st3)"
    using p3 phase_cache(1) [OF p1] phase_cache(2) [OF p2] by (auto simp: phase3_lookup_def split: prod.splits)
  moreover have "os_cache st' = cache_remove_many (or_lru E)
      (concat (map (\<lambda>(_, b, _). spent_keys_of_block (or_btc E) b) chunk)) (os_cache st3)"
    using phase_cache(3) [OF p4] phase_cache(4) [OF p5] phase_cache(5) [OF p6] phase_cache(6) [OF p7]
      phase_cache(7) [OF p9] p8 by (auto simp: phase7_cleanup_def in_cache_def)
  moreover have "stored_cp (data (os_db st')) = Some (cp_item (last_checkpoint E chunk))" if "chunk \<noteq> []"
    using p9 set_checkpoint [of "os_db st8"] s8 that
    by (auto simp: chunk_checkpoint_def last_checkpoint_def in_db_Inr assms(1) split: prod.splits)
  ultimately show ?thesis using s9
    by (simp add: chunk_resolution_def chunk_cache_def chunk_outputs_def)
qed

lemma snapshot_db: "try_save_snapshot E h st = (r, st') \<Longrightarrow> os_db st' = os_db st \<and> os_cache st' = os_cache st"
  by (auto simp: try_save_snapshot_def split: option.splits)

lemma chunk_transaction_adds:
  assumes "or_writer E = W" "ok (os_db st)" "chunk_transaction E chunk pf st = (Inr counts, st')"
  shows "os_cache st' = chunk_cache E chunk pf (os_cache st) \<and>
    stored (os_db st') = stored (os_db st) + image_mset item (mset (chunk_items E (fst (chunk_resolution E chunk pf (os_cache st))) chunk)) \<and>
    (chunk \<noteq> [] \<longrightarrow> stored_cp (data (os_db st')) = Some (cp_item (last_checkpoint E chunk)))"
proof -
  obtain u st1 where beg: "in_db (gw_begin_transaction W) st = (Inr u, st1)" and
    body: "(case process_batch_chunk E chunk pf st1 of
       (Inr counts, st') \<Rightarrow>
         and_then (in_db (gw_commit_transaction W)) (\<lambda>_.
         and_then (try_save_snapshot E (fst (last chunk))) (\<lambda>_. ret counts)) st'
     | (Inl e, st') \<Rightarrow> (Inl e, snd (in_db (gw_rollback_transaction W) st'))) = (Inr counts, st')"
    using assms(3) unfolding chunk_transaction_def assms(1) by (rule and_then_InrE)
  obtain w1 where w1: "gw_begin_transaction W (os_db st) = (Inr u, w1)" "os_db st1 = w1"
    using beg by (auto simp: in_db_Inr)
  have b: "ok (os_db st1)" "data (os_db st1) = data (os_db st)"
    using begin_ok [OF assms(2)] begin_data [OF assms(2)] by (simp_all add: w1)
  obtain p st2 where p: "process_batch_chunk E chunk pf st1 = (p, st2)" by (metis prod.collapse)
  obtain c where c: "p = Inr c" using body by (cases p) (auto simp: p)
  have tail: "and_then (in_db (gw_commit_transaction W)) (\<lambda>_.
         and_then (try_save_snapshot E (fst (last chunk))) (\<lambda>_. ret c)) st2 = (Inr counts, st')"
    using body by (simp add: p c)
  note proc = process_chunk_adds [OF assms(1) b(1) p [unfolded c]]
  from tail obtain v st3 z st4 where com: "in_db (gw_commit_transaction W) st2 = (Inr v, st3)" and
    "try_save_snapshot E (fst (last chunk)) st3 = (Inr z, st4)" "st' = st4"
    by (elim and_then_InrE) simp
  then have "os_db st' = os_db st3" "os_cache st' = os_cache st3" using snapshot_db by metis+
  moreover have "os_cache st3 = os_cache st2" "os_cache st1 = os_cache st"
    using phase_cache(4) [OF com] phase_cache(4) [OF beg] by simp_all
  moreover have "data (os_db st3) = data (os_db st2)"
    using com commit_data [of "os_db st2"] proc by (auto simp: in_db_Inr)
  ultimately show ?thesis using proc b(2) by (simp add: stored_def)
qed

lemma ingest_chunk_adds:
  assumes "or_writer E = W" "ok (os_db st)" "ingest_chunk E chunk stats st = (Inr stats', st')"
  shows "ok (os_db st') \<and> (chunk \<noteq> [] \<longrightarrow> stored_cp (data (os_db st')) = Some (cp_item (last_checkpoint E chunk))) \<and>
    (\<exists>ao. stored (os_db st') = stored (os_db st) + image_mset item (mset (chunk_items E ao chunk)) \<and>
      (\<forall>U. on_ledger E ok U chunk \<longrightarrow> coherent E U (os_cache st) \<longrightarrow> ao \<subseteq>\<^sub>m U \<and> coherent E U (os_cache st')))"
proof -
  let ?v = "case chunk of [] \<Rightarrow> ret () | (height, block, _) # _ \<Rightarrow> validate_parent_hash E block height"
  from assms(3) obtain u st1 pf st2 counts where v: "?v st = (Inr u, st1)" and
    pf: "prefetch E chunk st1 = (Inr pf, st2)" and tr: "chunk_transaction E chunk pf st2 = (Inr counts, st')"
    unfolding ingest_chunk_def by (elim and_then_InrE) (auto split: prod.splits)
  have s1: "ok (os_db st1) \<and> data (os_db st1) = data (os_db st)"
    using v validate_parent_reads [OF assms(1,2)] assms(2) by (auto split: list.splits prod.splits)
  have c1: "os_cache st1 = os_cache st"
    using v by (auto simp: validate_parent_hash_def and_then_def in_db_def Let_def
        split: list.splits prod.splits if_splits sum.splits option.splits)
  have s2: "ok (os_db st2) \<and> data (os_db st2) = data (os_db st)"
    using prefetch_reads [OF assms(1) _ pf] s1 by simp
  have eq: "stored (os_db st2) = stored (os_db st)" using s2 by (simp add: stored_def)
  note tr_adds = chunk_transaction_adds [OF assms(1) conjunct1 [OF s2] tr]
  let ?ao = "fst (chunk_resolution E chunk pf (os_cache st2))"
  have "?ao \<subseteq>\<^sub>m U \<and> coherent E U (os_cache st')" if "on_ledger E ok U chunk" "coherent E U (os_cache st)" for U
    using resolution_coherent [OF that(1), of "os_cache st2" pf] prefetch_coherent [OF that(1) _ _ pf] s1 c1 that(2) tr_adds
    by simp
  then have "\<exists>ao. stored (os_db st') = stored (os_db st) + image_mset item (mset (chunk_items E ao chunk)) \<and>
      (\<forall>U. on_ledger E ok U chunk \<longrightarrow> coherent E U (os_cache st) \<longrightarrow> ao \<subseteq>\<^sub>m U \<and> coherent E U (os_cache st'))"
    using tr_adds eq by (intro exI [where x = ?ao]) simp
  then show ?thesis using tr_adds chunk_transaction_atomic(1) [OF assms(1) conjunct1 [OF s2] tr] by blast
qed

text \<open>The chunks of a batch, each with the outputs its inputs were resolved to.\<close>

lemma ingest_chunks_add:
  "or_writer E = W \<Longrightarrow> ok (os_db st) \<Longrightarrow> ingest_chunks E cs stats st = (Inr stats', st') \<Longrightarrow>
    ok (os_db st') \<and> (cs \<noteq> [] \<longrightarrow> last cs \<noteq> [] \<longrightarrow> stored_cp (data (os_db st')) = Some (cp_item (last_checkpoint E (last cs)))) \<and>
    (\<exists>aos. length aos = length cs \<and>
      stored (os_db st') = stored (os_db st) + image_mset item (mset (concat (map (\<lambda>(ao, c). chunk_items E ao c) (zip aos cs)))) \<and>
      (\<forall>U. (\<forall>c \<in> set cs. on_ledger E ok U c) \<longrightarrow> coherent E U (os_cache st) \<longrightarrow>
         (\<forall>ao \<in> set aos. ao \<subseteq>\<^sub>m U) \<and> coherent E U (os_cache st')))"
proof (induction cs arbitrary: stats st)
  case (Cons c cs)
  obtain stats1 st1 where one: "ingest_chunk E c stats st = (Inr stats1, st1)" and
    rest: "ingest_chunks E cs stats1 st1 = (Inr stats', st')"
    using Cons.prems(3) by (auto elim: and_then_InrE)
  note a = ingest_chunk_adds [OF Cons.prems(1,2) one]
  note b = Cons.IH [OF Cons.prems(1) conjunct1 [OF a] rest]
  obtain ao where ao: "stored (os_db st1) = stored (os_db st) + image_mset item (mset (chunk_items E ao c))"
    "\<And>U. on_ledger E ok U c \<Longrightarrow> coherent E U (os_cache st) \<Longrightarrow> ao \<subseteq>\<^sub>m U \<and> coherent E U (os_cache st1)"
    using a by blast
  obtain aos where aos: "length aos = length cs"
    "stored (os_db st') = stored (os_db st1) + image_mset item (mset (concat (map (\<lambda>(ao, c). chunk_items E ao c) (zip aos cs))))"
    "\<And>U. \<forall>c \<in> set cs. on_ledger E ok U c \<Longrightarrow> coherent E U (os_cache st1) \<Longrightarrow>
       (\<forall>ao \<in> set aos. ao \<subseteq>\<^sub>m U) \<and> coherent E U (os_cache st')"
    using b by blast
  have cp: "stored_cp (data (os_db st')) = Some (cp_item (last_checkpoint E (last (c # cs))))" if "last (c # cs) \<noteq> []"
    using that conjunct1 [OF conjunct2 [OF a]] conjunct1 [OF conjunct2 [OF b]] rest by (cases cs) simp_all
  show ?case
  proof (intro conjI impI)
    show "ok (os_db st')" by (rule conjunct1 [OF b])
    show "stored_cp (data (os_db st')) = Some (cp_item (last_checkpoint E (last (c # cs))))" if "last (c # cs) \<noteq> []"
      by (rule cp [OF that])
    show "\<exists>aos. length aos = length (c # cs) \<and>
      stored (os_db st') = stored (os_db st) + image_mset item (mset (concat (map (\<lambda>(ao, c). chunk_items E ao c) (zip aos (c # cs))))) \<and>
      (\<forall>U. (\<forall>c \<in> set (c # cs). on_ledger E ok U c) \<longrightarrow> coherent E U (os_cache st) \<longrightarrow>
         (\<forall>ao \<in> set aos. ao \<subseteq>\<^sub>m U) \<and> coherent E U (os_cache st'))"
      by (rule exI [where x = "ao # aos"]) (simp add: aos(1,2) ao(1), use ao(2) aos(3) in blast)
  qed
qed (auto intro: exI [of _ "[]"])

lemma batch_chunks:
  "\<exists>chunks. concat chunks = blocks \<and> [] \<notin> set chunks \<and>
     (\<exists>stats. ingest_blocks_batch E blocks = ingest_chunks E chunks stats)"
proof -
  let ?ms = "map (\<lambda>(_, b, _). estimate_block_memory b) blocks"
  let ?ranges = "compute_adaptive_chunks ?ms (or_max_transaction_memory_bytes E)"
  note spec = adaptive_chunks_spec [of ?ms "or_max_transaction_memory_bytes E"]
  have le: "b \<le> length blocks" if "(a, b) \<in> set ?ranges" "a < b" for a b
  proof -
    have "b - 1 \<in> set (concat (map (\<lambda>(a, b). [a..<b]) ?ranges))"
      using that by (auto intro!: bexI [where x = "(a, b)"])
    then have "b - 1 \<in> set [0 ..< length ?ms]" unfolding conjunct1 [OF spec, unfolded chunks_cover_def] .
    then show ?thesis by simp
  qed
  have "concat (map (\<lambda>r. slice r blocks) ?ranges) = blocks"
    using spec slices_cover [of ?ranges blocks] by simp
  moreover have "[] \<notin> set (map (\<lambda>r. slice r blocks) ?ranges)"
  proof
    assume "[] \<in> set (map (\<lambda>r. slice r blocks) ?ranges)"
    then obtain a b where r: "(a, b) \<in> set ?ranges" and nil: "slice (a, b) blocks = []" by auto
    have ab: "a < b" using spec r by (auto simp: list_all_iff chunk_fits_def)
    with nil le [OF r ab] show False by (simp add: slice_def)
  qed
  ultimately show ?thesis by (intro exI [of _ "map (\<lambda>r. slice r blocks) ?ranges"]) (auto simp: ingest_blocks_batch_def Let_def)
qed

lemma on_ledger_concat: "on_ledger E ok U (concat cs) \<Longrightarrow> c \<in> set cs \<Longrightarrow> on_ledger E ok U c"
  by (auto simp: on_ledger_def chunk_outputs_def chunk_txs_def)

lemma last_checkpoint_concat:
  "cs \<noteq> [] \<Longrightarrow> last cs \<noteq> [] \<Longrightarrow> last_checkpoint E (concat cs) = last_checkpoint E (last cs)"
  by (cases cs rule: rev_cases) (simp_all add: last_checkpoint_def)

lemma batch_adds:
  assumes "or_writer E = W" "ok (os_db st)" "ingest_blocks_batch E blocks st = (Inr stats, st')"
  shows "(blocks \<noteq> [] \<longrightarrow> stored_cp (data (os_db st')) = Some (cp_item (last_checkpoint E blocks))) \<and>
    (\<exists>chunks aos. concat chunks = blocks \<and> length aos = length chunks \<and>
      stored (os_db st') = stored (os_db st) + image_mset item (mset (concat (map (\<lambda>(ao, c). chunk_items E ao c) (zip aos chunks)))) \<and>
      (\<forall>U. on_ledger E ok U blocks \<longrightarrow> coherent E U (os_cache st) \<longrightarrow>
         (\<forall>ao \<in> set aos. ao \<subseteq>\<^sub>m U) \<and> coherent E U (os_cache st')))"
proof -
  obtain chunks stats0 where c: "concat chunks = blocks" "[] \<notin> set chunks"
    "ingest_blocks_batch E blocks = ingest_chunks E chunks stats0"
    using batch_chunks [of blocks E] by blast
  note a = ingest_chunks_add [OF assms(1,2), of chunks stats0 stats st'] assms(3) [unfolded c(3)]
  have cp: "stored_cp (data (os_db st')) = Some (cp_item (last_checkpoint E blocks))" if "blocks \<noteq> []"
  proof -
    have "chunks \<noteq> []" using that c(1) by auto
    then have "last chunks \<noteq> []" using c(2) last_in_set by metis
    with \<open>chunks \<noteq> []\<close> a last_checkpoint_concat [of chunks E] c(1) show ?thesis by simp
  qed
  obtain aos where "length aos = length chunks"
    "stored (os_db st') = stored (os_db st) + image_mset item (mset (concat (map (\<lambda>(ao, c). chunk_items E ao c) (zip aos chunks))))"
    "\<And>U. \<forall>c \<in> set chunks. on_ledger E ok U c \<Longrightarrow> coherent E U (os_cache st) \<Longrightarrow>
         (\<forall>ao \<in> set aos. ao \<subseteq>\<^sub>m U) \<and> coherent E U (os_cache st')"
    using a by blast
  then have "\<exists>aos. length aos = length chunks \<and>
      stored (os_db st') = stored (os_db st) + image_mset item (mset (concat (map (\<lambda>(ao, c). chunk_items E ao c) (zip aos chunks)))) \<and>
      (\<forall>U. on_ledger E ok U blocks \<longrightarrow> coherent E U (os_cache st) \<longrightarrow>
         (\<forall>ao \<in> set aos. ao \<subseteq>\<^sub>m U) \<and> coherent E U (os_cache st'))"
    using on_ledger_concat c(1) by metis
  then show ?thesis using cp c(1) by blast
qed

lemma batch_contents:
  assumes "or_writer E = W" "ok (os_db st)" "on_ledger E ok U blocks" "coherent E U (os_cache st)"
    "ingest_blocks_batch E blocks st = (Inr stats, st')"
  shows "\<exists>chunks aos. concat chunks = blocks \<and> length aos = length chunks \<and>
      graph (data (os_db st')) = graph (data (os_db st)) +
        image_mset item (mset (concat (map (\<lambda>(ao, c). chunk_items E ao c) (zip aos chunks)))) \<and>
      (\<forall>(ao, c) \<in> set (zip aos chunks). ao \<subseteq>\<^sub>m U \<and>
         (set (chunk_keys E c) \<subseteq> dom ao \<longrightarrow> chunk_items E ao c = chunk_items E U c)) \<and>
      (blocks \<noteq> [] \<longrightarrow> stored_cp (data (os_db st')) = Some (cp_item (last_checkpoint E blocks))) \<and>
      coherent E U (os_cache st')"
proof -
  note g = batch_adds [OF assms(1,2,5), unfolded stored_def]
  then obtain chunks aos where c: "concat chunks = blocks" "length aos = length chunks"
    "graph (data (os_db st')) = graph (data (os_db st)) +
        image_mset item (mset (concat (map (\<lambda>(ao, c). chunk_items E ao c) (zip aos chunks))))"
    "(\<forall>ao \<in> set aos. ao \<subseteq>\<^sub>m U) \<and> coherent E U (os_cache st')"
    using assms(3,4) by blast
  have "\<forall>(ao, c) \<in> set (zip aos chunks). ao \<subseteq>\<^sub>m U \<and>
      (set (chunk_keys E c) \<subseteq> dom ao \<longrightarrow> chunk_items E ao c = chunk_items E U c)"
    using c(4) chunk_items_ledger by (fastforce dest: set_zip_leftD)
  with c g show ?thesis by blast
qed

section \<open>The single-block path\<close>

lemma fallback_db:
  assumes "or_writer E = W" "ok w"
    "get_many_with_fallback L B (gw_lookup_outputs_batch W) keys (w, c) = (r, w', c')"
  shows "ok w' \<and> data w' = data w"
proof -
  obtain c1 f m where gm: "cache_get_many L keys c = (c1, f, m)" by (metis prod_cases3)
  have k: "ok (snd (gw_lookup_outputs_batch W ids w)) \<and> data (snd (gw_lookup_outputs_batch W ids w)) = data w" for ids
    using keeps_lookup [of ids] lookup_data [OF assms(2), of ids] assms(2) by (auto simp: keeps_def)
  obtain lr w2 where look: "gw_lookup_outputs_batch W (map (to_output_id_string B) m) w = (lr, w2)" by (metis prod.collapse)
  have "w' = w \<or> w' = w2"
    using assms(3) by (auto simp: get_many_with_fallback_def gm look Let_def split: if_splits sum.splits prod.splits)
  then show ?thesis using k [of "map (to_output_id_string B) m"] assms(2) look by auto
qed

lemma block_transactions_add:
  assumes "or_writer E = W" "ok (os_db st)" "ingest_transactions_with_amounts E b h st = (Inr ps, st')"
  shows "ok (os_db st') \<and> (\<exists>ao. ps = concat (map (tx_performs E ao) (bl_txdata b)) \<and>
     stored (os_db st') = stored (os_db st) + image_mset item (mset (map (\<lambda>tx. TransactionItem (tx_record E ao h b tx)) (bl_txdata b))) \<and>
     (\<forall>U chunk. on_ledger E ok U chunk \<longrightarrow> coherent E U (os_cache st) \<longrightarrow>
        ao \<subseteq>\<^sub>m U \<and> \<Union> (set ` tx_keys (or_btc E) ` set (bl_txdata b)) \<subseteq> dom ao \<and> coherent E U (os_cache st')))"
proof -
  let ?B = "or_btc E"
  obtain ks rs where coll: "fold (collect_key_range ?B) (bl_txdata b) ([], []) = (ks, rs)" by (metis prod.collapse)
  let ?look = "\<lambda>st. case get_many_with_fallback (or_lru E) ?B (gw_lookup_outputs_batch (or_writer E)) ks (os_db st, os_cache st)
     of (r, w, c) \<Rightarrow> (r, st\<lparr>os_db := w, os_cache := c\<rparr>)"
  note run = assms(3) [unfolded ingest_transactions_with_amounts_def coll Let_def case_prod_conv]
  note res = single_results(2) [OF coll]
  from run obtain ao st1 u st2 where look: "?look st = (Inr ao, st1)" and
    wr: "in_db (gw_write_transactions W (map (\<lambda>tx. tx_record E ao h b tx) (bl_txdata b))) st1 = (Inr u, st2)" and
    fin: "st' = st2" "ps = concat (map (tx_performs E ao) (bl_txdata b))"
    by (elim and_then_InrE) (simp add: res assms(1) o_def)
  obtain w c where fb: "get_many_with_fallback (or_lru E) ?B (gw_lookup_outputs_batch (or_writer E)) ks (os_db st, os_cache st) =
      (Inr ao, w, c)" and st1: "st1 = st\<lparr>os_db := w, os_cache := c\<rparr>"
    using look by (auto split: prod.splits)
  have db: "ok w" "data w = data (os_db st)" using fallback_db [OF assms(1,2) fb [unfolded assms(1)]] by simp_all
  have ok1: "ok (os_db st1)" using db by (simp add: st1)
  note one = orch_addsD [OF orch_adds_db [OF keeps_write_transactions(1) add_transactions(1)] ok1 wr]
  have "ao \<subseteq>\<^sub>m U \<and> \<Union> (set ` tx_keys ?B ` set (bl_txdata b)) \<subseteq> dom ao \<and> coherent E U (os_cache st')"
    if "on_ledger E ok U chunk" "coherent E U (os_cache st)" for U chunk
    using fallback_coherent [OF that(1) assms(2) that(2) fb] phase_cache(4) [OF wr] single_results(1) [OF coll] fin(1)
    by (auto simp: st1)
  moreover have "ok (os_db st') \<and> stored (os_db st') = stored (os_db st) +
      image_mset item (mset (map (\<lambda>tx. TransactionItem (tx_record E ao h b tx)) (bl_txdata b)))"
    using one db by (simp add: fin(1) st1 stored_def image_mset.compositionality o_def)
  ultimately show ?thesis using fin(2) by blast
qed

lemma orch_adds_and_then:
  "orch_adds m d \<Longrightarrow> (\<And>x. orch_adds (f x) d') \<Longrightarrow> orch_adds (and_then m f) (d + d')"
  unfolding orch_adds_def
proof (intro allI impI)
  fix st x st' assume m: "\<forall>st x st'. ok (os_db st) \<longrightarrow> m st = (Inr x, st') \<longrightarrow>
      ok (os_db st') \<and> stored (os_db st') = stored (os_db st) + image_mset item d"
    and f: "\<And>x. \<forall>st y st'. ok (os_db st) \<longrightarrow> f x st = (Inr y, st') \<longrightarrow>
      ok (os_db st') \<and> stored (os_db st') = stored (os_db st) + image_mset item d'"
    and ok: "ok (os_db st)" and run: "and_then m f st = (Inr x, st')"
  from run obtain y st1 where one: "m st = (Inr y, st1)" and two: "f y st1 = (Inr x, st')" by (rule and_then_InrE)
  have a: "ok (os_db st1) \<and> stored (os_db st1) = stored (os_db st) + image_mset item d" using m ok one by blast
  have "ok (os_db st') \<and> stored (os_db st') = stored (os_db st1) + image_mset item d'" using f a two by blast
  with a show "ok (os_db st') \<and> stored (os_db st') = stored (os_db st) + image_mset item (d + d')" by (simp add: add.assoc)
qed

lemma simplified_layer_cache: "write_simplified_layer_rust E b ps st = (Inr u, st') \<Longrightarrow> os_cache st' = os_cache st"
  by (auto simp: write_simplified_layer_rust_def Let_def in_db_def and_then_def split: prod.splits if_splits sum.splits)

lemma simplified_layer_adds:
  assumes "or_writer E = W"
  shows "orch_adds (write_simplified_layer_rust E b ps) (image_mset PerformsItem (mset ps) +
     image_mset BenefitsItem (mset (concat (map (tx_benefits E) (bl_txdata b)))))"
proof -
  have "orch_adds (if ps \<noteq> [] then in_db (gw_write_performs W ps) else ret ()) (image_mset PerformsItem (mset ps))"
    using orch_adds_db [OF keeps_write_performs add_performs] orch_adds_ret by (cases "ps = []") simp_all
  moreover have "orch_adds (if bs \<noteq> [] then in_db (gw_write_benefits_to W bs) else ret ()) (image_mset BenefitsItem (mset bs))" for bs
    using orch_adds_db [OF keeps_write_benefits_to add_benefits] orch_adds_ret by (cases "bs = []") simp_all
  ultimately show ?thesis
    unfolding write_simplified_layer_rust_def Let_def assms by (rule orch_adds_and_then)
qed

lemma single_block_adds:
  assumes "or_writer E = W" "ok (os_db st)" "ingest_block E b h file off st = (Inr u, st')"
  shows "stored_cp (data (os_db st')) = Some (cp_item (checkpoint_at E (u32_as_i32 h)
      (btc_hash_to_string (or_btc E) (btc_block_hash (or_btc E) b)) file off)) \<and>
    (\<exists>ao. stored (os_db st') = stored (os_db st) + image_mset item (mset (block_items E ao h b)) \<and>
      (\<forall>U. on_ledger E ok U [(h, b, file)] \<longrightarrow> coherent E U (os_cache st) \<longrightarrow>
         block_items E ao h b = block_items E U h b \<and> coherent E U (os_cache st')))"
proof -
  let ?os = "concat (map (tx_output_data E) (bl_txdata b))"
  from assms(3) obtain u1 st1 u2 st2 st3 ps st4 u5 st5 u6 st6 u7 st7 u8 st8 u9 where
    p1: "validate_parent_hash E b h st = (Inr u1, st1)" and
    p2: "in_db (gw_write_blocks W [from_block (or_btc E) b h]) st1 = (Inr u2, st2)" and
    p3: "ingest_outputs_and_cache E b h st2 = (Inr ?os, st3)" and
    p4: "ingest_transactions_with_amounts E b h st3 = (Inr ps, st4)" and
    p5: "in_db (gw_write_has_output W ?os) st4 = (Inr u5, st5)" and
    p6: "in_db (gw_write_inputs W (concat (map (tx_input_data E h) (bl_txdata b)))) st5 = (Inr u6, st6)" and
    p7: "write_simplified_layer_rust E b ps st6 = (Inr u7, st7)" and
    p8: "remove_spent_outputs_from_cache E b st7 = (Inr u8, st8)" and
    p9: "in_db (gw_update_checkpoint W (checkpoint_at E (u32_as_i32 h)
        (btc_hash_to_string (or_btc E) (btc_block_hash (or_btc E) b)) file off)) st8 = (Inr u9, st')"
    unfolding ingest_block_def ingest_block_node_def ingest_inputs_def assms(1)
    by (elim and_then_InrE) (auto simp: ingest_outputs_and_cache_def Let_def elim: and_then_InrE)
  obtain u3 where p3': "write_and_cache E (gw_write_outputs W ?os) ?os st2 = (Inr u3, st3)"
    using p3 by (auto simp: ingest_outputs_and_cache_def Let_def assms(1) elim: and_then_InrE)
  have s1: "ok (os_db st1)" "stored (os_db st1) = stored (os_db st)"
    using validate_parent_reads [OF assms(1,2) p1] by (simp_all add: stored_def)
  note s2 = orch_addsD [OF orch_adds_db [OF keeps_write_blocks(1) add_blocks(1)] s1(1) p2]
  note s3 = orch_addsD [OF orch_adds_join [OF keeps_write_outputs(1) add_outputs(1)] conjunct1 [OF s2] p3']
  note s4 = block_transactions_add [OF assms(1) conjunct1 [OF s3] p4]
  note s5 = orch_addsD [OF orch_adds_db [OF keeps_write_has_output(1) add_has_output(1)] conjunct1 [OF s4] p5]
  note s6 = orch_addsD [OF orch_adds_db [OF keeps_write_inputs(1) add_inputs(1)] conjunct1 [OF s5] p6]
  note s7 = orch_addsD [OF simplified_layer_adds [OF assms(1)] conjunct1 [OF s6] p7]
  have s8: "ok (os_db st8)" "stored (os_db st8) = stored (os_db st7)"
    using s7 p8 by (auto simp: remove_spent_outputs_from_cache_def in_cache_def)
  note s9 = orch_addsD [OF orch_adds_db [OF keeps_update_checkpoint add_checkpoint] s8(1) p9]
  obtain ao where ao: "ps = concat (map (tx_performs E ao) (bl_txdata b))"
    "stored (os_db st4) = stored (os_db st3) + image_mset item (mset (map (\<lambda>tx. TransactionItem (tx_record E ao h b tx)) (bl_txdata b)))"
    "\<And>U chunk. on_ledger E ok U chunk \<Longrightarrow> coherent E U (os_cache st3) \<Longrightarrow>
        ao \<subseteq>\<^sub>m U \<and> \<Union> (set ` tx_keys (or_btc E) ` set (bl_txdata b)) \<subseteq> dom ao \<and> coherent E U (os_cache st4)"
    using s4 by blast
  have total: "stored (os_db st') = stored (os_db st) + image_mset item (mset (block_items E ao h b))"
    unfolding block_items_def mset.simps mset_block_txs
    using s1 s2 s3 ao(2) s5 s6 s7 s8 s9 by (simp add: ao(1) ac_simps)
  have cp: "stored_cp (data (os_db st')) = Some (cp_item (checkpoint_at E (u32_as_i32 h)
      (btc_hash_to_string (or_btc E) (btc_block_hash (or_btc E) b)) file off))"
    using p9 set_checkpoint [OF s8(1)] by (auto simp: in_db_Inr)
  have caches: "os_cache st2 = os_cache st" "os_cache st3 = fold (cache_output E) ?os (os_cache st2)"
    "os_cache st7 = os_cache st4"
    "os_cache st' = cache_remove_many (or_lru E) (spent_keys_of_block (or_btc E) b) (os_cache st7)"
  proof -
    show "os_cache st2 = os_cache st"
      using p1 phase_cache(4) [OF p2] by (auto simp: validate_parent_hash_def and_then_def in_db_def Let_def
          split: list.splits prod.splits if_splits sum.splits option.splits)
    show "os_cache st3 = fold (cache_output E) ?os (os_cache st2)"
      using p3' by (auto simp: write_and_cache_def in_db_def split: prod.splits)
    show "os_cache st7 = os_cache st4"
      using phase_cache(4) [OF p5] phase_cache(4) [OF p6] simplified_layer_cache [OF p7] by simp
    show "os_cache st' = cache_remove_many (or_lru E) (spent_keys_of_block (or_btc E) b) (os_cache st7)"
      using phase_cache(4) [OF p9] p8 by (auto simp: remove_spent_outputs_from_cache_def in_cache_def)
  qed
  have "block_items E ao h b = block_items E U h b \<and> coherent E U (os_cache st')"
    if led: "on_ledger E ok U [(h, b, file)]" and coh: "coherent E U (os_cache st)" for U
  proof -
    have l: "lru (or_lru E)" using led by (simp add: on_ledger_def)
    have "chunk_outputs E [(h, b, file)] = ?os" by (simp add: chunk_outputs_def chunk_txs_def o_def)
    then have "coherent E U (os_cache st3)"
      unfolding caches(2) caches(1) using led by (intro coherent_outputs [OF l coh]) (auto simp: on_ledger_def)
    from ao(3) [OF led this] show ?thesis
      using block_items_ledger [of ao U E b h] utxo_lru.remove_many_spec(1) [OF l [unfolded utxo_lru_iff]]
        utxo_lru.remove_le [OF l [unfolded utxo_lru_iff]] caches(3,4) by (simp add: coherent_def)
  qed
  then show ?thesis using total cp by blast
qed

end

section \<open>The in-memory writer stores the graph\<close>

definition mock_items :: "mock_data \<Rightarrow> graph_item multiset" where
  "mock_items d = (case d of (bs, ts, os, is, ps, bns, cp) \<Rightarrow>
     image_mset BlockItem (mset bs) + image_mset TransactionItem (mset ts) + image_mset OutputItem (mset os) +
     image_mset InputItem (mset is) + image_mset PerformsItem (mset ps) + image_mset BenefitsItem (mset bns))"

definition mock_cp :: "mock_data \<Rightarrow> checkpoint_data option" where
  "mock_cp d = snd (snd (snd (snd (snd (snd d)))))"

text \<open>The states in which the configured rows of the lookup are \<open>rows\<close>.\<close>

definition mock_rows_ok :: "output_lookup_result list \<Rightarrow> mock_storage \<Rightarrow> bool" where
  "mock_rows_ok rows s \<longleftrightarrow> mock_ok s \<and> ms_lookup_outputs_responses s = rows"

lemma set_response_rows: "mock_ok s \<Longrightarrow> mock_rows_ok rows (set_lookup_outputs_response rows s)"
  by (cases "ms_snapshot s") (simp_all add: mock_rows_ok_def mock_ok_def set_lookup_outputs_response_def)

lemma check_failure_rows: "check_failure m s = (r, s') \<Longrightarrow> ms_lookup_outputs_responses s' = ms_lookup_outputs_responses s"
  by (auto simp: check_failure_def check_failure_after_def Let_def split: option.splits if_splits prod.splits)

lemma unless_failing_rows:
  assumes "\<And>s. ms_lookup_outputs_responses (upd s) = ms_lookup_outputs_responses s"
  shows "ms_lookup_outputs_responses (snd (unless_failing m upd s)) = ms_lookup_outputs_responses s"
proof -
  obtain r s' where "check_failure m s = (r, s')" by (metis prod.collapse)
  then show ?thesis using check_failure_rows [of m s r s'] assms by (cases r) (simp_all add: unless_failing_def)
qed

lemma and_then_rows:
  assumes "\<And>s. ms_lookup_outputs_responses (snd (m s)) = ms_lookup_outputs_responses s"
    "\<And>x s. ms_lookup_outputs_responses (snd (f x s)) = ms_lookup_outputs_responses s"
  shows "ms_lookup_outputs_responses (snd (and_then m f s)) = ms_lookup_outputs_responses s"
  using assms(1) [of s] assms(2) by (auto simp: and_then_def split: prod.split sum.split)

lemma mock_write_rows:
  "ms_lookup_outputs_responses (snd (mock_write_blocks bs s)) = ms_lookup_outputs_responses s"
  "ms_lookup_outputs_responses (snd (mock_write_transactions ts s)) = ms_lookup_outputs_responses s"
  "ms_lookup_outputs_responses (snd (mock_write_outputs os s)) = ms_lookup_outputs_responses s"
  "ms_lookup_outputs_responses (snd (mock_write_inputs is s)) = ms_lookup_outputs_responses s"
  "ms_lookup_outputs_responses (snd (mock_write_performs ps s)) = ms_lookup_outputs_responses s"
  "ms_lookup_outputs_responses (snd (mock_write_benefits_to bns s)) = ms_lookup_outputs_responses s"
  "ms_lookup_outputs_responses (snd (mock_update_checkpoint cp s)) = ms_lookup_outputs_responses s"
  "ms_lookup_outputs_responses (snd (mock_begin_transaction s)) = ms_lookup_outputs_responses s"
  "ms_lookup_outputs_responses (snd (mock_rollback_transaction s)) = ms_lookup_outputs_responses s"
  unfolding mock_write_blocks_def mock_write_transactions_def mock_write_outputs_def mock_write_inputs_def
    mock_write_performs_def mock_write_benefits_to_def mock_update_checkpoint_def mock_begin_transaction_def
    mock_rollback_transaction_def
  by (rule unless_failing_rows; simp add: mock_restore_def split: option.split)+

lemma mock_fast_rows:
  "ms_lookup_outputs_responses (snd (mock_write_blocks_fast bs s)) = ms_lookup_outputs_responses s"
  "ms_lookup_outputs_responses (snd (mock_write_transactions_fast ts s)) = ms_lookup_outputs_responses s"
  "ms_lookup_outputs_responses (snd (mock_write_outputs_fast os s)) = ms_lookup_outputs_responses s"
  "ms_lookup_outputs_responses (snd (mock_write_inputs_fast is s)) = ms_lookup_outputs_responses s"
  unfolding mock_write_blocks_fast_def mock_write_transactions_fast_def mock_write_outputs_fast_def mock_write_inputs_fast_def
  by (rule and_then_rows, rule unless_failing_rows, simp, simp add: mock_write_rows)+

lemma mock_other_rows:
  "ms_lookup_outputs_responses (snd (mock_lookup_outputs_batch ids s)) = ms_lookup_outputs_responses s"
  "ms_lookup_outputs_responses (snd (mock_commit_transaction s)) = ms_lookup_outputs_responses s"
  "ms_lookup_outputs_responses (snd (mock_write_has_output os s)) = ms_lookup_outputs_responses s"
  "ms_lookup_outputs_responses (snd (mock_lookup_block_hash h s)) = ms_lookup_outputs_responses s"
proof -
  obtain r s' where c: "check_failure ''lookup_outputs_batch'' s = (r, s')" by (metis prod.collapse)
  show "ms_lookup_outputs_responses (snd (mock_lookup_outputs_batch ids s)) = ms_lookup_outputs_responses s"
    using check_failure_rows [OF c] by (cases r) (simp_all add: mock_lookup_outputs_batch_def c)
  let ?s = "s\<lparr>ms_call_log := ms_call_log s @ [''commit_transaction'']\<rparr>"
  obtain f s1 where d: "check_failure ''commit_transaction'' ?s = (f, s1)" by (metis prod.collapse)
  show "ms_lookup_outputs_responses (snd (mock_commit_transaction s)) = ms_lookup_outputs_responses s"
    using check_failure_rows [OF d] by (cases f) (simp_all add: mock_commit_transaction_def d mock_restore_def split: option.split)
qed (simp_all add: mock_write_has_output_def mock_lookup_block_hash_def)

lemmas mock_rows = mock_write_rows mock_fast_rows mock_other_rows

text \<open>A predicate that every method respects can be added to the well-formedness of a writer.\<close>

lemma keeps_and: "keeps ok saved m \<Longrightarrow> (\<And>w. P (snd (m w)) = P w) \<Longrightarrow> keeps (\<lambda>w. ok w \<and> P w) saved m"
  by (simp add: keeps_def)

lemma keeps_rows:
  "keeps mock_ok mock_saved m \<Longrightarrow> (\<And>s. ms_lookup_outputs_responses (snd (m s)) = ms_lookup_outputs_responses s) \<Longrightarrow>
    keeps (mock_rows_ok rows) mock_saved m"
  by (simp add: keeps_def mock_rows_ok_def)

lemma adds_unless_failing:
  assumes "\<And>s. mock_items (mock_data (upd s)) = mock_items (mock_data s) + d"
  shows "adds ok id (\<lambda>w. mock_items (mock_data w)) (unless_failing m upd) d"
  unfolding adds_def
proof (intro allI impI)
  fix s x s' assume run: "unless_failing m upd s = (Inr x, s')"
  obtain r s1 where c: "check_failure m s = (r, s1)" by (metis prod.collapse)
  show "mock_items (mock_data s') = mock_items (mock_data s) + image_mset id d"
    using run check_failure_frame(2) [OF c] check_failure_frame(1) [OF c] assms [of s1]
    by (cases r) (auto simp: unless_failing_def c)
qed

lemma mock_add:
  "adds ok id (\<lambda>w. mock_items (mock_data w)) (mock_write_blocks bs) (image_mset BlockItem (mset bs))"
  "adds ok id (\<lambda>w. mock_items (mock_data w)) (mock_write_transactions ts) (image_mset TransactionItem (mset ts))"
  "adds ok id (\<lambda>w. mock_items (mock_data w)) (mock_write_outputs os) (image_mset OutputItem (mset os))"
  "adds ok id (\<lambda>w. mock_items (mock_data w)) (mock_write_inputs is) (image_mset InputItem (mset is))"
  "adds ok id (\<lambda>w. mock_items (mock_data w)) (mock_write_performs ps) (image_mset PerformsItem (mset ps))"
  "adds ok id (\<lambda>w. mock_items (mock_data w)) (mock_write_benefits_to bns) (image_mset BenefitsItem (mset bns))"
  "adds ok id (\<lambda>w. mock_items (mock_data w)) (mock_update_checkpoint cp) {#}"
  "adds ok id (\<lambda>w. mock_items (mock_data w)) (unless_failing m id) {#}"
  unfolding mock_write_blocks_def mock_write_transactions_def mock_write_outputs_def mock_write_inputs_def
    mock_write_performs_def mock_write_benefits_to_def mock_update_checkpoint_def
  by (rule adds_unless_failing, simp add: mock_items_def mock_data_def ac_simps)+

lemma adds_and_then:
  "adds (\<lambda>_. True) it f m {#} \<Longrightarrow> (\<And>x. adds (\<lambda>_. True) it f (k x) d) \<Longrightarrow> adds ok it f (and_then m k) d"
  unfolding adds_def by (fastforce elim!: and_then_InrE)

lemma mock_add_fast:
  "adds ok id (\<lambda>w. mock_items (mock_data w)) (mock_write_blocks_fast bs) (image_mset BlockItem (mset bs))"
  "adds ok id (\<lambda>w. mock_items (mock_data w)) (mock_write_transactions_fast ts) (image_mset TransactionItem (mset ts))"
  "adds ok id (\<lambda>w. mock_items (mock_data w)) (mock_write_outputs_fast os) (image_mset OutputItem (mset os))"
  "adds ok id (\<lambda>w. mock_items (mock_data w)) (mock_write_inputs_fast is) (image_mset InputItem (mset is))"
  "adds ok id (\<lambda>w. mock_items (mock_data w)) (mock_write_has_output os) {#}"
  unfolding mock_write_blocks_fast_def mock_write_transactions_fast_def mock_write_outputs_fast_def mock_write_inputs_fast_def
  by (rule adds_and_then, rule mock_add, rule mock_add)+ (simp add: adds_def mock_write_has_output_def)

lemma mock_set_cp: "mock_update_checkpoint cp s = (Inr u, s') \<Longrightarrow> mock_cp (mock_data s') = Some cp"
  by (auto simp: mock_update_checkpoint_def unless_failing_def mock_cp_def mock_data_def split: prod.splits option.splits)

interpretation mock_graph: graph_store "mock_writer now" "mock_rows_ok rows" mock_data mock_saved mock_items id mock_cp id
proof unfold_locales
  fix w :: mock_storage
  assume rows: "mock_rows_ok rows w"
  then have ok: "mock_ok w" and r: "ms_lookup_outputs_responses w = rows" by (simp_all add: mock_rows_ok_def)
  show "mock_rows_ok rows (snd (gw_begin_transaction (mock_writer now) w))"
    "mock_data (snd (gw_begin_transaction (mock_writer now) w)) = mock_data w"
    using mock_begin_spec(1,2) [OF ok] by (simp_all add: prod_eq_iff mock_rows_ok_def mock_rows r)
  show "mock_saved w' = Some (mock_data w)" if "gw_begin_transaction (mock_writer now) w = (Inr (), w')" for w'
    using mock_begin_spec(3) [OF ok] that by simp
  show "mock_rows_ok rows (snd (gw_commit_transaction (mock_writer now) w))"
    using mock_commit_spec(1) [OF ok] by (simp add: prod_eq_iff mock_rows_ok_def mock_rows r)
  show "mock_data w' = mock_data w" if "gw_commit_transaction (mock_writer now) w = (Inr (), w')" for w'
    using mock_commit_spec(2) [OF ok] that by simp
  show "mock_data w' = d \<and> mock_saved w' \<in> {None, Some d}"
    if "gw_commit_transaction (mock_writer now) w = (Inl e, w')" "mock_saved w = Some d" for w' e d
    using mock_commit_spec(3) [OF ok, of "Inl e" w' e] that by simp
  show "mock_rows_ok rows (snd (gw_rollback_transaction (mock_writer now) w))"
    using mock_rollback_spec(1) [OF ok] by (simp add: prod_eq_iff mock_rows_ok_def mock_rows r)
  show "mock_data w' = (case mock_saved w of Some d \<Rightarrow> d | None \<Rightarrow> mock_data w)"
    if "gw_rollback_transaction (mock_writer now) w = (Inr (), w')" for w'
    using mock_rollback_spec(2) [OF ok] that by simp
qed (simp_all add: keeps_rows mock_appends mock_fasts keeps_skip mock_lookup_keeps mock_lookup_data mock_rows
    mock_lookup_block_hash_def mock_add mock_add_fast mock_set_cp)

end
