(* ===== verification/Committed.thy ===== *)
theory Committed
  imports CommitLaws
begin

text \<open>
  The properties of committed blocks and batches, and progress: on a writer that does not fail
  a batch of linked blocks is ingested completely. Progress is shown on the in-memory writer.
\<close>

section \<open>Runs without writer failures\<close>

definition no_failures :: "mock_storage \<Rightarrow> bool" where
  "no_failures s \<longleftrightarrow> ms_failures s = Map.empty \<and> ms_transient_failures s = Map.empty \<and> ms_failure_after_n s = Map.empty"

lemma unless_no_failure: "no_failures s \<Longrightarrow> unless_failing m upd s = (Inr (), upd s)"
  by (simp add: no_failures_def unless_failing_def check_failure_def check_failure_after_def)

lemma no_failures_upd [simp]:
  "no_failures (s\<lparr>ms_blocks := a\<rparr>) = no_failures s"
  "no_failures (s\<lparr>ms_transactions := b\<rparr>) = no_failures s"
  "no_failures (s\<lparr>ms_outputs := c\<rparr>) = no_failures s"
  "no_failures (s\<lparr>ms_inputs := d\<rparr>) = no_failures s"
  "no_failures (s\<lparr>ms_performs := e\<rparr>) = no_failures s"
  "no_failures (s\<lparr>ms_benefits_to := f\<rparr>) = no_failures s"
  "no_failures (s\<lparr>ms_checkpoint := g\<rparr>) = no_failures s"
  by (simp_all add: no_failures_def)

text \<open>Actions that succeed on a writer without configured failures.\<close>

definition runs :: "(mock_storage, 'c) orchestrator \<Rightarrow> (mock_storage, 'c, 'a) orch \<Rightarrow> bool" where
  "runs E m \<longleftrightarrow> (\<forall>st. no_failures (os_db st) \<and> cache_ok (or_lru E) (os_cache st) \<longrightarrow>
     (\<exists>x st'. m st = (Inr x, st') \<and> no_failures (os_db st') \<and> cache_ok (or_lru E) (os_cache st')))"

lemma runsD:
  "runs E m \<Longrightarrow> no_failures (os_db st) \<Longrightarrow> cache_ok (or_lru E) (os_cache st) \<Longrightarrow> \<exists>x st'. m st = (Inr x, st')"
  unfolding runs_def by blast

lemma runs_ret [intro]: "runs E (ret x)"
  by (simp add: runs_def)

lemma runs_and_then [intro]: "runs E m \<Longrightarrow> (\<And>x. runs E (f x)) \<Longrightarrow> runs E (and_then m f)"
  unfolding runs_def by (metis and_then_Inr)

lemma runs_mock [intro]: "(\<And>s. no_failures s \<Longrightarrow> no_failures (upd s)) \<Longrightarrow> runs E (in_db (unless_failing m upd))"
  by (auto simp: runs_def in_db_def unless_no_failure)

lemma runs_writes [intro]:
  assumes "or_writer E = mock_writer now"
  shows "runs E (in_db (gw_write_blocks (or_writer E) bs))" "runs E (in_db (gw_write_transactions (or_writer E) ts))"
    "runs E (in_db (gw_write_outputs (or_writer E) os))" "runs E (in_db (gw_write_inputs (or_writer E) is))"
    "runs E (in_db (gw_write_performs (or_writer E) ps))" "runs E (in_db (gw_write_benefits_to (or_writer E) bns))"
    "runs E (in_db (gw_update_checkpoint (or_writer E) cp))" "runs E (in_db (gw_write_has_output (or_writer E) os))"
  unfolding assms mock_writer_sel mock_write_blocks_def mock_write_transactions_def mock_write_outputs_def mock_write_inputs_def
    mock_write_performs_def mock_write_benefits_to_def mock_update_checkpoint_def
  by (intro runs_mock; simp add: no_failures_def)+ (simp add: runs_def in_db_def mock_write_has_output_def)

lemma runs_join:
  assumes "runs E (in_db m)" "lru (or_lru E)"
  shows "runs E (write_and_cache E m os)"
proof -
  have "cache_ok (or_lru E) c \<Longrightarrow> cache_ok (or_lru E) (fold (cache_output E) os c)" for c
    using utxo_lru.insert_ok [OF assms(2) [unfolded utxo_lru_iff]]
    by (induction os arbitrary: c) (simp_all add: cache_output_def split: option.split)
  then show ?thesis using assms(1) unfolding runs_def write_and_cache_def by fastforce
qed

lemma runs_remove: "lru (or_lru E) \<Longrightarrow> runs E (in_cache (cache_remove_many (or_lru E) ks))"
  by (simp add: runs_def in_cache_def utxo_lru_iff utxo_lru.remove_many_spec(1))

lemma runs_transactions:
  fixes E :: "(mock_storage, 'c) orchestrator"
  assumes "or_writer E = mock_writer now" "lru (or_lru E)" "list_all (btc_is_coinbase (or_btc E)) (bl_txdata b)"
  shows "runs E (ingest_transactions_with_amounts E b h)"
proof -
  obtain ks rs where coll: "fold (collect_key_range (or_btc E)) (bl_txdata b) ([], []) = (ks, rs)" by (metis prod.collapse)
  have "ks = []" using single_results(1) [OF coll] assms(3) by (simp add: tx_keys_def list_all_iff)
  note coll = coll [unfolded this]
  let ?look = "\<lambda>st. case get_many_with_fallback (or_lru E) (or_btc E) (gw_lookup_outputs_batch (or_writer E)) [] (os_db st, os_cache st)
     of (r, w, c) \<Rightarrow> (r, st\<lparr>os_db := w, os_cache := c\<rparr>)"
  have "runs E ?look"
    unfolding runs_def
  proof (intro allI impI)
    fix st :: "(mock_storage, 'c) orch_state"
    assume st: "no_failures (os_db st) \<and> cache_ok (or_lru E) (os_cache st)"
    obtain c1 f m where gm: "cache_get_many (or_lru E) [] (os_cache st) = (c1, f, m)" by (metis prod_cases3)
    note gs = utxo_lru.get_many_spec [OF assms(2) [unfolded utxo_lru_iff] conjunct2 [OF st] gm]
    have "m = []" using utxo_lru.get_many_misses(2) [OF assms(2) [unfolded utxo_lru_iff] conjunct2 [OF st] gm] by simp
    then have "?look st = (Inr f, st\<lparr>os_cache := c1\<rparr>)" by (simp add: get_many_with_fallback_def gm)
    then show "\<exists>x st'. ?look st = (Inr x, st') \<and> no_failures (os_db st') \<and> cache_ok (or_lru E) (os_cache st')"
      using st gs(1) by (intro exI conjI) (assumption, simp_all)
  qed
  then show ?thesis
    unfolding ingest_transactions_with_amounts_def coll Let_def case_prod_conv
    by (intro runs_and_then runs_writes [OF assms(1)] runs_ret)
qed

lemma ingest_block_runs:
  assumes "or_writer E = mock_writer now" "lru (or_lru E)" "list_all (btc_is_coinbase (or_btc E)) (bl_txdata b)"
  shows "runs E (ingest_block E b 0 file off)"
proof -
  have layer: "runs E (write_simplified_layer_rust E b ps)" for ps
    unfolding write_simplified_layer_rust_def Let_def using runs_writes [OF assms(1)] by auto
  show ?thesis
    unfolding ingest_block_def validate_parent_hash_def ingest_block_node_def ingest_outputs_and_cache_def ingest_inputs_def
      remove_spent_outputs_from_cache_def Let_def
    by (intro runs_and_then runs_writes [OF assms(1)] runs_transactions [OF assms] runs_remove [OF assms(2)]
        runs_join [OF _ assms(2)] layer) (simp_all add: runs_ret)
qed

text \<open>The same for the batch path.\<close>

lemma mock_step_runs:
  assumes "no_failures s" "run_step (mock_writer now) st s = (r, s')"
  shows "r = Inr () \<and> no_failures s'"
  using assms by (cases st) (auto simp: mock_write_performs_def mock_write_benefits_to_def unless_no_failure)

lemma task_turn_runs:
  assumes "no_failures s" "snd t = None" "task_turn (mock_writer now) t s = (t', s')"
  shows "no_failures s' \<and> snd t' = None \<and> fst t' = tl (fst t)"
proof -
  obtain ss where t: "t = (ss, None)" using assms(2) by (cases t) simp
  show ?thesis
  proof (cases ss)
    case (Cons x xs)
    obtain r s1 where run: "run_step (mock_writer now) x s = (r, s1)" by (metis prod.collapse)
    then show ?thesis using mock_step_runs [OF assms(1) run] assms(3) by (auto simp: t Cons)
  qed (use assms(1,3) in \<open>auto simp: t\<close>)
qed

lemma turns_run:
  "no_failures s \<Longrightarrow> list_all (\<lambda>t. snd t = None) ts \<Longrightarrow> fold (turn_of (mock_writer now)) is (ts, s) = (ts', s') \<Longrightarrow>
    no_failures s' \<and> list_all (\<lambda>t. snd t = None) ts'"
proof (induction "is" arbitrary: ts s)
  case (Cons i "is")
  obtain ts1 s1 where one: "turn_of (mock_writer now) i (ts, s) = (ts1, s1)" by (metis prod.collapse)
  have "no_failures s1 \<and> list_all (\<lambda>t. snd t = None) ts1"
  proof (cases "i < length ts")
    case True
    obtain t' where turn: "task_turn (mock_writer now) (ts ! i) s = (t', s1)" and ts1: "ts1 = ts[i := t']"
      using one True by (auto simp: turn_of_def split: prod.splits)
    have "snd (ts ! i) = None" using Cons.prems(2) True by (simp add: list_all_length)
    note r = task_turn_runs [OF Cons.prems(1) this turn]
    then show ?thesis using Cons.prems(2) by (auto simp: ts1 list_all_iff dest!: set_update_subset_insert [THEN subsetD])
  next
    case False
    then show ?thesis using one Cons.prems by (simp add: turn_of_def)
  qed
  then show ?case using Cons.IH [of s1 ts1] Cons.prems(3) by (simp add: one)
qed simp

lemma finish_task_runs:
  assumes "no_failures s" "snd t = None" "finish_task (mock_writer now) t s = (t', s')"
  shows "no_failures s' \<and> snd t' = None"
proof -
  have "no_failures s \<Longrightarrow> snd t = None \<Longrightarrow> fold (\<lambda>_ (t, w). task_turn (mock_writer now) t w) xs (t, s) = (t', s') \<Longrightarrow>
      no_failures s' \<and> snd t' = None" for xs :: "bucket_step list" and t s
  proof (induction xs arbitrary: t s)
    case (Cons x xs)
    obtain t1 s1 where one: "task_turn (mock_writer now) t s = (t1, s1)" by (metis prod.collapse)
    from task_turn_runs [OF Cons.prems(1,2) one] Cons.IH [of s1 t1] Cons.prems(3) show ?case by (simp add: one)
  qed simp
  from this [of s t "fst t"] assms show ?thesis by (simp add: finish_task_def)
qed

lemma await_runs:
  "no_failures s \<Longrightarrow> list_all (\<lambda>t. snd t = None) ts \<Longrightarrow> await_all (mock_writer now) ts s = (r, rest, s') \<Longrightarrow>
    r = Inr () \<and> no_failures s'"
proof (induction ts arbitrary: s)
  case (Cons t ts)
  obtain t1 s1 where one: "finish_task (mock_writer now) t s = (t1, s1)" by (metis prod.collapse)
  have "no_failures s1 \<and> snd t1 = None" using finish_task_runs [OF Cons.prems(1) _ one] Cons.prems(2) by simp
  moreover from this obtain ss where "t1 = (ss, None)" by (cases t1) simp
  ultimately show ?case using Cons.IH [of s1] Cons.prems(2,3) by (simp add: one)
qed simp

lemma runs_buckets:
  fixes E :: "(mock_storage, 'c) orchestrator"
  assumes "or_writer E = mock_writer now"
  shows "runs E (write_buckets E ps bs)"
  unfolding runs_def
proof (intro allI impI)
  fix st :: "(mock_storage, 'c) orch_state"
  assume st: "no_failures (os_db st) \<and> cache_ok (or_lru E) (os_cache st)"
  obtain ts s where turns: "fold (turn_of (mock_writer now)) (or_schedule E) (bucket_tasks E ps bs, os_db st) = (ts, s)"
    by (metis prod.collapse)
  have "list_all (\<lambda>t. snd t = None) (bucket_tasks E ps bs)" by (auto simp: bucket_tasks_def list_all_iff)
  then have one: "no_failures s \<and> list_all (\<lambda>t. snd t = None) ts" using turns_run [OF _ _ turns] st by blast
  obtain r rest s' where fin: "await_all (mock_writer now) ts s = (r, rest, s')" by (metis prod.collapse)
  note two = await_runs [OF conjunct1 [OF one] conjunct2 [OF one] fin]
  then show "\<exists>x st'. write_buckets E ps bs st = (Inr x, st') \<and> no_failures (os_db st') \<and> cache_ok (or_lru E) (os_cache st')"
    using st by (simp add: write_buckets_def assms turns fin)
qed

lemma runs_fast [intro]:
  assumes "or_writer E = mock_writer now"
  shows "runs E (in_db (gw_write_blocks_fast (or_writer E) bs))" "runs E (in_db (gw_write_transactions_fast (or_writer E) ts))"
    "runs E (in_db (gw_write_outputs_fast (or_writer E) os))" "runs E (in_db (gw_write_inputs_fast (or_writer E) is))"
    "runs E (in_db (gw_write_has_output_fast (or_writer E) os))"
    "runs E (in_db (gw_begin_transaction (or_writer E)))" "runs E (in_db (gw_commit_transaction (or_writer E)))"
  by (auto simp: runs_def in_db_def assms mock_write_blocks_fast_def mock_write_transactions_fast_def mock_write_outputs_fast_def
      mock_write_inputs_fast_def and_then_def unless_no_failure mock_write_blocks_def mock_write_transactions_def
      mock_write_outputs_def mock_write_inputs_def mock_write_has_output_def mock_begin_transaction_def
      mock_commit_transaction_def check_failure_def check_failure_after_def no_failures_def unless_failing_def)

lemma runs_phases:
  assumes "or_writer E = mock_writer now" "lru (or_lru E)"
  shows "runs E (phase1_blocks E chunk)" "runs E (phase2_write E chunk os)" "runs E (phase3_write E chunk ts)"
    "runs E (phase4_inputs E chunk)" "runs E (phase7_cleanup E chunk)" "runs E (chunk_checkpoint E chunk)"
  using runs_writes [OF assms(1)] runs_fast [OF assms(1)] runs_join [OF _ assms(2)] runs_remove [OF assms(2)]
  by (auto simp: phase1_blocks_def phase2_write_def phase3_write_def phase4_inputs_def phase7_cleanup_def
      chunk_checkpoint_def Let_def case_prod_beta)

lemma supplement_ok:
  assumes "lru (or_lru E)"
  shows "cache_ok (or_lru E) c \<Longrightarrow> fold (supplement E) ks (m, c) = (m', c') \<Longrightarrow> cache_ok (or_lru E) c'"
proof (induction ks arbitrary: m c)
  case (Cons k ks)
  obtain m1 c1 where one: "supplement E k (m, c) = (m1, c1)" by (metis prod.collapse)
  have "cache_ok (or_lru E) c1"
    using one Cons.prems(1) utxo_lru.get_quiet_spec(1) [OF assms [unfolded utxo_lru_iff] Cons.prems(1)]
    by (auto simp: supplement_def split: if_splits prod.splits sum.splits)
  then show ?case using Cons.IH [of c1 m1] Cons.prems(2) by (simp add: one)
qed simp

lemma runs_lookup: "lru (or_lru E) \<Longrightarrow> runs E (phase3_lookup E pf ks)"
  unfolding runs_def phase3_lookup_def using supplement_ok by (fastforce split: prod.split)

lemma runs_process_chunk:
  assumes "or_writer E = mock_writer now" "lru (or_lru E)"
  shows "runs E (process_batch_chunk E chunk pf)"
  unfolding process_batch_chunk_def Let_def case_prod_beta
  by (intro runs_and_then runs_phases [OF assms] runs_lookup [OF assms(2)] runs_buckets [OF assms(1)] runs_fast [OF assms(1)] runs_ret)

lemma runs_chunk_transaction:
  fixes E :: "(mock_storage, 'c) orchestrator"
  assumes "or_writer E = mock_writer now" "lru (or_lru E)"
  shows "runs E (chunk_transaction E chunk pf)"
proof -
  have snap: "runs E (try_save_snapshot E h)" for h
    by (auto simp: runs_def try_save_snapshot_def split: option.split)
  have tail: "runs E (and_then (in_db (gw_commit_transaction (or_writer E))) (\<lambda>_.
      and_then (try_save_snapshot E (fst (last chunk))) (\<lambda>_. ret c)))" for c :: "usize \<times> usize \<times> usize"
    by (intro runs_and_then runs_fast [OF assms(1)] snap runs_ret)
  have "runs E (\<lambda>st. case process_batch_chunk E chunk pf st of
       (Inr counts, st') \<Rightarrow> and_then (in_db (gw_commit_transaction (or_writer E))) (\<lambda>_.
         and_then (try_save_snapshot E (fst (last chunk))) (\<lambda>_. ret counts)) st'
     | (Inl e, st') \<Rightarrow> (Inl e, snd (in_db (gw_rollback_transaction (or_writer E)) st')))"
    unfolding runs_def
  proof (intro allI impI)
    fix st :: "(mock_storage, 'c) orch_state"
    assume st: "no_failures (os_db st) \<and> cache_ok (or_lru E) (os_cache st)"
    obtain x st1 where p: "process_batch_chunk E chunk pf st = (Inr x, st1)"
      "no_failures (os_db st1) \<and> cache_ok (or_lru E) (os_cache st1)"
      using runs_process_chunk [OF assms, of chunk pf] st unfolding runs_def by blast
    show "\<exists>y st'. (case process_batch_chunk E chunk pf st of
       (Inr counts, st') \<Rightarrow> and_then (in_db (gw_commit_transaction (or_writer E))) (\<lambda>_.
         and_then (try_save_snapshot E (fst (last chunk))) (\<lambda>_. ret counts)) st'
     | (Inl e, st') \<Rightarrow> (Inl e, snd (in_db (gw_rollback_transaction (or_writer E)) st'))) = (Inr y, st') \<and>
       no_failures (os_db st') \<and> cache_ok (or_lru E) (os_cache st')"
      using tail [of x, unfolded runs_def, rule_format, OF p(2)] by (simp add: p(1))
  qed
  then show ?thesis unfolding chunk_transaction_def by (intro runs_and_then runs_fast [OF assms(1)])
qed

lemma mock_lookup_runs:
  "no_failures s \<Longrightarrow> \<exists>rows s'. mock_lookup_outputs_batch ids s = (Inr rows, s') \<and> no_failures s'"
  by (simp add: mock_lookup_outputs_batch_def check_failure_def check_failure_after_def no_failures_def)

lemma resolve_prefetch_ok:
  assumes "lru (or_lru E)"
  shows "cache_ok (or_lru E) c \<Longrightarrow> fold (resolve_prefetch E rm) ks (f, c) = (f', c') \<Longrightarrow> cache_ok (or_lru E) c'"
proof (induction ks arbitrary: f c)
  case (Cons k ks)
  obtain f1 c1 where one: "resolve_prefetch E rm k (f, c) = (f1, c1)" by (metis prod.collapse)
  have "cache_ok (or_lru E) c1"
    using one Cons.prems(1) utxo_lru.insert_ok [OF assms [unfolded utxo_lru_iff] Cons.prems(1)]
    by (auto simp: resolve_prefetch_def split: option.splits)
  then show ?case using Cons.IH [of c1 f1] Cons.prems(2) by (simp add: one)
qed simp

lemma runs_prefetch:
  fixes E :: "(mock_storage, 'c) orchestrator"
  assumes "or_writer E = mock_writer now" "lru (or_lru E)"
  shows "runs E (prefetch E chunk)"
  unfolding runs_def
proof (intro allI impI)
  fix st :: "(mock_storage, 'c) orch_state"
  assume st: "no_failures (os_db st) \<and> cache_ok (or_lru E) (os_cache st)"
  obtain c1 f m where gm: "cache_get_many (or_lru E) (collect_input_keys (or_btc E) chunk) (os_cache st) = (c1, f, m)"
    by (metis prod_cases3)
  have c1: "cache_ok (or_lru E) c1"
    by (rule utxo_lru.get_many_spec(1) [OF assms(2) [unfolded utxo_lru_iff] conjunct2 [OF st] gm])
  obtain rows s' where look: "mock_lookup_outputs_batch (map (to_output_id_string (or_btc E)) m) (os_db st) = (Inr rows, s')"
    "no_failures s'"
    using mock_lookup_runs st by blast
  obtain f' c2 where res: "fold (resolve_prefetch E (result_map rows)) m (f, c1) = (f', c2)" by (metis prod.collapse)
  have c2: "cache_ok (or_lru E) c2" by (rule resolve_prefetch_ok [OF assms(2) c1 res])
  show "\<exists>x st'. prefetch E chunk st = (Inr x, st') \<and> no_failures (os_db st') \<and> cache_ok (or_lru E) (os_cache st')"
    using st c1 c2 look by (simp add: prefetch_def gm assms(1) res Let_def cache_adjust_misses_def)
qed

definition parent_ok :: "('w, 'c) orchestrator \<Rightarrow> mock_storage \<Rightarrow> u32 \<Rightarrow> btc_block \<Rightarrow> bool" where
  "parent_ok E s h b \<longleftrightarrow> h = 0 \<or> (\<forall>x \<in> set (ms_blocks s). bd_height x = h - 1 \<longrightarrow>
     bd_hash x = btc_hash_to_string (or_btc E) (hd_prev_blockhash (bl_header b)))"

lemma validate_runs:
  assumes "or_writer E = mock_writer now" "parent_ok E (os_db st) h b"
  shows "validate_parent_hash E b h st = (Inr (), st)"
proof (cases "h = 0")
  case False
  obtain o1 where f: "List.find (\<lambda>x. bd_height x = h - 1) (ms_blocks (os_db st)) = o1" by simp
  have "case o1 of None \<Rightarrow> True | Some x \<Rightarrow> bd_hash x = btc_hash_to_string (or_btc E) (hd_prev_blockhash (bl_header b))"
    using assms(2) f False by (auto simp: parent_ok_def find_Some_iff split: option.split)
  then show ?thesis using False
    by (cases o1) (simp_all add: validate_parent_hash_def and_then_def in_db_def assms(1) mock_lookup_block_hash_def f Let_def)
qed (simp add: validate_parent_hash_def)

lemma ingest_chunk_runs:
  assumes "or_writer E = mock_writer now" "lru (or_lru E)" "no_failures (os_db st)" "cache_ok (or_lru E) (os_cache st)"
    "chunk = [] \<or> parent_ok E (os_db st) (fst (hd chunk)) (fst (snd (hd chunk)))"
  shows "\<exists>stats' st'. ingest_chunk E chunk stats st = (Inr stats', st') \<and> no_failures (os_db st') \<and>
    cache_ok (or_lru E) (os_cache st')"
proof -
  let ?v = "case chunk of [] \<Rightarrow> ret () | (height, block, _) # _ \<Rightarrow> validate_parent_hash E block height"
  have v: "?v st = (Inr (), st)" using assms(5) validate_runs [OF assms(1)] by (auto split: list.split)
  have "runs E (and_then (prefetch E chunk) (\<lambda>prefetched. and_then (chunk_transaction E chunk prefetched)
     (\<lambda>(txs, outputs, inputs). ret (stats\<lparr>bs_transactions := bs_transactions stats + txs, bs_outputs := bs_outputs stats + outputs,
                bs_inputs := bs_inputs stats + inputs\<rparr>))))"
    unfolding case_prod_beta
    by (intro runs_and_then runs_prefetch [OF assms(1,2)] runs_chunk_transaction [OF assms(1,2)] runs_ret)
  then show ?thesis using assms(3,4) unfolding runs_def ingest_chunk_def by (simp add: v)
qed

section \<open>Linked batches\<close>

text \<open>Consecutive heights from \<open>h0\<close> on, each block naming its predecessor's hash.\<close>

definition linked :: "('w, 'c) orchestrator \<Rightarrow> u32 \<Rightarrow> chunk \<Rightarrow> bool" where
  "linked E h0 blocks \<longleftrightarrow> unat h0 + length blocks \<le> 2 ^ 32 \<and>
     (\<forall>i < length blocks. fst (blocks ! i) = h0 + of_nat i) \<and>
     (\<forall>i. Suc i < length blocks \<longrightarrow>
        btc_hash_to_string (or_btc E) (hd_prev_blockhash (bl_header (fst (snd (blocks ! Suc i))))) =
        btc_hash_to_string (or_btc E) (btc_block_hash (or_btc E) (fst (snd (blocks ! i)))))"

lemma unat_plus_small: "unat (h0 :: u32) + i < 2 ^ 32 \<Longrightarrow> unat (h0 + of_nat i) = unat h0 + i"
  by (simp add: unat_word_ariths unat_of_nat take_bit_eq_mod)

definition blocks_within :: "('w, 'c) orchestrator \<Rightarrow> mock_storage \<Rightarrow> u32 \<Rightarrow> chunk \<Rightarrow> bool" where
  "blocks_within E s h0 stored \<longleftrightarrow> (\<forall>x \<in> set (ms_blocks s). unat (bd_height x) < unat h0 \<or>
     (\<exists>(h, b, f) \<in> set stored. x = from_block (or_btc E) b h))"

lemma linked_parent:
  assumes "linked E h0 (pre @ c @ rest)" "blocks_within E s h0 pre" "pre = [] \<Longrightarrow> c \<noteq> [] \<Longrightarrow> parent_ok E s h0 (fst (snd (hd c)))"
  shows "c = [] \<or> parent_ok E s (fst (hd c)) (fst (snd (hd c)))"
proof (cases "c = []")
  case False
  let ?bs = "pre @ c @ rest" and ?n = "length pre"
  have n: "?n < length ?bs" "?bs ! ?n = hd c" using False by (simp_all add: nth_append hd_conv_nth)
  have h: "fst (hd c) = h0 + of_nat ?n" using assms(1) n unfolding linked_def by metis
  have bound: "unat h0 + length ?bs \<le> 2 ^ 32" using assms(1) by (simp only: linked_def)
  show ?thesis
  proof (cases "?n = 0")
    case True
    then show ?thesis using assms(3) False h by simp
  next
    case pos: False
    have un: "unat (h0 + of_nat i) = unat h0 + i" if "i < length ?bs" for i
      using bound that by (intro unat_plus_small) simp
    have pred: "fst (hd c) - 1 = h0 + of_nat (?n - 1)" using pos by (cases "length pre") (simp_all add: h)
    note un1 = un [OF less_imp_diff_less [OF n(1), of 1]]
    have "bd_hash x = btc_hash_to_string (or_btc E) (hd_prev_blockhash (bl_header (fst (snd (hd c)))))"
      if x: "x \<in> set (ms_blocks s)" "bd_height x = fst (hd c) - 1" for x
    proof -
      have "unat (bd_height x) = unat h0 + (?n - 1)" by (simp only: x(2) pred un1)
      then obtain h b f where e: "(h, b, f) \<in> set pre" "x = from_block (or_btc E) b h"
        using assms(2) x(1) unfolding blocks_within_def by fastforce
      then obtain j where j: "j < ?n" "?bs ! j = (h, b, f)" by (auto simp: in_set_conv_nth nth_append)
      have "h = h0 + of_nat j" using assms(1) j less_trans [OF j(1) n(1)] by (fastforce simp: linked_def simp del: append_assoc length_append)
      moreover have "bd_height x = h" by (simp add: e(2) from_block_def Let_def)
      ultimately have "unat h0 + j = unat h0 + (?n - 1)" using un [of j] un1 j(1) n(1) x(2) pred by simp
      then have "j = ?n - 1" by simp
      then have prev: "?bs ! (?n - 1) = (h, b, f)" using j(2) by simp
      have "Suc (?n - 1) < length ?bs \<longrightarrow>
        btc_hash_to_string (or_btc E) (hd_prev_blockhash (bl_header (fst (snd (?bs ! Suc (?n - 1)))))) =
        btc_hash_to_string (or_btc E) (btc_block_hash (or_btc E) (fst (snd (?bs ! (?n - 1)))))"
        using assms(1) unfolding linked_def by blast
      then show ?thesis using n prev pos by (simp add: e(2) from_block_def Let_def)
    qed
    then show ?thesis by (simp add: parent_ok_def)
  qed
qed simp

lemma chunk_blocks_within:
  assumes "or_writer E = mock_writer now" "mock_rows_ok rows (os_db st)" "ingest_chunk E c stats st = (Inr stats', st')"
    "blocks_within E (os_db st) h0 pre"
  shows "blocks_within E (os_db st') h0 (pre @ c) \<and> mock_rows_ok rows (os_db st')"
proof -
  note a = mock_graph.ingest_chunk_adds [OF assms(1,2,3), unfolded mock_graph.stored_def]
  then obtain ao where ao: "mock_items (mock_data (os_db st')) = mock_items (mock_data (os_db st)) + mset (chunk_items E ao c)"
    by auto
  have mem: "BlockItem x \<in># mock_items (mock_data s) \<longleftrightarrow> x \<in> set (ms_blocks s)" for x s
    by (auto simp: mock_items_def mock_data_def)
  have new: "BlockItem x \<in># mset (chunk_items E ao c) \<Longrightarrow> \<exists>(h, b, f) \<in> set c. x = from_block (or_btc E) b h" for x
    by (auto simp: chunk_items_def block_items_def tx_items_def)
  have "x \<in> set (ms_blocks (os_db st)) \<or> (\<exists>(h, b, f) \<in> set c. x = from_block (or_btc E) b h)"
    if "x \<in> set (ms_blocks (os_db st'))" for x
  proof -
    have "BlockItem x \<in># mock_items (mock_data (os_db st)) + mset (chunk_items E ao c)"
      using that by (simp only: mem ao [symmetric])
    then show ?thesis using mem [of x "os_db st"] new [of x] by auto
  qed
  then show ?thesis using a assms(4) unfolding blocks_within_def by fastforce
qed

lemma linked_chunks_run:
  assumes "or_writer E = mock_writer now" "lru (or_lru E)"
  shows "linked E h0 (pre @ concat cs) \<Longrightarrow> [] \<notin> set cs \<Longrightarrow> no_failures (os_db st) \<Longrightarrow> cache_ok (or_lru E) (os_cache st) \<Longrightarrow>
    mock_rows_ok rows (os_db st) \<Longrightarrow> blocks_within E (os_db st) h0 pre \<Longrightarrow>
    (pre = [] \<Longrightarrow> cs \<noteq> [] \<Longrightarrow> parent_ok E (os_db st) h0 (fst (snd (hd (concat cs))))) \<Longrightarrow>
    \<exists>stats' st'. ingest_chunks E cs stats st = (Inr stats', st')"
proof (induction cs arbitrary: pre stats st)
  case (Cons c cs)
  have c: "c \<noteq> []" using Cons.prems(2) by auto
  have link: "linked E h0 (pre @ c @ concat cs)" using Cons.prems(1) by simp
  have par: "c = [] \<or> parent_ok E (os_db st) (fst (hd c)) (fst (snd (hd c)))"
    using linked_parent [OF link Cons.prems(6)] Cons.prems(7) c by simp
  obtain stats1 st1 where one: "ingest_chunk E c stats st = (Inr stats1, st1)" "no_failures (os_db st1)"
    "cache_ok (or_lru E) (os_cache st1)"
    using ingest_chunk_runs [OF assms Cons.prems(3,4) par] by blast
  note w = chunk_blocks_within [OF assms(1) Cons.prems(5) one(1) Cons.prems(6)]
  have "\<exists>stats' st'. ingest_chunks E cs stats1 st1 = (Inr stats', st')"
  proof (rule Cons.IH [where pre = "pre @ c"])
    show "linked E h0 ((pre @ c) @ concat cs)" using link by simp
    show "[] \<notin> set cs" using Cons.prems(2) by simp
  qed (use one w c in auto)
  then show ?case using one(1) by simp
qed simp

section \<open>An example\<close>

definition ex_b :: "u32 \<Rightarrow> btc_block" where
  "ex_b n = ex_block n [ex_coinbase n]"

definition ex_two :: chunk where
  "ex_two = [(0, ex_b 1, ''f''), (1, ex_b 2, ''f'')]"

text \<open>The ledger of the outputs that a list of blocks creates.\<close>

definition ledger_of :: "('w, 'c) orchestrator \<Rightarrow> chunk \<Rightarrow> utxo_key \<rightharpoonup> cached_output" where
  "ledger_of E blocks k = map_option cached_of_output (List.find (\<lambda>out.
     key_from_hex_txid (or_btc E) (od_txid out) (od_output_index out) = Some k) (chunk_outputs E blocks))"

lemma ex_orch_sel: "or_writer ex_orch = mock_writer 0" "or_lru ex_orch = ref_lru_ops" "or_btc ex_orch = ex_btc"
  by (simp_all add: ex_orch_def)

lemma ex_state_sel: "os_db (ex_state s) = s" "os_cache (ex_state s) = ex_cache"
  by (simp_all add: ex_state_def)

lemma mock_new_facts: "no_failures mock_new" "mock_ok mock_new" "mock_rows_ok [] mock_new" "ms_blocks mock_new = []"
  "mock_items (mock_data mock_new) = {#}"
  by (simp_all add: no_failures_def mock_new_def mock_ok_def mock_rows_ok_def mock_items_def mock_data_def)

lemma ex_b_coinbase: "list_all (btc_is_coinbase (or_btc ex_orch)) (bl_txdata (ex_b n))"
  by (simp add: ex_b_def ex_block_def ex_coinbase_def ex_orch_def ex_btc_def)

lemma ex_lookup: "mock_rows_ok [] w \<Longrightarrow> gw_lookup_outputs_batch (mock_writer now) ids w = (Inr rows, w') \<Longrightarrow> rows = []"
  by (auto simp: mock_rows_ok_def mock_lookup_outputs_batch_def dest: check_failure_rows split: prod.splits option.splits)

lemma on_ledger_of:
  assumes "\<And>out out' k. out \<in> set (chunk_outputs ex_orch blocks) \<Longrightarrow> out' \<in> set (chunk_outputs ex_orch blocks) \<Longrightarrow>
      key_from_hex_txid ex_btc (od_txid out) (od_output_index out) = Some k \<Longrightarrow>
      key_from_hex_txid ex_btc (od_txid out') (od_output_index out') = Some k \<Longrightarrow> out = out'"
  shows "on_ledger ex_orch (mock_rows_ok []) (ledger_of ex_orch blocks) blocks"
proof -
  have "ledger_of ex_orch blocks k = Some (cached_of_output out)"
    if out: "out \<in> set (chunk_outputs ex_orch blocks)" "key_from_hex_txid ex_btc (od_txid out) (od_output_index out) = Some k"
    for out k
  proof -
    have "List.find (\<lambda>out. key_from_hex_txid ex_btc (od_txid out) (od_output_index out) = Some k)
        (chunk_outputs ex_orch blocks) \<noteq> None"
      using out by (auto simp: find_None_iff)
    then obtain o1 where f: "List.find (\<lambda>out. key_from_hex_txid ex_btc (od_txid out) (od_output_index out) = Some k)
        (chunk_outputs ex_orch blocks) = Some o1" by blast
    then have "o1 \<in> set (chunk_outputs ex_orch blocks)" "key_from_hex_txid ex_btc (od_txid o1) (od_output_index o1) = Some k"
      by (auto simp: find_Some_iff)
    then show ?thesis using assms out f by (auto simp: ledger_of_def ex_orch_sel)
  qed
  then show ?thesis using ex_lookup ref_lru_is_lru by (fastforce simp: on_ledger_def ex_orch_sel result_map_def)
qed

lemma ex_coherent: "coherent ex_orch U ex_cache"
  by (simp add: coherent_def ex_orch_sel ex_cache_ok ex_cache_view)

lemma ex_two_linked: "linked ex_orch 0 ex_two"
  by (auto simp: linked_def ex_two_def ex_b_def ex_block_def ex_orch_sel ex_btc_def less_Suc_eq nth_Cons')

lemma ex_outputs:
  "chunk_outputs ex_orch [(h, ex_b n, f)] =
     [from_output ex_btc \<lparr>to_value = 50, to_script_pubkey = [0x6A]\<rparr> (hex_encode (replicate 28 0 @ u32_to_le n)) 0 Bitcoin]"
  by (simp add: chunk_outputs_def chunk_txs_def tx_output_data_def ex_b_def ex_block_def ex_coinbase_def txid_string_def
      ex_orch_def usize_as_u32_def ex_btc_def)

lemma ex_output_key:
  "key_from_hex_txid ex_btc (od_txid (from_output ex_btc out (hex_encode txid) i nw)) (od_output_index (from_output ex_btc out (hex_encode txid) i nw))
     = Some (key_new txid i)"
  by (simp add: from_output_def Let_def key_from_hex_txid_def key_new_def ex_btc_def hex_roundtrip split: prod.split)

lemma chunk_outputs_append: "chunk_outputs E (xs @ ys) = chunk_outputs E xs @ chunk_outputs E ys"
  by (simp add: chunk_outputs_def chunk_txs_def)

lemma ex_two_ledger: "on_ledger ex_orch (mock_rows_ok []) (ledger_of ex_orch ex_two) ex_two"
proof (rule on_ledger_of)
  have outs: "chunk_outputs ex_orch ex_two = chunk_outputs ex_orch [(0, ex_b 1, ''f'')] @ chunk_outputs ex_orch [(1, ex_b 2, ''f'')]"
    by (simp add: ex_two_def chunk_outputs_append [symmetric])
  have ne: "key_new (replicate 28 0 @ u32_to_le 1) 0 \<noteq> key_new (replicate 28 0 @ u32_to_le 2) 0"
  proof -
    have "u32_to_le 1 \<noteq> u32_to_le 2"
    proof
      assume "u32_to_le 1 = u32_to_le 2"
      from arg_cong [OF this, of u32_from_le] show False by (simp only: u32_le_roundtrip) simp
    qed
    then show ?thesis by (auto simp: key_new_def)
  qed
  show "out = out'" if "out \<in> set (chunk_outputs ex_orch ex_two)" "out' \<in> set (chunk_outputs ex_orch ex_two)"
    "key_from_hex_txid ex_btc (od_txid out) (od_output_index out) = Some k"
    "key_from_hex_txid ex_btc (od_txid out') (od_output_index out') = Some k" for out out' k
    using that ne unfolding outs ex_outputs by (auto simp: ex_output_key)
qed

lemma ex_one_ledger: "on_ledger ex_orch (mock_rows_ok []) (ledger_of ex_orch [(0, ex_b 1, ''f'')]) [(0, ex_b 1, ''f'')]"
  by (rule on_ledger_of) (simp add: ex_outputs)

lemma linked_batch_runs:
  assumes "or_writer E = mock_writer now" and "lru (or_lru E)" and "no_failures (os_db st)"
    and "mock_ok (os_db st)" and "cache_ok (or_lru E) (os_cache st)" and "linked E h0 blocks"
    and "\<forall>x \<in> set (ms_blocks (os_db st)). unat (bd_height x) < unat h0"
    and "blocks \<noteq> [] \<Longrightarrow> parent_ok E (os_db st) h0 (fst (snd (hd blocks)))"
  shows "\<exists>stats st'. ingest_blocks_batch E blocks st = (Inr stats, st')"
proof -
  obtain chunks stats0 where c: "concat chunks = blocks" "[] \<notin> set chunks"
    "ingest_blocks_batch E blocks = ingest_chunks E chunks stats0"
    using mock_graph.batch_chunks [of blocks E] by blast
  have "\<exists>stats' st'. ingest_chunks E chunks stats0 st = (Inr stats', st')"
  proof (rule linked_chunks_run [where pre = "[]" and ?h0.0 = h0, OF assms(1,2)])
    show "linked E h0 ([] @ concat chunks)" using assms(6) c(1) by simp
    show "mock_rows_ok (ms_lookup_outputs_responses (os_db st)) (os_db st)" using assms(4) by (simp add: mock_rows_ok_def)
    show "blocks_within E (os_db st) h0 []" using assms(7) by (simp add: blocks_within_def)
    show "parent_ok E (os_db st) h0 (fst (snd (hd (concat chunks))))" if "chunks \<noteq> []"
      using assms(8) that c by (cases chunks) auto
  qed (use assms c in auto)
  then show ?thesis by (simp add: c(3))
qed

section \<open>Properties\<close>



text \<open>
  C6. The single-block path is exact: a block that is ingested adds precisely the ledger's
  records of that block to the stored graph, each input resolved to the ledger's output, moves
  the checkpoint to the block and leaves a cache that agrees with the ledger.
\<close>
theorem committed_block_exact:
  assumes "graph_store (or_writer E) ok data saved graph item stored_cp cp_item" and "ok (os_db st)"
    and "on_ledger E ok U [(h, b, file)]" and "coherent E U (os_cache st)"
    and "ingest_block E b h file off st = (Inr u, st')"
  shows "graph (data (os_db st')) = graph (data (os_db st)) + image_mset item (mset (block_items E U h b)) \<and>
    stored_cp (data (os_db st')) = Some (cp_item (checkpoint_at E (u32_as_i32 h)
      (btc_hash_to_string (or_btc E) (btc_block_hash (or_btc E) b)) file off)) \<and>
    coherent E U (os_cache st')"
  using graph_store.single_block_adds [OF assms(1) refl assms(2,5), unfolded graph_store.stored_def [OF assms(1)]] assms(3,4)
  by metis

theorem committed_block_exact_witness:
  "\<exists>st'. ingest_block ex_orch (ex_b 1) 0 ''f'' None (ex_state mock_new) = (Inr (), st') \<and>
     mock_items (mock_data (os_db st')) = mset (block_items ex_orch (ledger_of ex_orch [(0, ex_b 1, ''f'')]) 0 (ex_b 1))"
proof -
  obtain u st' where run: "ingest_block ex_orch (ex_b 1) 0 ''f'' None (ex_state mock_new) = (Inr u, st')"
    using runsD [OF ingest_block_runs [OF ex_orch_sel(1) _ ex_b_coinbase], of "ex_state mock_new"]
    by (simp add: ex_state_sel mock_new_facts ex_orch_sel ref_lru_is_lru ex_cache_ok) blast
  have g: "graph_store (or_writer ex_orch) (mock_rows_ok []) mock_data mock_saved mock_items id mock_cp id"
    unfolding ex_orch_sel by (rule mock_graph.graph_store_axioms)
  have "mock_rows_ok [] (os_db (ex_state mock_new))"
    "coherent ex_orch (ledger_of ex_orch [(0, ex_b 1, ''f'')]) (os_cache (ex_state mock_new))"
    by (simp_all add: ex_state_sel mock_new_facts ex_coherent)
  from committed_block_exact [OF g this(1) ex_one_ledger this(2) run] run show ?thesis
    by (auto simp: ex_state_sel mock_new_facts)
qed



end
