(* ===== verification/LiveLaws.thy ===== *)
theory LiveLaws
  imports Live Committed
begin

text \<open>
  What the live mode does: where a reorganisation is cut, what is left after it, that catching
  up ends and which blocks it ingests, and that the cache is saved under the right height.
\<close>

section \<open>Lifting\<close>

lemma on_orch_Inr:
  assumes "on_orch ctx m s = (Inr x, s')"
  obtains st where "m (lv_orch s) = (Inr x, st)" "s' = s\<lparr>lv_orch := st\<rparr>"
  using assms by (auto simp: on_orch_def split: prod.splits sum.splits)

lemma on_rpc_Inr:
  assumes "on_rpc ctx m s = (Inr x, s')"
  obtains p where "m (lv_rpc s) = (Inr x, p)" "s' = s\<lparr>lv_rpc := p\<rparr>"
  using assms by (auto simp: on_rpc_def split: prod.splits sum.splits)

lemma on_orch_Inl_ctx: "on_orch ctx m s = (Inl (c, e), s') \<Longrightarrow> c = ctx"
  and on_rpc_Inl_ctx: "on_rpc ctx m' s = (Inl (c, e), s') \<Longrightarrow> c = ctx"
  by (auto simp: on_orch_def on_rpc_def split: prod.splits sum.splits)

section \<open>The fork point\<close>

text \<open>A node whose answer about a height does not change.\<close>

definition canonical :: "'p http_ops \<Rightarrow> (u32 \<Rightarrow> string) \<Rightarrow> bool" where
  "canonical H canon \<longleftrightarrow> (\<forall>h p hash p'. get_block_hash H h p = (Inr hash, p') \<longrightarrow> hash = canon h)"

definition agrees :: "chain_view \<Rightarrow> (u32 \<Rightarrow> string) \<Rightarrow> u32 \<Rightarrow> bool" where
  "agrees v canon h \<longleftrightarrow> map_option sb_hash (v h) = Some (canon h)"

text \<open>Looking up hashes changes nothing but the connections.\<close>

definition only_looked :: "('w \<Rightarrow> chain_view) \<Rightarrow> ('w \<Rightarrow> checkpoint_data option)
    \<Rightarrow> ('w, 'c, 'p, 'e, 's) live_state \<Rightarrow> ('w, 'c, 'p, 'e, 's) live_state \<Rightarrow> bool" where
  "only_looked view cp s s' \<longleftrightarrow>
     (\<exists>w p. s' = s\<lparr>lv_orch := (lv_orch s)\<lparr>os_db := w\<rparr>, lv_rpc := p\<rparr> \<and>
        view w = view (os_db (lv_orch s)) \<and> cp w = cp (os_db (lv_orch s)))"

lemma only_looked_refl: "only_looked view cp s s"
  unfolding only_looked_def by (intro exI [of _ "os_db (lv_orch s)"] exI [of _ "lv_rpc s"]) simp

lemma only_lookedI:
  "s' = s\<lparr>lv_orch := (lv_orch s)\<lparr>os_db := w\<rparr>, lv_rpc := p\<rparr> \<Longrightarrow> view w = view (os_db (lv_orch s)) \<Longrightarrow>
     cp w = cp (os_db (lv_orch s)) \<Longrightarrow> only_looked view cp s s'"
  unfolding only_looked_def by blast

lemma only_looked_trans:
  assumes "only_looked view cp s s'" "only_looked view cp s' s''"
  shows "only_looked view cp s s''"
proof -
  obtain w p where one: "s' = s\<lparr>lv_orch := (lv_orch s)\<lparr>os_db := w\<rparr>, lv_rpc := p\<rparr>" "view w = view (os_db (lv_orch s))"
    "cp w = cp (os_db (lv_orch s))" using assms(1) unfolding only_looked_def by blast
  obtain w' p' where two: "s'' = s'\<lparr>lv_orch := (lv_orch s')\<lparr>os_db := w'\<rparr>, lv_rpc := p'\<rparr>" "view w' = view (os_db (lv_orch s'))"
    "cp w' = cp (os_db (lv_orch s'))" using assms(2) unfolding only_looked_def by blast
  show ?thesis by (rule only_lookedI [where w = w' and p = p']) (simp_all add: one two)
qed

lemma only_looked_step:
  assumes "chain_writer (or_writer E) view cp"
    and "on_orch ctx (lookup_block_hash E h) s = (r, s')"
  shows "only_looked view cp s s'" "r = Inr x \<Longrightarrow> x = map_option sb_hash (view (os_db (lv_orch s)) h)"
proof -
  obtain r0 w where run: "gw_lookup_block_hash (or_writer E) h (os_db (lv_orch s)) = (r0, w)" by (metis prod.collapse)
  note law = chain_writer.lookup_hash [OF assms(1)] chain_writer.lookup_hash_frame [OF assms(1), of h "os_db (lv_orch s)"]
  have s': "s' = s\<lparr>lv_orch := (lv_orch s)\<lparr>os_db := w\<rparr>\<rparr>" "r = (case r0 of Inl e \<Rightarrow> Inl (ctx, FromWriter e) | Inr x \<Rightarrow> Inr x)"
    using assms(2) run by (auto simp: on_orch_def lookup_block_hash_def in_db_def split: sum.splits)
  show "only_looked view cp s s'"
    unfolding only_looked_def using law(2,3) run s'(1) by (intro exI [of _ w] exI [of _ "lv_rpc s"]) simp
  show "x = map_option sb_hash (view (os_db (lv_orch s)) h)" if "r = Inr x"
    using that s'(2) run law(1) by (cases r0) auto
qed

lemma only_looked_rpc:
  assumes "on_rpc ctx m s = (r, s')"
  shows "only_looked view cp s s'"
proof -
  have "s' = s\<lparr>lv_rpc := lv_rpc s'\<rparr>" using assms by (auto simp: on_rpc_def split: prod.splits sum.splits)
  then show ?thesis by (intro only_lookedI [where w = "os_db (lv_orch s)" and p = "lv_rpc s'"]) simp_all
qed

lemma only_looked_view: "only_looked view cp s s' \<Longrightarrow> view (os_db (lv_orch s')) = view (os_db (lv_orch s))"
  by (auto simp: only_looked_def)

lemma fork_walk_spec:
  assumes "chain_writer (or_writer E) view cp" "canonical H canon"
  shows "fork_walk E H hs s = (r, s') \<Longrightarrow> only_looked view cp s s' \<and>
    (\<forall>f. r = Inr f \<longrightarrow> (\<exists>pre post. hs = pre @ f # post \<and> agrees (view (os_db (lv_orch s))) canon f \<and>
       (\<forall>h\<in>set pre. \<not> agrees (view (os_db (lv_orch s))) canon h))) \<and>
    (r = Inl no_fork_point \<longrightarrow> (\<forall>h\<in>set hs. \<not> agrees (view (os_db (lv_orch s))) canon h))"
proof (induction hs arbitrary: s)
  case Nil
  then show ?case by (auto simp: only_looked_refl)
next
  case (Cons h hs)
  obtain r1 s1 where one: "on_orch [''Failed to lookup stored block hash at height '' @ u32_to_dec h] (lookup_block_hash E h) s = (r1, s1)"
    by (metis prod.collapse)
  note look = only_looked_step [OF assms(1) one]
  show ?case
  proof (cases r1)
    case (Inl e)
    obtain c e' where "e = (c, e')" by (cases e)
    then have "e \<noteq> no_fork_point" using on_orch_Inl_ctx [of _ _ s c e' s1] one Inl by (auto simp: no_fork_point_def)
    then show ?thesis using Cons.prems one Inl look(1) by auto
  next
    case (Inr ours)
    obtain r2 s2 where two: "on_rpc [''Failed to get canonical block hash at height '' @ u32_to_dec h] (get_block_hash H h) s1 = (r2, s2)"
      by (metis prod.collapse)
    have looked: "only_looked view cp s s2" using look(1) only_looked_rpc [OF two] by (rule only_looked_trans)
    show ?thesis
    proof (cases r2)
      case (Inl e)
      obtain c e' where "e = (c, e')" by (cases e)
      then have "e \<noteq> no_fork_point" using on_rpc_Inl_ctx [of _ _ s1 c e' s2] two Inl by (auto simp: no_fork_point_def)
      then show ?thesis using Cons.prems one Inr two Inl looked by auto
    next
      case hash: (Inr hash)
      have "hash = canon h" using two hash assms(2) by (auto simp: canonical_def on_rpc_def split: prod.splits sum.splits)
      moreover have ours: "ours = map_option sb_hash (view (os_db (lv_orch s)) h)" using look(2) Inr by simp
      ultimately have eq: "ours = Some hash \<longleftrightarrow> agrees (view (os_db (lv_orch s))) canon h" by (simp add: agrees_def)
      have run: "fork_walk E H (h # hs) s = (if ours = Some hash then ret h else fork_walk E H hs) s2"
        using one Inr two hash by simp
      show ?thesis
      proof (cases "ours = Some hash")
        case True
        then have "r = Inr h" "s' = s2" using Cons.prems run by auto
        then show ?thesis using looked True eq by (auto intro: exI [of _ "[]"])
      next
        case False
        then have rest: "fork_walk E H hs s2 = (r, s')" using Cons.prems run by simp
        note ih = Cons.IH [OF rest, unfolded only_looked_view [OF looked]]
        have na: "\<not> agrees (view (os_db (lv_orch s))) canon h" using False eq by simp
        show ?thesis
        proof (intro conjI allI impI)
          show "only_looked view cp s s'" using looked ih by (blast intro: only_looked_trans)
          fix f assume "r = Inr f"
          then obtain pre post where "hs = pre @ f # post" "agrees (view (os_db (lv_orch s))) canon f"
            "\<forall>h\<in>set pre. \<not> agrees (view (os_db (lv_orch s))) canon h" using ih by blast
          with na show "\<exists>pre post. h # hs = pre @ f # post \<and> agrees (view (os_db (lv_orch s))) canon f \<and>
              (\<forall>h\<in>set pre. \<not> agrees (view (os_db (lv_orch s))) canon h)"
            by (intro exI [of _ "h # pre"] exI [of _ post]) simp
        next
          assume "r = Inl no_fork_point"
          then show "\<forall>h\<in>set (h # hs). \<not> agrees (view (os_db (lv_orch s))) canon h" using ih na by simp
        qed
      qed
    qed
  qed
qed

text \<open>The highest height up to \<open>start\<close> where the stored chain agrees with the node's.\<close>

definition is_fork_point :: "chain_view \<Rightarrow> (u32 \<Rightarrow> string) \<Rightarrow> u32 \<Rightarrow> u32 \<Rightarrow> bool" where
  "is_fork_point v canon start f \<longleftrightarrow> f \<le> start \<and> agrees v canon f \<and> (\<forall>h. f < h \<and> h \<le> start \<longrightarrow> \<not> agrees v canon h)"

lemma find_fork_point_spec:
  assumes "chain_writer (or_writer E) view cp" "canonical H canon" "find_fork_point E H start s = (r, s')"
  shows "only_looked view cp s s'" "r = Inr f \<Longrightarrow> is_fork_point (view (os_db (lv_orch s))) canon start f"
    "r = Inl no_fork_point \<Longrightarrow> h \<le> start \<Longrightarrow> \<not> agrees (view (os_db (lv_orch s))) canon h"
proof -
  note spec = fork_walk_spec [OF assms(1,2) assms(3) [unfolded find_fork_point_def]]
  show "only_looked view cp s s'" using spec by blast
  show "is_fork_point (view (os_db (lv_orch s))) canon start f" if r: "r = Inr f"
  proof -
    obtain pre post where split: "heights_down 0 start = pre @ f # post" and
      "agrees (view (os_db (lv_orch s))) canon f" "\<forall>h\<in>set pre. \<not> agrees (view (os_db (lv_orch s))) canon h"
      using spec r by blast
    then show ?thesis using heights_down_split [OF split] by (auto simp: is_fork_point_def)
  qed
  show "\<not> agrees (view (os_db (lv_orch s))) canon h" if "r = Inl no_fork_point" "h \<le> start"
    using spec that by (auto simp: set_heights_down)
qed

text \<open>
  C11. The fork point is the highest height, at or below the given one, where the stored block is
  the node's block; that the chains share no block is only reported when they do not; and
  looking for it changes nothing stored.
\<close>
theorem fork_point_exact:
  assumes "chain_writer (or_writer E) view cp" and "canonical H canon" and "find_fork_point E H start s = (r, s')"
  shows "view (os_db (lv_orch s')) = view (os_db (lv_orch s)) \<and>
    (\<forall>f. r = Inr f \<longrightarrow> is_fork_point (view (os_db (lv_orch s))) canon start f) \<and>
    (r = Inl no_fork_point \<longrightarrow> (\<forall>h \<le> start. \<not> agrees (view (os_db (lv_orch s))) canon h))"
  using find_fork_point_spec [OF assms] only_looked_view by blast

lemma handle_reorg_spec:
  assumes "chain_writer (or_writer E) view cp" "canonical H canon" "handle_reorg E H rh s = (Inr u, s')"
  shows "\<exists>f. is_fork_point (view (os_db (lv_orch s))) canon (saturating_sub rh 1) f \<and> lv_current_height s' = f + 1 \<and>
    lv_tracker s' = lv_tracker s \<and>
    view (os_db (lv_orch s')) = view (os_db (lv_orch s)) |` (- {f <.. saturating_sub rh 1}) \<and>
    (f < saturating_sub rh 1 \<longrightarrow> cp (os_db (lv_orch s')) = Some (fork_checkpoint E f (canon f)))"
proof -
  let ?tip = "saturating_sub rh 1" and ?v = "view (os_db (lv_orch s))"
  obtain f s1 where
    found: "(case find_fork_point E H ?tip s of (Inl (ctx, e), s') \<Rightarrow> (Inl (''Failed to find fork point during reorg'' # ctx, e), s')
       | (Inr f, s') \<Rightarrow> (Inr f, s')) = (Inr f, s1)"
    and tail: "and_then (on_orch [''Rollback failed during reorg handling''] (rollback_to_height E ?tip f))
       (\<lambda>_ s. (Inr (), s\<lparr>lv_current_height := f + 1\<rparr>)) s1 = (Inr u, s')"
    using assms(3) unfolding handle_reorg_def by (rule and_then_InrE)
  have ff: "find_fork_point E H ?tip s = (Inr f, s1)" using found by (auto split: prod.splits sum.splits)
  note spec = find_fork_point_spec [OF assms(1,2) ff]
  obtain n s2 where roll: "on_orch [''Rollback failed during reorg handling''] (rollback_to_height E ?tip f) s1 = (Inr n, s2)"
    and s': "s' = s2\<lparr>lv_current_height := f + 1\<rparr>" using tail by (rule and_then_InrE) auto
  obtain st where st: "rollback_to_height E ?tip f (lv_orch s1) = (Inr n, st)" "s2 = s1\<lparr>lv_orch := st\<rparr>"
    using roll by (rule on_orch_Inr)
  have fork: "is_fork_point ?v canon ?tip f" using spec(2) by simp
  have tracker: "lv_tracker s1 = lv_tracker s" using spec(1) by (auto simp: only_looked_def)
  have v1: "view (os_db (lv_orch s1)) = ?v" using only_looked_view [OF spec(1)] .
  show ?thesis
  proof (cases "f < ?tip")
    case True
    note law = chain_writer.rollback_to_height_result [OF assms(1) st(1) refl True]
    have hash: "map_option sb_hash (?v f) = Some (canon f)" using fork by (simp add: is_fork_point_def agrees_def)
    show ?thesis using law fork tracker v1 hash by (intro exI [of _ f]) (auto simp: s' st(2))
  next
    case False
    then have f: "f = ?tip" using fork by (simp add: is_fork_point_def)
    have "st = lv_orch s1" using st(1) f by (simp add: rollback_to_height_def)
    then show ?thesis using fork tracker v1 f by (intro exI [of _ f]) (simp add: s' st(2))
  qed
qed

text \<open>
  C10. A reorganisation is undone down to the fork: when the handling of one reported at height
  \<open>reorg_height\<close> succeeds, exactly the stored blocks above the highest common block and below
  that height are gone, the checkpoint is the common block under the node's hash for it, and
  ingestion goes on at the height above it. The height for the cache snapshot stays what it was.
\<close>
theorem reorg_undone_to_fork:
  assumes "chain_writer (or_writer E) view cp" and "canonical H canon" and "handle_reorg E H reorg_height s = (Inr (), s')"
  shows "\<exists>f. is_fork_point (view (os_db (lv_orch s))) canon (saturating_sub reorg_height 1) f \<and>
    view (os_db (lv_orch s')) = view (os_db (lv_orch s)) |` (- {f <.. saturating_sub reorg_height 1}) \<and>
    (f < saturating_sub reorg_height 1 \<longrightarrow> cp (os_db (lv_orch s')) = Some (fork_checkpoint E f (canon f))) \<and>
    lv_current_height s' = f + 1 \<and> lv_tracker s' = lv_tracker s"
  using handle_reorg_spec [OF assms] by blast

section \<open>Catching up\<close>

text \<open>Batches that were ingested one after the other.\<close>

fun batches_ingested :: "('w, 'c) orchestrator \<Rightarrow> chunk list \<Rightarrow> ('w, 'c) orch_state \<Rightarrow> ('w, 'c) orch_state \<Rightarrow> bool" where
  "batches_ingested E [] st st' \<longleftrightarrow> st' = st"
| "batches_ingested E (bs # bss) st st' \<longleftrightarrow>
     (\<exists>stats st1. ingest_blocks_batch E bs st = (Inr stats, st1) \<and> batches_ingested E bss st1 st')"

text \<open>A node with a tip below the last height there is, and any order of completion.\<close>

definition node_ok :: "'p http_ops \<Rightarrow> nat \<Rightarrow> bool" where
  "node_ok H T \<longleftrightarrow> T < 2 ^ 32 - 1 \<and> (\<forall>xs. mset (ho_completion H xs) = mset xs) \<and>
     (\<forall>p t p'. get_tip_height H p = (Inr t, p') \<longrightarrow> unat t \<le> T)"

definition run_from :: "u32 \<Rightarrow> nat \<Rightarrow> u32 list" where
  "run_from h n = map (\<lambda>i. h + of_nat i) [0 ..< n]"

lemma run_from_append: "run_from h (m + n) = run_from h m @ run_from (h + of_nat m) n"
proof -
  have shift: "[m ..< m + n] = map (\<lambda>i. i + m) [0 ..< n]" by (simp add: map_add_upt add.commute)
  have "run_from h (m + n) = run_from h m @ map (\<lambda>i. h + of_nat i) [m ..< m + n]"
    by (simp add: run_from_def upt_add_eq_append [of 0 m n])
  also have "map (\<lambda>i. h + of_nat i) [m ..< m + n] = run_from (h + of_nat m) n"
    unfolding shift run_from_def by (simp add: add.assoc add.left_commute add.commute)
  finally show ?thesis .
qed

lemma last_run_from: "0 < n \<Longrightarrow> last (run_from h n) = h + of_nat (n - 1)"
  by (simp add: run_from_def last_map)

lemma is_cancelled_Inr: "is_cancelled s = (Inr b, s') \<Longrightarrow>
    lv_orch s' = lv_orch s \<and> lv_tracker s' = lv_tracker s \<and> lv_current_height s' = lv_current_height s \<and> lv_rpc s' = lv_rpc s"
  by (auto simp: is_cancelled_def split: option.splits nat.splits)

text \<open>A turn either stops and ingests nothing, or ingests one batch that starts at the current
  height.\<close>

definition turn_ingests :: "('w, 'c) orchestrator \<Rightarrow> nat \<Rightarrow> bool \<Rightarrow> ('w, 'c, 'p, 'e, 's) live_state \<Rightarrow> ('w, 'c, 'p, 'e, 's) live_state
    \<Rightarrow> chunk \<Rightarrow> bool" where
  "turn_ingests E T go s s' bs \<longleftrightarrow>
     bs \<noteq> [] \<and> map fst bs = run_from (lv_current_height s) (length bs) \<and> unat (lv_current_height s) + length bs \<le> T + 1 \<and>
     batches_ingested E [bs] (lv_orch s) (lv_orch s') \<and>
     lv_tracker s' = \<lparr>last_committed_height = Some (fst (last bs))\<rparr> \<and>
     lv_current_height s' = (if go then lv_current_height s + of_nat (length bs) else lv_current_height s)"

lemma turn_ingests_cong: "lv_orch s1 = lv_orch s \<Longrightarrow> lv_current_height s1 = lv_current_height s \<Longrightarrow>
    turn_ingests E T go s1 s' bs \<longleftrightarrow> turn_ingests E T go s s' bs"
  by (simp only: turn_ingests_def)

lemma fetch_count_small:
  assumes "current \<le> target" "unat (target :: u32) \<le> T" "cnt = min (unat (target - current + 1)) n" "T < 2 ^ 32 - 1"
  shows "unat current + cnt \<le> T + 1"
proof -
  have "unat (target - current) = unat target - unat current" using assms(1) by (simp add: unat_sub)
  moreover have "unat (target - current + 1) \<le> unat (target - current) + 1"
  proof -
    have "unat (target - current + 1) = (unat (target - current) + 1) mod 2 ^ 32" by (simp add: unat_word_ariths)
    then show ?thesis by (simp only: mod_less_eq_dividend)
  qed
  ultimately show ?thesis using assms word_le_nat_alt [of current target] by linarith
qed

lemma commit_batch_Inr:
  assumes "commit_batch E current blocks s = (Inr go, s')"
  shows "batches_ingested E [blocks] (lv_orch s) (lv_orch s')"
    "lv_tracker s' = \<lparr>last_committed_height = Some (fst (last blocks))\<rparr>"
    "lv_current_height s' = (if go then fst (last blocks) + 1 else lv_current_height s)"
proof -
  obtain stats s1 where ing: "on_orch [''Failed to ingest batch '' @ u32_to_dec current @ ''-'' @ u32_to_dec (fst (last blocks))]
      (ingest_blocks_batch E blocks) s = (Inr stats, s1)"
    and tail: "and_then is_cancelled (\<lambda>stop s'.
        if stop then (Inr False, s')
        else (Inr True, s'\<lparr>lv_blocks_processed := lv_blocks_processed s' + of_nat (length blocks),
                           lv_current_height := fst (last blocks) + 1\<rparr>))
        (s1\<lparr>lv_tracker := record_batch_commit (fst (last blocks)) (lv_tracker s1)\<rparr>) = (Inr go, s')"
    using assms unfolding commit_batch_def Let_def by (rule and_then_InrE)
  obtain st where st: "ingest_blocks_batch E blocks (lv_orch s) = (Inr stats, st)" "s1 = s\<lparr>lv_orch := st\<rparr>"
    using ing by (rule on_orch_Inr)
  obtain b s2 where poll: "is_cancelled (s1\<lparr>lv_tracker := record_batch_commit (fst (last blocks)) (lv_tracker s1)\<rparr>) = (Inr b, s2)"
    and fin: "go = (\<not> b)" "s' = (if b then s2 else s2\<lparr>lv_blocks_processed := lv_blocks_processed s2 + of_nat (length blocks),
                           lv_current_height := fst (last blocks) + 1\<rparr>)"
    using tail by (rule and_then_InrE) (auto split: if_splits)
  note same = is_cancelled_Inr [OF poll]
  show "batches_ingested E [blocks] (lv_orch s) (lv_orch s')"
    using st same fin(2) by (auto split: if_splits)
  show "lv_tracker s' = \<lparr>last_committed_height = Some (fst (last blocks))\<rparr>"
    using same fin(2) by (auto simp: record_batch_commit_def split: if_splits)
  show "lv_current_height s' = (if go then fst (last blocks) + 1 else lv_current_height s)"
    using same fin st(2) by (auto split: if_splits)
qed

lemma ingest_fetched_Inr:
  assumes "ingest_fetched E current blocks s = (Inr go, s')"
  shows "(\<not> go \<and> lv_orch s' = lv_orch s \<and> lv_tracker s' = lv_tracker s \<and> lv_current_height s' = lv_current_height s) \<or>
    (blocks \<noteq> [] \<and> (\<exists>s1. lv_orch s1 = lv_orch s \<and> lv_current_height s1 = lv_current_height s \<and>
       commit_batch E current blocks s1 = (Inr go, s')))"
proof (cases "blocks = []")
  case True
  then show ?thesis using assms by (simp add: ingest_fetched_def)
next
  case False
  obtain b s1 where poll: "is_cancelled s = (Inr b, s1)"
    and tail: "(if b then ret False else commit_batch E current blocks) s1 = (Inr go, s')"
    using assms False unfolding ingest_fetched_def by (simp, elim and_then_InrE) blast
  note same = is_cancelled_Inr [OF poll]
  show ?thesis
  proof (cases b)
    case True
    then show ?thesis using tail same by auto
  next
    case no: False
    then show ?thesis using tail same False by auto
  qed
qed

lemma fetch_and_ingest_Inr:
  assumes "node_ok H T" "unat t \<le> T" "fetch_and_ingest E H mx t s = (Inr go, s')"
  shows "(\<not> go \<and> lv_orch s' = lv_orch s \<and> lv_tracker s' = lv_tracker s \<and> lv_current_height s' = lv_current_height s) \<or>
    (\<exists>bs. turn_ingests E T go s s' bs)"
proof -
  define cur where "cur = lv_current_height s"
  define target where "target = min t mx"
  have target: "unat target \<le> T" "T < 2 ^ 32 - 1"
    using assms(1,2) unfolding target_def node_ok_def by (auto simp: min_def word_le_nat_alt)
  show ?thesis
  proof (cases "cur > target")
    case True
    then show ?thesis using assms(3) by (simp add: fetch_and_ingest_def cur_def target_def)
  next
    case le: False
    define cnt where "cnt = min (unat (target - cur + 1)) (rp_batch_size (lv_rpc s))"
    have small: "unat cur + cnt \<le> T + 1" using fetch_count_small [OF _ target(1) cnt_def target(2)] le by simp
    have "and_then (on_rpc [''Failed to fetch RPC batch at height '' @ u32_to_dec cur] (get_block_batch H cur cnt))
        (ingest_fetched E cur) s = (Inr go, s')"
      using assms(3) le by (simp add: fetch_and_ingest_def cur_def target_def cnt_def Let_def)
    then obtain blocks s1 where fetch: "on_rpc [''Failed to fetch RPC batch at height '' @ u32_to_dec cur]
        (get_block_batch H cur cnt) s = (Inr blocks, s1)"
      and tail: "ingest_fetched E cur blocks s1 = (Inr go, s')" by (rule and_then_InrE)
    obtain p where p: "get_block_batch H cur cnt (lv_rpc s) = (Inr blocks, p)" "s1 = s\<lparr>lv_rpc := p\<rparr>"
      using fetch by (rule on_rpc_Inr)
    have "map fst blocks = run_from cur cnt"
      unfolding run_from_def
      by (rule get_block_batch_heights [OF _ p(1)]) (use assms(1) small target(2) in \<open>auto simp: node_ok_def\<close>)
    moreover from this have len: "length blocks = cnt" by (metis length_map length_upt minus_nat.diff_0 run_from_def)
    ultimately have heights: "map fst blocks = run_from cur (length blocks)" by simp
    consider "\<not> go" "lv_orch s' = lv_orch s1" "lv_tracker s' = lv_tracker s1" "lv_current_height s' = lv_current_height s1"
      | s2 where "blocks \<noteq> []" "lv_orch s2 = lv_orch s1" "lv_current_height s2 = lv_current_height s1"
          "commit_batch E cur blocks s2 = (Inr go, s')"
      using ingest_fetched_Inr [OF tail] by blast
    then show ?thesis
    proof cases
      case 1
      then show ?thesis by (simp add: p(2))
    next
      case 2
      note com = commit_batch_Inr [OF 2(4)]
      have "fst (last blocks) = last (map fst blocks)" using 2(1) by (simp add: last_map)
      also have "\<dots> = cur + of_nat (length blocks - 1)" using heights 2(1) by (simp add: last_run_from)
      finally have "fst (last blocks) + 1 = cur + of_nat (length blocks)"
        using 2(1) by (cases blocks) (simp_all add: algebra_simps)
      then have "turn_ingests E T go s s' blocks"
        using com 2 heights small len by (simp add: turn_ingests_def p(2) cur_def)
      then show ?thesis by blast
    qed
  qed
qed

lemma catchup_turn_Inr:
  assumes "node_ok H T" "catchup_turn E H mx s = (Inr go, s')"
  shows "(\<not> go \<and> lv_orch s' = lv_orch s \<and> lv_tracker s' = lv_tracker s \<and> lv_current_height s' = lv_current_height s) \<or>
    (\<exists>bs. turn_ingests E T go s s' bs)"
proof -
  obtain b s0 where poll: "is_cancelled s = (Inr b, s0)"
    and tail: "(if b then ret False
      else and_then (on_rpc [''Failed to get chain tip during catchup''] (get_tip_height H)) (fetch_and_ingest E H mx)) s0 = (Inr go, s')"
    using assms(2) unfolding catchup_turn_def by (rule and_then_InrE)
  note same0 = is_cancelled_Inr [OF poll]
  show ?thesis
  proof (cases b)
    case True
    then show ?thesis using tail same0 by simp
  next
    case False
    have run: "and_then (on_rpc [''Failed to get chain tip during catchup''] (get_tip_height H)) (fetch_and_ingest E H mx) s0 = (Inr go, s')"
      using tail False by simp
    obtain t s1 where tip: "on_rpc [''Failed to get chain tip during catchup''] (get_tip_height H) s0 = (Inr t, s1)"
      and rest: "fetch_and_ingest E H mx t s1 = (Inr go, s')" using run by (rule and_then_InrE)
    obtain p where p: "get_tip_height H (lv_rpc s0) = (Inr t, p)" "s1 = s0\<lparr>lv_rpc := p\<rparr>" using tip by (rule on_rpc_Inr)
    have "unat t \<le> T" using assms(1) p(1) unfolding node_ok_def by blast
    note fi = fetch_and_ingest_Inr [OF assms(1) this rest]
    have same: "lv_orch s1 = lv_orch s" "lv_tracker s1 = lv_tracker s" "lv_current_height s1 = lv_current_height s"
      using same0 p(2) by simp_all
    from fi show ?thesis unfolding same turn_ingests_cong [OF same(1,3)] .
  qed
qed

lemma turn_advances:
  assumes "turn_ingests E T True s s' bs" "T < 2 ^ 32 - 1"
  shows "unat (lv_current_height s') = unat (lv_current_height s) + length bs" "0 < length bs"
proof -
  have le: "unat (lv_current_height s) + length bs < 2 ^ 32" using assms by (simp add: turn_ingests_def)
  then have "unat (of_nat (length bs) :: u32) = length bs" by (simp add: unat_of_nat take_bit_eq_mod)
  then show "unat (lv_current_height s') = unat (lv_current_height s) + length bs"
    using assms(1) le by (simp add: turn_ingests_def unat_add_lem [THEN iffD1])
  show "0 < length bs" using assms(1) by (simp add: turn_ingests_def)
qed

lemma catchup_returns:
  assumes "node_ok H T"
  shows "0 < n \<Longrightarrow> T + 2 \<le> unat (lv_current_height s) + n \<Longrightarrow> catchup E H mx n s \<noteq> None"
proof (induction n arbitrary: s)
  case (Suc n)
  obtain r s1 where turn: "catchup_turn E H mx s = (r, s1)" by (metis prod.collapse)
  show ?case
  proof (cases r)
    case (Inl e)
    then show ?thesis using turn by simp
  next
    case (Inr go)
    show ?thesis
    proof (cases go)
      case False
      then show ?thesis using turn Inr by simp
    next
      case True
      then obtain bs where bs: "turn_ingests E T True s s1 bs"
        using catchup_turn_Inr [OF assms, of E mx s go s1] turn Inr by auto
      have T: "T < 2 ^ 32 - 1" using assms by (simp add: node_ok_def)
      note adv = turn_advances [OF bs T]
      have "unat (lv_current_height s1) \<le> T + 1" using bs adv(1) by (simp add: turn_ingests_def)
      then have "0 < n" "T + 2 \<le> unat (lv_current_height s1) + n" using Suc.prems adv by linarith+
      then show ?thesis using Suc.IH [of s1] turn Inr True by simp
    qed
  qed
qed simp

text \<open>The heights that a list of batches covers, and the height recorded for the last one.\<close>

definition consecutive_from :: "u32 \<Rightarrow> chunk list \<Rightarrow> bool" where
  "consecutive_from h bss \<longleftrightarrow> map fst (concat bss) = run_from h (length (concat bss)) \<and> [] \<notin> set bss"

lemma catchup_contents:
  assumes "node_ok H T"
  shows "catchup E H mx n s = Some (Inr (), s') \<Longrightarrow>
    \<exists>bss. consecutive_from (lv_current_height s) bss \<and> batches_ingested E bss (lv_orch s) (lv_orch s') \<and>
      lv_tracker s' = (if bss = [] then lv_tracker s else \<lparr>last_committed_height = Some (fst (last (concat bss)))\<rparr>)"
proof (induction n arbitrary: s)
  case (Suc n)
  obtain go s1 where turn: "catchup_turn E H mx s = (Inr go, s1)"
    using Suc.prems by (auto split: prod.splits sum.splits)
  have none: ?case if "lv_orch s' = lv_orch s" "lv_tracker s' = lv_tracker s"
    using that by (intro exI [of _ "[]"]) (simp add: consecutive_from_def run_from_def)
  have one: ?case if "turn_ingests E T go' s s' bs" for go' bs
    using that by (intro exI [of _ "[bs]"]) (auto simp: consecutive_from_def turn_ingests_def)
  show ?case
  proof (cases go)
    case False
    then have "s' = s1" using Suc.prems turn by simp
    then show ?thesis using catchup_turn_Inr [OF assms turn] none one by blast
  next
    case True
    then obtain bs where bs: "turn_ingests E T True s s1 bs" using catchup_turn_Inr [OF assms turn] by auto
    have "catchup E H mx n s1 = Some (Inr (), s')" using Suc.prems turn True by simp
    then obtain bss where ih: "consecutive_from (lv_current_height s1) bss" "batches_ingested E bss (lv_orch s1) (lv_orch s')"
      "lv_tracker s' = (if bss = [] then lv_tracker s1 else \<lparr>last_committed_height = Some (fst (last (concat bss)))\<rparr>)"
      using Suc.IH by blast
    have cur: "lv_current_height s1 = lv_current_height s + of_nat (length bs)"
      and mine: "map fst bs = run_from (lv_current_height s) (length bs)" "bs \<noteq> []"
      "batches_ingested E [bs] (lv_orch s) (lv_orch s1)" "lv_tracker s1 = \<lparr>last_committed_height = Some (fst (last bs))\<rparr>"
      using bs by (simp_all add: turn_ingests_def)
    have "consecutive_from (lv_current_height s) (bs # bss)"
      using ih(1) mine(1,2) by (simp add: consecutive_from_def cur run_from_append)
    moreover have "batches_ingested E (bs # bss) (lv_orch s) (lv_orch s')" using mine(3) ih(2) by auto
    moreover have "lv_tracker s' = \<lparr>last_committed_height = Some (fst (last (concat (bs # bss))))\<rparr>"
    proof (cases "bss = []")
      case True
      then show ?thesis using ih(3) mine(4) by simp
    next
      case False
      then have "concat bss \<noteq> []" using ih(1) by (cases bss) (auto simp: consecutive_from_def)
      then show ?thesis using ih(3) False by simp
    qed
    ultimately show ?thesis by (intro exI [of _ "bs # bss"]) simp
  qed
qed simp

text \<open>
  C9. Catching up ends, whatever the node answers as long as its tip stays at or below \<open>T\<close>, and
  when it ends well it has ingested non-empty batches of consecutive heights from the resume
  height on, none skipped and none twice, and the height kept for the cache snapshot is the last
  one ingested (or unchanged if there was none). \<open>T + 2\<close> turns are enough.
\<close>
theorem catchup_ends_consecutively:
  assumes "node_ok H T"
  shows "\<exists>r s'. catchup E H max_height (T + 2) s = Some (r, s') \<and>
    (r = Inr () \<longrightarrow> (\<exists>bss. consecutive_from (lv_current_height s) bss \<and>
       batches_ingested E bss (lv_orch s) (lv_orch s') \<and>
       save_height (lv_tracker s') =
         (if bss = [] then save_height (lv_tracker s) else Some (fst (last (concat bss))))))"
proof -
  obtain r s' where run: "catchup E H max_height (T + 2) s = Some (r, s')"
    using catchup_returns [OF assms, of "T + 2" s E max_height] by auto
  have "r = Inr () \<longrightarrow> (\<exists>bss. consecutive_from (lv_current_height s) bss \<and>
       batches_ingested E bss (lv_orch s) (lv_orch s') \<and>
       save_height (lv_tracker s') =
         (if bss = [] then save_height (lv_tracker s) else Some (fst (last (concat bss)))))"
  proof
    assume "r = Inr ()"
    then obtain bss where bss: "consecutive_from (lv_current_height s) bss" "batches_ingested E bss (lv_orch s) (lv_orch s')"
      "lv_tracker s' = (if bss = [] then lv_tracker s else \<lparr>last_committed_height = Some (fst (last (concat bss)))\<rparr>)"
      using catchup_contents [OF assms, of E max_height "T + 2" s s'] run by blast
    show "\<exists>bss. consecutive_from (lv_current_height s) bss \<and>
       batches_ingested E bss (lv_orch s) (lv_orch s') \<and>
       save_height (lv_tracker s') =
         (if bss = [] then save_height (lv_tracker s) else Some (fst (last (concat bss))))"
      by (rule exI [of _ bss], intro conjI bss(1,2)) (simp add: bss(3) save_height_def)
  qed
  with run show ?thesis by (intro exI conjI)
qed

section \<open>Examples\<close>

text \<open>A store whose blocks at 1 and 2 are not the node's, and a node that gives one hash for all
  heights and whose tip is the genesis block.\<close>

definition ex_split :: mock_storage where
  "ex_split = mock_new\<lparr> ms_blocks := [(ex_stored 0)\<lparr>bd_hash := ''00''\<rparr>, ex_stored 1, ex_stored 2],
     ms_transactions := [ex_tx_at 0, ex_tx_at 1, ex_tx_at 2], ms_checkpoint := Some ex_checkpoint \<rparr>"

definition ex_live :: "mock_storage \<Rightarrow> (mock_storage, (utxo_key, cached_output) ref_lru, nat, nat \<times> u8 list list list, unit) live_state" where
  "ex_live db = \<lparr> lv_orch = ex_state db, lv_rpc = \<lparr>rp_batch_size = 2, rp_env = 0, rp_slept = []\<rparr>,
     lv_zmq = zmq_new ''tcp'' (0, []), lv_tracker = \<lparr>last_committed_height = None\<rparr>, lv_current_height = 0,
     lv_blocks_processed = 0, lv_polls = None \<rparr>"

definition ex_node :: "nat http_ops" where
  "ex_node = ex_http
     \<lparr> ho_send := (\<lambda>body n. (Inr \<lparr>hr_status = 200, hr_status_text = ''200 OK'', hr_text = [],
         hr_json = Inr (JObject [(''result'', if method_of body = ''getblockcount'' then JNum 0 else JString ''00'')])\<rparr>, Suc n)),
       ho_deserialize := (\<lambda>bs. Inr (ex_b 1)) \<rparr>"

lemma ex_node_calls:
  "rpc_call ex_node ''getblockcount'' ps p = (Inr (JNum 0), p\<lparr>rp_env := Suc (rp_env p)\<rparr>)"
  "rpc_call ex_node ''getblockhash'' ps p = (Inr (JString ''00''), p\<lparr>rp_env := Suc (rp_env p)\<rparr>)"
  "rpc_call ex_node ''getblock'' ps p = (Inr (JString ''00''), p\<lparr>rp_env := Suc (rp_env p)\<rparr>)"
  by (simp_all add: rpc_call_def rpc_body_def method_of_def numeral_3_eq_3 execute_rpc_def ex_node_def rpc_result_def is_success_def
      json_index_def)

lemma ex_node_ops: "ho_hex_decode ex_node x = Inr [0]" "ho_deserialize ex_node bs = Inr (ex_b 1)" "ho_completion ex_node rs = rev rs"
  by (simp_all add: ex_node_def ex_http_def)

lemma ex_node_hash: "get_block_hash ex_node h p = (Inr ''00'', p\<lparr>rp_env := Suc (rp_env p)\<rparr>)"
  by (simp add: get_block_hash_def with_context_def ex_node_calls of_option_def)

lemma ex_node_tip: "get_tip_height ex_node p = (Inr 0, p\<lparr>rp_env := Suc (rp_env p)\<rparr>)"
  by (simp add: get_tip_height_def with_context_def ex_node_calls of_option_def)

lemma ex_node_block: "get_block ex_node h p = (Inr (Some (h, ex_b 1, ''rpc'')), p\<lparr>rp_env := Suc (Suc (rp_env p))\<rparr>)"
  by (simp add: get_block_def ex_node_hash get_block_hex_def with_context_def ex_node_calls of_option_def of_result_def ex_node_ops)

lemma ex_node_facts: "canonical ex_node (\<lambda>_. ''00'')" "node_ok ex_node 0"
  by (simp_all add: canonical_def node_ok_def ex_node_hash ex_node_tip ex_node_ops)

lemma ex_split_view: "mock_view ex_split =
    [0 \<mapsto> \<lparr>sb_hash = ''00'', sb_expected = 1, sb_actual = 1\<rparr>,
     1 \<mapsto> \<lparr>sb_hash = ''1'', sb_expected = 1, sb_actual = 1\<rparr>,
     2 \<mapsto> \<lparr>sb_hash = ''2'', sb_expected = 1, sb_actual = 1\<rparr>]"
proof -
  have "u32_to_dec 1 = ''1''" "u32_to_dec 2 = ''2''" by code_simp+
  then show ?thesis
    by (intro ext) (simp add: mock_view_def ex_split_def ex_stored_def ex_tx_at_def mock_new_def usize_as_u32_def)
qed

lemma ex_split_fork: "\<exists>s'. find_fork_point ex_orch ex_node 2 (ex_live ex_split) = (Inr 0, s')"
proof -
  have "heights_down 0 2 = [2, 1, 0]" by (simp add: heights_down_def upt_conv_Cons)
  moreover have "u32_to_dec 1 = ''1''" "u32_to_dec 2 = ''2''" by code_simp+
  ultimately show ?thesis
    by (simp add: find_fork_point_def on_orch_def on_rpc_def lookup_block_hash_def in_db_def ex_orch_sel ex_live_def ex_state_sel
        mock_lookup_block_hash_def ex_split_def ex_stored_def mock_new_def ex_node_hash)
qed

lemma fork_point_exact_witness:
  "\<exists>s'. find_fork_point ex_orch ex_node 2 (ex_live ex_split) = (Inr 0, s') \<and>
     is_fork_point (mock_view ex_split) (\<lambda>_. ''00'') 2 0 \<and> mock_view (os_db (lv_orch s')) = mock_view ex_split"
proof -
  obtain s' where run: "find_fork_point ex_orch ex_node 2 (ex_live ex_split) = (Inr 0, s')" using ex_split_fork by blast
  show ?thesis
    using fork_point_exact [OF ex_crashed_facts(1) ex_node_facts(1) run] run by (simp add: ex_live_def ex_state_sel)
qed

lemma reorg_undone_to_fork_witness:
  "\<exists>s' f. handle_reorg ex_orch ex_node 3 (ex_live ex_split) = (Inr (), s') \<and> is_fork_point (mock_view ex_split) (\<lambda>_. ''00'') 2 f \<and>
     mock_view (os_db (lv_orch s')) = mock_view ex_split |` (- {f <.. 2}) \<and> lv_current_height s' = f + 1"
proof -
  have down: "heights_down 0 2 = [2, 1, 0]" "heights_down 1 2 = [2, 1]" by (simp_all add: heights_down_def upt_conv_Cons)
  have dec: "u32_to_dec 1 = ''1''" "u32_to_dec 2 = ''2''" by code_simp+
  obtain s' where run: "handle_reorg ex_orch ex_node 3 (ex_live ex_split) = (Inr (), s')"
    by (simp add: handle_reorg_def saturating_sub_def find_fork_point_def down dec on_orch_def on_rpc_def lookup_block_hash_def in_db_def
        ex_orch_def ex_live_def ex_state_def mock_lookup_block_hash_def ex_split_def ex_stored_def mock_new_def ex_node_hash
        rollback_to_height_def rollback_block_def mock_rollback_block_def ex_tx_at_def Let_def
        mock_update_checkpoint_def unless_failing_def check_failure_def check_failure_after_def)
  have "saturating_sub 3 1 = (2 :: u32)" by (simp add: saturating_sub_def)
  then show ?thesis
    using reorg_undone_to_fork [OF ex_crashed_facts(1) ex_node_facts(1) run] run by (auto simp: ex_live_def ex_state_sel)
qed

lemma catchup_ends_consecutively_witness:
  "\<exists>s' bss. catchup ex_orch ex_node (- 1) 2 (ex_live mock_new) = Some (Inr (), s') \<and> consecutive_from 0 bss \<and>
     batches_ingested ex_orch bss (ex_state mock_new) (lv_orch s')"
proof -
  let ?s = "ex_live mock_new"
  have "linked ex_orch 0 [(0, ex_b 1, ''rpc'')]" by (simp add: linked_def)
  then obtain stats st where ing: "ingest_blocks_batch ex_orch [(0, ex_b 1, ''rpc'')] (ex_state mock_new) = (Inr stats, st)"
    using linked_batch_runs [OF ex_orch_sel(1), of "ex_state mock_new" 0 "[(0, ex_b 1, ''rpc'')]"]
    by (auto simp: ex_state_sel mock_new_facts ex_orch_sel ref_lru_is_lru ex_cache_ok parent_ok_def)
  have batch: "get_block_batch ex_node 0 (Suc 0) p = (Inr [(0, ex_b 1, ''rpc'')], p\<lparr>rp_env := Suc (Suc (rp_env p))\<rparr>)" for p
    by (simp add: get_block_batch_def usize_as_u32_def ex_node_block ex_node_ops)
  obtain s' where run: "catchup ex_orch ex_node (- 1) 2 ?s = Some (Inr (), s')"
    by (simp add: numeral_2_eq_2 and_then_def catchup_turn_def is_cancelled_def ex_live_def on_rpc_def ex_node_tip fetch_and_ingest_def Let_def batch
        ingest_fetched_def commit_batch_def on_orch_def ing)
  have eq: "catchup ex_orch ex_node (- 1) (0 + 2) ?s = Some (Inr (), s')" using run by (simp only: add_0)
  show ?thesis
    using catchup_ends_consecutively [OF ex_node_facts(2), of ex_orch "- 1" ?s] run unfolding eq
    by (auto simp: ex_live_def)
qed

end
