(* ===== verification/StreamLaws.thy ===== *)
theory StreamLaws
  imports LiveLaws Streaming
begin

text \<open>
  Which blocks a streaming ingestion ingests: all of them when the range ends inside the chain,
  and only full batches when it runs past the end of the chain.
\<close>

lemma run_from_Suc: "run_from h (Suc n) = h # run_from (h + 1) n"
  using run_from_append [of h 1 n] by (simp add: run_from_def)

lemma run_from_snoc: "run_from h (Suc n) = run_from h n @ [h + of_nat n]"
  by (simp add: run_from_def)

text \<open>The heights whose blocks can be loaded, in a loader that satisfies \<open>P\<close>.\<close>

definition serves :: "loader_env \<Rightarrow> (single_block_loader \<Rightarrow> bool) \<Rightarrow> u32 set \<Rightarrow> u32 \<Rightarrow> bool" where
  "serves LE P avail h \<longleftrightarrow> (\<forall>ld. P ld \<longrightarrow> (\<exists>ld'. P ld' \<and>
     (h \<in> avail \<longrightarrow> (\<exists>b f. load_block LE h ld = (Inr (Some (h, b, f)), ld'))) \<and>
     (h \<notin> avail \<longrightarrow> load_block LE h ld = (Inr None, ld'))))"

text \<open>How many blocks are ingested when \<open>k\<close> of \<open>n\<close> heights are there and \<open>l\<close> blocks are waiting.\<close>

definition ingested_count :: "nat \<Rightarrow> nat \<Rightarrow> nat \<Rightarrow> nat" where
  "ingested_count l k n = (if k = n then l + n else (l + k) div READ_AHEAD_BLOCKS * READ_AHEAD_BLOCKS)"

lemma ingested_count_flush:
  assumes "Suc l = READ_AHEAD_BLOCKS \<or> n = 0" "k \<le> n"
  shows "ingested_count l (Suc k) (Suc n) = Suc l + ingested_count 0 k n"
proof (cases "k = n")
  case False
  then have l: "Suc l = READ_AHEAD_BLOCKS" using assms by auto
  have "l + Suc k = k + READ_AHEAD_BLOCKS" using l by simp
  then have "(l + Suc k) div READ_AHEAD_BLOCKS = (k + READ_AHEAD_BLOCKS) div READ_AHEAD_BLOCKS" by (simp only:)
  also have "\<dots> = k div READ_AHEAD_BLOCKS + 1" by (rule div_add_self2) (simp add: READ_AHEAD_BLOCKS_def)
  finally show ?thesis using False l by (simp add: ingested_count_def)
qed (simp add: ingested_count_def)

lemma stream_loop_spec:
  assumes serve: "\<And>h. unat h \<le> bound \<Longrightarrow> serves LE P avail h"
  shows "stream_loop E LE mx n height batch processed (st, ld) = (Inr p, (st', ld')) \<Longrightarrow> P ld \<Longrightarrow>
    length batch < READ_AHEAD_BLOCKS \<Longrightarrow> (n = 0 \<Longrightarrow> batch = []) \<Longrightarrow>
    unat height + n = Suc (unat mx) \<or> n = 0 \<Longrightarrow> map fst batch = run_from h0 (length batch) \<Longrightarrow>
    height = h0 + of_nat (length batch) \<Longrightarrow>
    k \<le> n \<Longrightarrow> (\<And>i. i < k \<Longrightarrow> height + of_nat i \<in> avail) \<Longrightarrow> k = n \<or> height + of_nat k \<notin> avail \<Longrightarrow>
    unat height + k \<le> bound \<or> n = 0 \<Longrightarrow>
    \<exists>bss. batches_ingested E bss st st' \<and> map fst (concat bss) = run_from h0 (ingested_count (length batch) k n) \<and>
      p = processed + ingested_count (length batch) k n"
proof (induction n arbitrary: height batch processed st ld h0 k)
  case 0
  then show ?case by (intro exI [of _ "[]"]) (simp add: ingested_count_def run_from_def)
next
  case (Suc n)
  have small: "unat height \<le> unat mx" using Suc.prems(5) by simp
  have served: "unat height \<le> bound" using Suc.prems(11) by simp
  obtain ld1 where ld1: "P ld1" "height \<in> avail \<longrightarrow> (\<exists>b f. load_block LE height ld = (Inr (Some (height, b, f)), ld1))"
    "height \<notin> avail \<longrightarrow> load_block LE height ld = (Inr None, ld1)"
    using serve [OF served] Suc.prems(2) unfolding serves_def by blast
  show ?case
  proof (cases k)
    case 0
    then have "height \<notin> avail" using Suc.prems(10) by simp
    then have "p = processed" "st' = st" using Suc.prems(1) ld1(3) by auto
    moreover have "ingested_count (length batch) 0 (Suc n) = 0" using Suc.prems(3) by (simp add: ingested_count_def)
    ultimately show ?thesis using 0 by (intro exI [of _ "[]"]) (simp add: run_from_def)
  next
    case (Suc k')
    then have "height \<in> avail" using Suc.prems(9) [of 0] by simp
    then obtain b f where load: "load_block LE height ld = (Inr (Some (height, b, f)), ld1)" using ld1(2) by blast
    define batch' where "batch' = batch @ [(height, b, f)]"
    have len: "length batch' = Suc (length batch)" by (simp add: batch'_def)
    have heights: "map fst batch' = run_from h0 (length batch')"
      using Suc.prems(6,7) by (simp add: batch'_def run_from_snoc)
    have next_h: "height + 1 = h0 + of_nat (length batch')" using Suc.prems(7) by (simp add: batch'_def algebra_simps)
    have at_end: "height = mx \<longleftrightarrow> n = 0"
      using Suc.prems(5) by (auto simp: word_unat_eq_iff)
    have room: "unat (height + 1) + n = Suc (unat mx) \<or> n = 0"
    proof (cases "n = 0")
      case False
      then have "height < mx" using at_end small by (simp add: word_less_nat_alt word_unat_eq_iff le_less)
      then have "unat (height + 1) = unat height + 1" by (rule unat_Suc_less)
      then show ?thesis using Suc.prems(5) by simp
    qed simp
    have k': "k' \<le> n" "\<And>i. i < k' \<Longrightarrow> height + 1 + of_nat i \<in> avail" "k' = n \<or> height + 1 + of_nat k' \<notin> avail"
      using Suc.prems(8-10) Suc.prems(9) [of "Suc i" for i] unfolding \<open>k = Suc k'\<close> by (auto simp: add.assoc)
    have bound: "unat (height + 1) + k' \<le> bound \<or> n = 0"
    proof (cases "n = 0")
      case False
      then have "height < mx" using at_end small by (simp add: word_less_nat_alt word_unat_eq_iff le_less)
      then have "unat (height + 1) = unat height + 1" by (rule unat_Suc_less)
      then show ?thesis using Suc.prems(11) \<open>k = Suc k'\<close> by simp
    qed simp
    show ?thesis
    proof (cases "length batch' \<ge> READ_AHEAD_BLOCKS \<or> height = mx")
      case flush: True
      then have full: "Suc (length batch) = READ_AHEAD_BLOCKS \<or> n = 0" using len Suc.prems(3) at_end by auto
      obtain u st1 ld2 where ing: "ingest_batch E batch' (st, ld1) = (Inr u, (st1, ld2))"
        and rest: "stream_loop E LE mx n (height + 1) [] (processed + length batch') (st1, ld2) = (Inr p, (st', ld'))"
        using Suc.prems(1) load flush by (auto simp: Let_def simp flip: batch'_def elim!: and_then_InrE)
      obtain stats where stats: "ingest_blocks_batch E batch' st = (Inr stats, st1)" "ld2 = ld1"
        using ing by (auto simp: ingest_batch_def split: prod.splits sum.splits)
      have "P ld2" using stats(2) ld1(1) by simp
      have pos: "0 < READ_AHEAD_BLOCKS" by (simp add: READ_AHEAD_BLOCKS_def)
      obtain bss where bss: "batches_ingested E bss st1 st'"
        "map fst (concat bss) = run_from (height + 1) (ingested_count 0 k' n)"
        "p = processed + length batch' + ingested_count 0 k' n"
        using Suc.IH [OF rest \<open>P ld2\<close> _ _ room _ _ k' bound, of "height + 1"] pos by (auto simp: run_from_def)
      have count: "ingested_count (length batch) k (Suc n) = length batch' + ingested_count 0 k' n"
        using ingested_count_flush [OF full k'(1)] by (simp add: \<open>k = Suc k'\<close> len)
      show ?thesis
      proof (intro exI [of _ "batch' # bss"] conjI)
        show "batches_ingested E (batch' # bss) st st'" using stats(1) bss(1) by auto
        show "map fst (concat (batch' # bss)) = run_from h0 (ingested_count (length batch) k (Suc n))"
          using bss(2) heights next_h by (simp add: count run_from_append)
        show "p = processed + ingested_count (length batch) k (Suc n)" using bss(3) count by simp
      qed
    next
      case more: False
      have rest: "stream_loop E LE mx n (height + 1) batch' processed (st, ld1) = (Inr p, (st', ld'))"
        using Suc.prems(1) load more by (simp add: Let_def flip: batch'_def)
      have "ingested_count (length batch') k' n = ingested_count (length batch) k (Suc n)"
        by (simp add: ingested_count_def len \<open>k = Suc k'\<close>)
      moreover have "n = 0 \<Longrightarrow> batch' = []" using more at_end by simp
      ultimately show ?thesis
        using Suc.IH [OF rest ld1(1) _ _ room heights next_h k' bound] more by auto
    qed
  qed
qed

section \<open>On the main chain\<close>

text \<open>The blocks of the chain are in their files.\<close>

definition chain_stored :: "loader_env \<Rightarrow> string \<Rightarrow> network \<Rightarrow> block_index_entry list \<Rightarrow> bool" where
  "chain_stored LE dir network chain \<longleftrightarrow> (\<forall>e\<in>set chain. \<exists>b. stored_at LE dir network e b)"

lemma chain_serves:
  assumes "get_main_chain (le_index LE) = Inr chain" "chain_stored LE dir network chain" "length (le_magic LE network) = 4"
    "unat h + 500 \<le> 2 ^ 32"
  shows "serves LE (\<lambda>ld. loader_ok chain ld \<and> sl_blocks_dir ld = dir \<and> sl_network ld = network) (bie_height ` set chain) h"
  unfolding serves_def
proof (intro allI impI)
  fix ld assume ld: "loader_ok chain ld \<and> sl_blocks_dir ld = dir \<and> sl_network ld = network"
  then have magic: "length (le_magic LE (sl_network ld)) = 4" using assms(3) by simp
  obtain ld' where ld': "loader_ok chain ld'" "sl_blocks_dir ld' = sl_blocks_dir ld" "sl_network ld' = sl_network ld"
    "h \<notin> bie_height ` set chain \<longrightarrow> load_block LE h ld = (Inr None, ld')"
    "\<And>e b. e \<in> set chain \<Longrightarrow> bie_height e = h \<Longrightarrow> stored_at LE (sl_blocks_dir ld) (sl_network ld) e b \<Longrightarrow>
        load_block LE h ld = (Inr (Some (h, b, block_file_name (bie_file_number e))), ld')"
    using load_block_chain [OF assms(1) conjunct1 [OF ld] assms(4) magic] by blast
  have "\<exists>b f. load_block LE h ld = (Inr (Some (h, b, f)), ld')" if m: "h \<in> bie_height ` set chain"
  proof -
    obtain e where e: "e \<in> set chain" "bie_height e = h" using m by auto
    then obtain b where "stored_at LE (sl_blocks_dir ld) (sl_network ld) e b"
      using assms(2) ld by (auto simp: chain_stored_def)
    with ld'(5) e show ?thesis by blast
  qed
  with ld' ld show "\<exists>ld'. (loader_ok chain ld' \<and> sl_blocks_dir ld' = dir \<and> sl_network ld' = network) \<and>
      (h \<in> bie_height ` set chain \<longrightarrow> (\<exists>b f. load_block LE h ld = (Inr (Some (h, b, f)), ld'))) \<and>
      (h \<notin> bie_height ` set chain \<longrightarrow> load_block LE h ld = (Inr None, ld'))" by auto
qed

lemma chain_heights:
  assumes "contiguous chain" "chain \<noteq> []"
  shows "h \<in> bie_height ` set chain \<longleftrightarrow> bie_height (hd chain) \<le> h \<and> h \<le> bie_height (last chain)"
proof -
  note at = contiguous_height_at [OF assms(1)]
  have top: "unat (bie_height (last chain)) = unat (bie_height (hd chain)) + (length chain - 1)"
    using at [of "length chain - 1"] assms(2) by (simp add: last_conv_nth)
  show ?thesis
  proof
    assume "h \<in> bie_height ` set chain"
    then obtain i where "i < length chain" "h = bie_height (chain ! i)" by (auto simp: in_set_conv_nth)
    then show "bie_height (hd chain) \<le> h \<and> h \<le> bie_height (last chain)"
      using at [of i] top by (simp add: word_le_nat_alt)
  next
    assume h: "bie_height (hd chain) \<le> h \<and> h \<le> bie_height (last chain)"
    define i where "i = unat h - unat (bie_height (hd chain))"
    have "unat (bie_height (hd chain)) \<le> unat h" "unat h \<le> unat (bie_height (hd chain)) + (length chain - 1)"
      using h top by (simp_all add: word_le_nat_alt)
    then have i: "i < length chain" "unat h = unat (bie_height (hd chain)) + i"
      using assms(2) unfolding i_def by (cases chain; auto)+
    then have "h = bie_height (chain ! i)" using at [of i] by (simp add: word_unat_eq_iff)
    with i(1) show "h \<in> bie_height ` set chain" by auto
  qed
qed

text \<open>
  C8. A streaming ingestion that reports success has ingested consecutive blocks from the start
  height on, each exactly once: all of them when the range ends inside the chain, but only the
  full batches of 5000 when the range runs past the chain's tip, as it does by default. The
  blocks behind the last full batch were read and are dropped.
\<close>
theorem streaming_drops_partial_batch:
  assumes "get_main_chain (le_index LE) = Inr chain" and "chain \<noteq> []" and "loader_ok chain ld"
    and "chain_stored LE (sl_blocks_dir ld) (sl_network ld) chain" and "length (le_magic LE (sl_network ld)) = 4"
    and "unat (bie_height (last chain)) + 501 \<le> 2 ^ 32"
    and "bie_height (hd chain) \<le> start" and "start \<le> bie_height (last chain)" and "start \<le> max_height"
    and "stream_loop E LE max_height (Suc (unat max_height) - unat start) start [] 0 (st, ld) = (Inr p, (st', ld'))"
  shows "\<exists>bss. batches_ingested E bss st st' \<and> map fst (concat bss) = run_from start p \<and>
    p = (if max_height \<le> bie_height (last chain) then Suc (unat max_height) - unat start
         else (Suc (unat (bie_height (last chain))) - unat start) div READ_AHEAD_BLOCKS * READ_AHEAD_BLOCKS)"
proof -
  let ?top = "bie_height (last chain)" and ?avail = "bie_height ` set chain"
  let ?P = "\<lambda>l. loader_ok chain l \<and> sl_blocks_dir l = sl_blocks_dir ld \<and> sl_network l = sl_network ld"
  define n where "n = Suc (unat max_height) - unat start"
  define k where "k = min n (Suc (unat ?top) - unat start)"
  have le: "unat start \<le> unat ?top" "unat start \<le> unat max_height" using assms(8,9) by (simp_all add: word_le_nat_alt)
  have un: "unat (start + of_nat i) = unat start + i" if "unat start + i \<le> Suc (unat ?top)" for i
  proof -
    have "unat start + i < 2 ^ 32" using that assms(6) by simp
    then have "unat (of_nat i :: u32) = i" by (simp add: unat_of_nat take_bit_eq_mod)
    then show ?thesis using \<open>unat start + i < 2 ^ 32\<close> by (simp add: unat_add_lem [THEN iffD1])
  qed
  have heights: "h \<in> ?avail \<longleftrightarrow> unat (bie_height (hd chain)) \<le> unat h \<and> unat h \<le> unat ?top" for h
    using chain_heights [OF chain_contiguous [OF assms(1)] assms(2)] by (simp add: word_le_nat_alt)
  have first: "unat (bie_height (hd chain)) \<le> unat start" using assms(7) by (simp add: word_le_nat_alt)
  have "unat h + 500 \<le> 2 ^ 32" if "unat h \<le> Suc (unat ?top)" for h :: u32 using that assms(6) by simp
  then have serve: "serves LE ?P ?avail h" if "unat h \<le> Suc (unat ?top)" for h
    using chain_serves [OF assms(1,4,5)] that by blast
  have there: "start + of_nat i \<in> ?avail" if "i < k" for i
  proof -
    have "i < Suc (unat ?top) - unat start" using that by (simp add: k_def)
    then have "unat start + i \<le> unat ?top" using le(1) by linarith
    then show ?thesis using un [of i] first by (simp add: heights)
  qed
  have stops: "k = n \<or> start + of_nat k \<notin> ?avail"
    using un [of k] le by (auto simp: heights k_def min_def)
  have bound: "unat start + k \<le> Suc (unat ?top) \<or> n = 0"
  proof -
    have "k \<le> Suc (unat ?top) - unat start" by (simp add: k_def)
    then show ?thesis using le by linarith
  qed
  have "\<exists>bss. batches_ingested E bss st st' \<and> map fst (concat bss) = run_from start (ingested_count (length ([] :: chunk)) k n) \<and>
      p = 0 + ingested_count (length ([] :: chunk)) k n"
  proof (rule stream_loop_spec [where P = ?P and avail = ?avail, OF serve])
    show "stream_loop E LE max_height n start [] 0 (st, ld) = (Inr p, (st', ld'))" using assms(10) by (simp add: n_def)
    show "unat start + n = Suc (unat max_height) \<or> n = 0" using le by (simp add: n_def)
    show "k \<le> n" by (simp add: k_def)
  qed (use assms(3) there stops bound in \<open>simp_all add: READ_AHEAD_BLOCKS_def run_from_def\<close>)
  moreover have "ingested_count 0 k n = (if max_height \<le> ?top then Suc (unat max_height) - unat start
         else (Suc (unat ?top) - unat start) div READ_AHEAD_BLOCKS * READ_AHEAD_BLOCKS)"
    using le by (auto simp: ingested_count_def k_def n_def word_le_nat_alt min_def)
  ultimately show ?thesis by auto
qed

section \<open>A range that runs past the tip\<close>

text \<open>Three blocks in one file, at the places the index names.\<close>

definition ex_full_env :: loader_env where
  "ex_full_env = ex_loader_env
     \<lparr> le_files := [''blocks/blk00000.dat'' \<mapsto> Inr (frame MAGIC_MAINNET [7, 7, 7] @ replicate 71 0 @
         frame MAGIC_MAINNET [7, 7, 7] @ replicate 9244 0 @ frame MAGIC_MAINNET [7, 7, 7])] \<rparr>"

lemma ex_full_stored: "chain_stored ex_full_env ''blocks'' Bitcoin ex_chain"
proof -
  let ?f = "frame MAGIC_MAINNET [7, 7, 7]"
  have len: "length ?f = 11" by (simp add: frame_def MAGIC_MAINNET_def)
  have stored: "stored_at ex_full_env ''blocks'' Bitcoin (ex_entry h n off txs) ex_genesis"
    if "?f @ replicate 71 0 @ ?f @ replicate 9244 0 @ ?f = pre @ ?f @ post" "unat off = length pre + 8" for h n off txs pre post
    unfolding stored_at_def
    by (rule exI [of _ pre], rule exI [of _ post], rule exI [of _ "[7, 7, 7]"])
      (simp add: that ex_full_env_def ex_loader_env_def ex_entry_def ex_file_name)
  have "stored_at ex_full_env ''blocks'' Bitcoin (ex_entry 0 9 8 1) ex_genesis"
    by (rule stored [of "[]" "replicate 71 0 @ ?f @ replicate 9244 0 @ ?f"]) simp_all
  moreover have "stored_at ex_full_env ''blocks'' Bitcoin (ex_entry 1 5 90 3) ex_genesis"
    by (rule stored [of "?f @ replicate 71 0" "replicate 9244 0 @ ?f"]) (simp_all add: len)
  moreover have "stored_at ex_full_env ''blocks'' Bitcoin (ex_entry 2 7 9345 4) ex_genesis"
    by (rule stored [of "?f @ replicate 71 0 @ ?f @ replicate 9244 0" "[]"]) (simp_all add: len)
  ultimately show ?thesis by (auto simp: chain_stored_def ex_chain_def)
qed

text \<open>All three blocks are read, and none is ingested.\<close>

lemma streaming_drops_partial_batch_witness:
  "\<exists>p s'. stream_loop ex_orch ex_full_env (- 1) (Suc (unat (- 1 :: u32)) - unat (0 :: u32)) 0 [] 0 (ex_state mock_new, ex_loader) = (Inr p, s') \<and>
     p = 0"
proof -
  let ?P = "\<lambda>l. loader_ok ex_chain l \<and> sl_blocks_dir l = ''blocks'' \<and> sl_network l = Bitcoin"
  have main: "get_main_chain (le_index ex_full_env) = Inr ex_chain"
    by (simp add: ex_full_env_def ex_loader_env_def ex_main_chain)
  have magic: "length (le_magic ex_full_env Bitcoin) = 4" by (simp add: ex_full_env_def ex_loader_env_def MAGIC_MAINNET_def)
  have ld: "?P ex_loader" by (simp add: loader_ok_def ex_loader_def)
  have av: "bie_height ` set ex_chain = {0, 1, 2}" by (auto simp: ex_chain_def ex_entry_def)
  have serve: "serves ex_full_env ?P {0, 1, 2} h" if "unat h < 4" for h
    using chain_serves [OF main ex_full_stored magic, of h] that by (simp add: av)
  note at = serve [unfolded serves_def, rule_format]
  obtain b0 f0 l0 where r0: "?P l0" "load_block ex_full_env 0 ex_loader = (Inr (Some (0, b0, f0)), l0)" using at [of 0, OF _ ld] by auto
  obtain b1 f1 l1 where r1: "?P l1" "load_block ex_full_env 1 l0 = (Inr (Some (1, b1, f1)), l1)" using at [of 1, OF _ r0(1)] by auto
  obtain b2 f2 l2 where r2: "?P l2" "load_block ex_full_env 2 l1 = (Inr (Some (2, b2, f2)), l2)" using at [of 2, OF _ r1(1)] by auto
  obtain l3 where r3: "load_block ex_full_env 3 l2 = (Inr None, l3)" using at [of 3, OF _ r2(1)] by auto
  have n: "Suc (unat (- 1 :: u32)) - unat (0 :: u32) = Suc (Suc (Suc (Suc 4294967292)))" by (simp add: unsigned_minus_1_eq_mask mask_eq_exp_minus_1)
  have steps: "stream_loop ex_orch ex_full_env (- 1) (Suc (Suc (Suc (Suc m)))) 0 [] 0 (ex_state mock_new, ex_loader) =
      (Inr 0, (ex_state mock_new, l3))" for m
    by (simp add: r0(2) r1(2) r2(2) r3 READ_AHEAD_BLOCKS_def)
  have run: "stream_loop ex_orch ex_full_env (- 1) (Suc (unat (- 1 :: u32)) - unat (0 :: u32)) 0 [] 0 (ex_state mock_new, ex_loader) =
      (Inr 0, (ex_state mock_new, l3))"
    unfolding n by (rule steps)
  have "loader_ok ex_chain ex_loader" "sl_blocks_dir ex_loader = ''blocks''" "sl_network ex_loader = Bitcoin" using ld by auto
  then have "\<exists>bss. batches_ingested ex_orch bss (ex_state mock_new) (ex_state mock_new) \<and> map fst (concat bss) = run_from 0 0 \<and>
      0 = (if (- 1 :: u32) \<le> bie_height (last ex_chain) then Suc (unat (- 1 :: u32)) - unat (0 :: u32)
         else (Suc (unat (bie_height (last ex_chain))) - unat (0 :: u32)) div READ_AHEAD_BLOCKS * READ_AHEAD_BLOCKS)"
    using streaming_drops_partial_batch [OF main _ _ _ _ _ _ _ _ run] ex_full_stored magic
    by (simp add: ex_chain_def ex_entry_def)
  with run show ?thesis by blast
qed

end
