(* ===== verification/Neo4jLaws.thy ===== *)
theory Neo4jLaws
  imports Neo4j Ingestion
begin

text \<open>
  What the database writer does: the retries of a single statement, the batches of a write,
  the transaction that carries them, and the values that come back from the server. What is
  assumed of the server is stated by \<open>isolated\<close> (an open transaction is invisible until it is
  committed) and \<open>getters_ok\<close> (a row's fields are read back at their types).
\<close>

section \<open>Batches\<close>

lemma chunks_Nil [simp]: "chunks n [] = []"
  by (simp add: chunks.simps)

lemma chunks_step: "0 < n \<Longrightarrow> xs \<noteq> [] \<Longrightarrow> chunks n xs = take n xs # chunks n (drop n xs)"
  by (simp add: chunks.simps [of n xs])

lemma concat_chunks: "0 < n \<Longrightarrow> concat (chunks n xs) = xs"
proof (induction n xs rule: chunks.induct)
  case (1 n xs)
  then show ?case by (cases "xs = []") (simp_all add: chunks_step)
qed

lemma chunks_bounds: "c \<in> set (chunks n xs) \<Longrightarrow> c \<noteq> [] \<and> length c \<le> n"
proof (induction n xs rule: chunks.induct)
  case (1 n xs)
  then show ?case by (cases "xs = [] \<or> n = 0") (auto simp: chunks.simps [of n xs])
qed

lemma length_chunks: "0 < n \<Longrightarrow> length (chunks n xs) = div_ceil (length xs) n"
proof (induction n xs rule: chunks.induct)
  case (1 n xs)
  show ?case
  proof (cases "xs = []")
    case True
    then show ?thesis using 1 by (simp add: div_ceil_def)
  next
    case False
    then have "length (chunks n xs) = Suc (div_ceil (length xs - n) n)" using 1 by (simp add: chunks_step)
    also have "\<dots> = div_ceil (length xs) n"
    proof (cases "length xs \<le> n")
      case True
      then have "length xs + n - 1 = n + (length xs - 1)" using False by (cases xs) auto
      then have "(length xs + n - 1) div n = 1 + (length xs - 1) div n" using 1 by (simp only: div_add_self1)
      moreover have "(length xs - 1) div n = 0" using True False 1 by (cases xs) auto
      ultimately show ?thesis using True 1 by (simp add: div_ceil_def)
    next
      case False
      then have "length xs + n - 1 = (length xs - n + n - 1) + n" by simp
      then have "(length xs + n - 1) div n = (length xs - n + n - 1) div n + 1"
        using 1 by (simp only: div_add_self2)
      then show ?thesis by (simp only: div_ceil_def Suc_eq_plus1)
    qed
    finally show ?thesis .
  qed
qed

text \<open>Statements run one after the other in an open transaction, up to the first failure: how
  many ran without one, and the error.\<close>

fun txn_script :: "('g, 't) neo4j_driver \<Rightarrow> cypher_query list \<Rightarrow> 't \<times> 'g \<Rightarrow> (nat \<times> string) option \<times> 't \<times> 'g" where
  "txn_script D [] s = (None, s)"
| "txn_script D (q # qs) s =
     (case nd_txn_run D q s of
        (Inl e, s') \<Rightarrow> (Some (0, e), s')
      | (Inr _, s') \<Rightarrow>
          (case txn_script D qs s' of
             (Some (n, e), s'') \<Rightarrow> (Some (Suc n, e), s'')
           | (None, s'') \<Rightarrow> (None, s'')))"

definition batch_queries :: "('a list \<Rightarrow> bolt list) \<Rightarrow> string \<Rightarrow> string \<Rightarrow> 'a list list \<Rightarrow> cypher_query list" where
  "batch_queries convert param_name query_str cs =
     map (\<lambda>c. param param_name (BoltList (convert c)) (query query_str)) cs"

definition txn_batch_error :: "string \<Rightarrow> nat \<Rightarrow> nat \<Rightarrow> string \<Rightarrow> werror" where
  "txn_batch_error op i num e =
     TransactionFailed (Msg (op @ '' failed in transaction (batch '' @ nat_to_dec i @ ''/'' @ nat_to_dec num @ ''): '' @ e))"

lemma batch_loop_txn:
  assumes "nw_active_txn w = Some t"
  shows "batch_loop D True q p op conv num i cs w =
    (case txn_script D (batch_queries conv p q cs) (t, nw_graph w) of
       (r, t', g) \<Rightarrow>
         (case r of None \<Rightarrow> Inr () | Some (n, e) \<Rightarrow> Inl (txn_batch_error op (i + n + 1) num e),
          w\<lparr>nw_graph := g, nw_active_txn := Some t'\<rparr>))"
  using assms
proof (induction cs arbitrary: i w t)
  case Nil
  then show ?case by (simp add: batch_queries_def)
next
  case (Cons c cs)
  define qq where "qq = param p (BoltList (conv c)) (query q)"
  obtain r t1 g1 where run: "nd_txn_run D qq (t, nw_graph w) = (r, t1, g1)" by (metis prod_cases3)
  show ?case
  proof (cases r)
    case (Inl e)
    then show ?thesis
      using Cons.prems run
      by (simp add: batch_step_def in_txn_def batch_queries_def txn_batch_error_def and_then_def flip: qq_def)
  next
    case (Inr u)
    define w1 where "w1 = w\<lparr>nw_graph := g1, nw_active_txn := Some t1\<rparr>"
    have step: "batch_step D True qq op (Suc i) num (length c) w = (Inr (), w1)"
      using Cons.prems run Inr by (simp add: batch_step_def in_txn_def w1_def)
    have "nw_active_txn w1 = Some t1" "nw_graph w1 = g1" by (simp_all add: w1_def)
    note ih = Cons.IH [OF this(1), of "i + 1", unfolded this(2) batch_queries_def]
    obtain r2 t2 g2 where rest: "txn_script D (map (\<lambda>c. param p (BoltList (conv c)) (query q)) cs) (t1, g1) = (r2, t2, g2)"
      by (metis prod_cases3)
    have "batch_loop D True q p op conv num i (c # cs) w = batch_loop D True q p op conv num (i + 1) cs w1"
      using step by (simp add: and_then_def flip: qq_def)
    also have "\<dots> = (case r2 of None \<Rightarrow> Inr () | Some (n, e) \<Rightarrow> Inl (txn_batch_error op (i + 1 + n + 1) num e),
        w1\<lparr>nw_graph := g2, nw_active_txn := Some t2\<rparr>)"
      unfolding ih rest prod.case ..
    also have "w1\<lparr>nw_graph := g2, nw_active_txn := Some t2\<rparr> = w\<lparr>nw_graph := g2, nw_active_txn := Some t2\<rparr>"
      by (simp add: w1_def)
    finally have loop: "batch_loop D True q p op conv num i (c # cs) w =
        (case r2 of None \<Rightarrow> Inr () | Some (n, e) \<Rightarrow> Inl (txn_batch_error op (i + 1 + n + 1) num e),
         w\<lparr>nw_graph := g2, nw_active_txn := Some t2\<rparr>)" .
    have script: "txn_script D (batch_queries conv p q (c # cs)) (t, nw_graph w) =
        (map_option (map_prod Suc id) r2, t2, g2)"
      using run Inr rest by (cases r2) (auto simp: batch_queries_def simp flip: qq_def)
    show ?thesis
      unfolding loop script by (cases r2) auto
  qed
qed

text \<open>
  C35. A write inside a transaction sends its records to that transaction and nowhere else, each
  exactly once and in order: the statements are one per consecutive group of at most
  \<open>write_batch_size\<close> records, none is empty, their number is the announced one, they run until
  the first failure, and that failure is reported as a \<open>TransactionFailed\<close> that names its group.
\<close>
theorem batches_reach_transaction_in_order:
  assumes "nw_active_txn w = Some t" and "0 < nw_batch_size w"
  shows "\<exists>groups. concat groups = items \<and> (\<forall>c\<in>set groups. c \<noteq> [] \<and> length c \<le> nw_batch_size w) \<and>
    length groups = div_ceil (length items) (nw_batch_size w) \<and>
    execute_batched D items query_str param_name op convert w =
      (case txn_script D (batch_queries convert param_name query_str groups) (t, nw_graph w) of
         (r, t', g) \<Rightarrow>
           (case r of None \<Rightarrow> Inr () | Some (n, e) \<Rightarrow> Inl (txn_batch_error op (n + 1) (length groups) e),
            w\<lparr>nw_graph := g, nw_active_txn := Some t'\<rparr>))"
proof (intro exI [of _ "chunks (nw_batch_size w) items"] conjI)
  let ?cs = "chunks (nw_batch_size w) items"
  show "concat ?cs = items" using assms(2) by (rule concat_chunks)
  show "\<forall>c\<in>set ?cs. c \<noteq> [] \<and> length c \<le> nw_batch_size w" using chunks_bounds by blast
  show len: "length ?cs = div_ceil (length items) (nw_batch_size w)" using assms(2) by (rule length_chunks)
  have refl: "w\<lparr>nw_active_txn := Some t\<rparr> = w" using assms(1) by (cases w) simp
  show "execute_batched D items query_str param_name op convert w =
      (case txn_script D (batch_queries convert param_name query_str ?cs) (t, nw_graph w) of
         (r, t', g) \<Rightarrow>
           (case r of None \<Rightarrow> Inr () | Some (n, e) \<Rightarrow> Inl (txn_batch_error op (n + 1) (length ?cs) e),
            w\<lparr>nw_graph := g, nw_active_txn := Some t'\<rparr>))"
    using assms refl
    by (simp add: execute_batched_def batch_loop_txn [OF assms(1)] len batch_queries_def split: prod.split option.split)
qed

section \<open>Retries\<close>

text \<open>The outside world before attempt \<open>k\<close>, and what that attempt answers, when all earlier
  ones failed: between two attempts the loop sleeps 200, 400, 800, ... milliseconds.\<close>

fun before_attempt :: "('g, 't) neo4j_driver \<Rightarrow> ('g \<Rightarrow> unit timed \<times> 'g) \<Rightarrow> 'g \<Rightarrow> nat \<Rightarrow> 'g" where
  "before_attempt D f g 0 = g"
| "before_attempt D f g (Suc k) = nd_sleep D (200 * 2 ^ k) (snd (f (before_attempt D f g k)))"

definition attempt_answer :: "('g, 't) neo4j_driver \<Rightarrow> ('g \<Rightarrow> unit timed \<times> 'g) \<Rightarrow> 'g \<Rightarrow> nat \<Rightarrow> unit timed" where
  "attempt_answer D f g k = fst (f (before_attempt D f g k))"

definition after_attempt :: "('g, 't) neo4j_driver \<Rightarrow> ('g \<Rightarrow> unit timed \<times> 'g) \<Rightarrow> 'g \<Rightarrow> nat \<Rightarrow> 'g" where
  "after_attempt D f g k = snd (f (before_attempt D f g k))"

definition retry_error :: "u64 \<Rightarrow> string \<Rightarrow> nat \<Rightarrow> nat \<Rightarrow> nat \<Rightarrow> unit timed \<Rightarrow> werror" where
  "retry_error secs op i num records answer =
     (case answer of Some (Inl e) \<Rightarrow> batch_error op i num records e | _ \<Rightarrow> batch_timeout secs op i num records)"

declare retry_loop.simps [simp del]

lemma batch_error_retryable: "is_retryable (batch_error op i num records e)"
  by (simp add: batch_error_def)

lemma retry_loop_exact:
  assumes "nw_graph w = before_attempt D (f (nw_query_timeout w)) g attempt"
  shows "retry_loop D f op i num records left attempt w =
    (case find (\<lambda>k. attempt_answer D (f (nw_query_timeout w)) g k = Some (Inr ())) [attempt ..< attempt + left + 1] of
       Some k \<Rightarrow> (Inr (), w\<lparr>nw_graph := after_attempt D (f (nw_query_timeout w)) g k\<rparr>)
     | None \<Rightarrow> (Inl (retry_error (nw_query_timeout w) op i num records
                  (attempt_answer D (f (nw_query_timeout w)) g (attempt + left))),
                w\<lparr>nw_graph := after_attempt D (f (nw_query_timeout w)) g (attempt + left)\<rparr>))"
  using assms
proof (induction left arbitrary: attempt w)
  case 0
  obtain a g1 where f: "f (nw_query_timeout w) (nw_graph w) = (a, g1)" by (metis prod.collapse)
  have ans: "attempt_answer D (f (nw_query_timeout w)) g attempt = a"
    "after_attempt D (f (nw_query_timeout w)) g attempt = g1"
    using f 0 by (simp_all add: attempt_answer_def after_attempt_def)
  show ?case
    by (cases a rule: option.exhaust; cases "the a")
      (auto simp: retry_loop.simps [of D f op i num records 0 attempt w] f ans retry_error_def batch_error_retryable split: sum.split)
next
  case (Suc left)
  obtain a g1 where f: "f (nw_query_timeout w) (nw_graph w) = (a, g1)" by (metis prod.collapse)
  have ans: "attempt_answer D (f (nw_query_timeout w)) g attempt = a"
    "after_attempt D (f (nw_query_timeout w)) g attempt = g1"
    using f Suc.prems by (simp_all add: attempt_answer_def after_attempt_def)
  have range: "[attempt ..< attempt + Suc left + 1] = attempt # [Suc attempt ..< Suc attempt + left + 1]"
    by (simp add: upt_conv_Cons)
  show ?case
  proof (cases "a = Some (Inr ())")
    case True
    then show ?thesis
      unfolding retry_loop.simps [of D f op i num records "Suc left" attempt w] f range by (simp add: ans)
  next
    case False
    define w1 where "w1 = w\<lparr>nw_graph := nd_sleep D (retry_delay_ms (attempt + 1)) g1\<rparr>"
    have "retry_loop D f op i num records (Suc left) attempt w = retry_loop D f op i num records left (Suc attempt) w1"
      using False
      by (subst retry_loop.simps, cases a) (auto simp: f w1_def batch_error_retryable Let_def split: sum.split)
    moreover have "nw_graph w1 = before_attempt D (f (nw_query_timeout w1)) g (Suc attempt)"
      using Suc.prems f by (simp add: w1_def retry_delay_ms_def)
    note ih = Suc.IH [OF this]
    have "nw_query_timeout w1 = nw_query_timeout w" by (simp add: w1_def)
    ultimately show ?thesis
      unfolding range using False by (simp add: ih ans) (simp add: w1_def split: option.split)
  qed
qed

text \<open>
  C37. A statement outside a transaction is tried at most \<open>max_retries + 1\<close> times, with pauses of
  200, 400, 800, ... milliseconds: it succeeds exactly with the first attempt that does, and when
  all of them fail or time out the error is the last one's. It always returns.
\<close>
theorem retries_exact:
  "run_with_retry D op f i num records w =
    (let ans = attempt_answer D (f (nw_query_timeout w)) (nw_graph w);
         aft = after_attempt D (f (nw_query_timeout w)) (nw_graph w)
     in case find (\<lambda>k. ans k = Some (Inr ())) [0 ..< nw_max_retries w + 1] of
       Some k \<Rightarrow> (Inr (), w\<lparr>nw_graph := aft k\<rparr>)
     | None \<Rightarrow> (Inl (retry_error (nw_query_timeout w) op i num records (ans (nw_max_retries w))),
                w\<lparr>nw_graph := aft (nw_max_retries w)\<rparr>))"
  unfolding run_with_retry_def Let_def
  by (subst retry_loop_exact [where g = "nw_graph w"]) (simp_all split: option.split)

section \<open>Transactions\<close>

text \<open>What the writer relies on of the server: beginning, running and rolling back a transaction
  change nothing that is committed.\<close>

definition isolated :: "('g, 't) neo4j_driver \<Rightarrow> ('g \<Rightarrow> 'd) \<Rightarrow> bool" where
  "isolated D committed \<longleftrightarrow>
     (\<forall>g t g'. nd_start_txn D g = (Inr t, g') \<longrightarrow> committed g' = committed g) \<and>
     (\<forall>q t g. committed (snd (snd (nd_txn_run D q (t, g)))) = committed g) \<and>
     (\<forall>t g. committed (snd (nd_txn_rollback D t g)) = committed g)"

text \<open>An action that neither reads nor writes the open transaction.\<close>

definition off_txn :: "('g, 't, 'a) neo \<Rightarrow> bool" where
  "off_txn m \<longleftrightarrow> (\<forall>w. \<exists>r g. \<forall>t. m (w\<lparr>nw_active_txn := t\<rparr>) = (r, w\<lparr>nw_graph := g, nw_active_txn := t\<rparr>))"

lemma off_txnD:
  assumes "off_txn m" "m w = (r, w')"
  shows "nw_active_txn w' = nw_active_txn w" "m (w\<lparr>nw_active_txn := t\<rparr>) = (r, w'\<lparr>nw_active_txn := t\<rparr>)"
proof -
  obtain r0 g where all: "m (w\<lparr>nw_active_txn := t\<rparr>) = (r0, w\<lparr>nw_graph := g, nw_active_txn := t\<rparr>)" for t
    using assms(1) unfolding off_txn_def by meson
  have "m w = (r0, w\<lparr>nw_graph := g\<rparr>)" using all [of "nw_active_txn w"] by simp
  then have "r0 = r" "w' = w\<lparr>nw_graph := g\<rparr>" using assms(2) by auto
  with all [of t] show "nw_active_txn w' = nw_active_txn w" "m (w\<lparr>nw_active_txn := t\<rparr>) = (r, w'\<lparr>nw_active_txn := t\<rparr>)"
    by auto
qed

lemma off_txn_ret: "off_txn (ret x)"
  unfolding off_txn_def
proof
  fix w :: "('g, 't) neo4j_writer"
  show "\<exists>r g. \<forall>t. ret x (w\<lparr>nw_active_txn := t\<rparr>) = (r, w\<lparr>nw_graph := g, nw_active_txn := t\<rparr>)"
    by (intro exI [of _ "Inr x"] exI [of _ "nw_graph w"]) simp
qed

lemma off_txn_and_then:
  assumes "off_txn m" "\<And>x. off_txn (f x)"
  shows "off_txn (and_then m f)"
  unfolding off_txn_def
proof
  fix w
  obtain r g where m: "m (w\<lparr>nw_active_txn := t\<rparr>) = (r, w\<lparr>nw_graph := g, nw_active_txn := t\<rparr>)" for t
    using assms(1) unfolding off_txn_def by meson
  show "\<exists>r g. \<forall>t. and_then m f (w\<lparr>nw_active_txn := t\<rparr>) = (r, w\<lparr>nw_graph := g, nw_active_txn := t\<rparr>)"
  proof (cases r)
    case (Inl e)
    then show ?thesis using m by (intro exI [of _ "Inl e"] exI [of _ g]) simp
  next
    case (Inr x)
    obtain r2 g2 where f: "f x ((w\<lparr>nw_graph := g\<rparr>)\<lparr>nw_active_txn := t\<rparr>) = (r2, (w\<lparr>nw_graph := g\<rparr>)\<lparr>nw_graph := g2, nw_active_txn := t\<rparr>)" for t
      using assms(2) [of x] unfolding off_txn_def by meson
    show ?thesis using m f Inr by (intro exI [of _ r2] exI [of _ g2]) simp
  qed
qed

lemma off_txn_retry: "off_txn (run_with_retry D op f i num records :: ('g, 't, unit) neo)"
  unfolding off_txn_def
proof
  fix w :: "('g, 't) neo4j_writer"
  define ans where "ans = attempt_answer D (f (nw_query_timeout w)) (nw_graph w)"
  define aft where "aft = after_attempt D (f (nw_query_timeout w)) (nw_graph w)"
  define hit where "hit = find (\<lambda>k. ans k = Some (Inr ())) [0 ..< nw_max_retries w + 1]"
  define r :: "werror + unit" where
    "r = (if hit = None then Inl (retry_error (nw_query_timeout w) op i num records (ans (nw_max_retries w))) else Inr ())"
  define g where "g = (case hit of Some k \<Rightarrow> aft k | None \<Rightarrow> aft (nw_max_retries w))"
  have "run_with_retry D op f i num records (w\<lparr>nw_active_txn := t\<rparr>) = (r, w\<lparr>nw_graph := g, nw_active_txn := t\<rparr>)" for t
    unfolding run_with_retry_def
    by (subst retry_loop_exact [where g = "nw_graph w"])
      (simp_all add: r_def g_def hit_def ans_def aft_def split: option.split)
  then show "\<exists>r g. \<forall>t. run_with_retry D op f i num records (w\<lparr>nw_active_txn := t\<rparr>) = (r, w\<lparr>nw_graph := g, nw_active_txn := t\<rparr>)"
    by blast
qed

lemma off_txn_write_outputs: "off_txn (neo4j_write_outputs D outputs :: ('g, 't, unit) neo)"
proof -
  have "off_txn (write_outputs_chunk D num i c :: ('g, 't, unit) neo)" for num i c
    by (auto simp: write_outputs_chunk_def Let_def intro: off_txn_and_then off_txn_retry off_txn_ret)
  then have loop: "off_txn (write_outputs_loop D num i cs :: ('g, 't, unit) neo)" for num i cs
  proof (induction cs arbitrary: i)
    case Nil
    have "write_outputs_loop D num i [] = ret ()" by (rule ext) simp
    then show ?case by (simp only: off_txn_ret)
  next
    case (Cons c cs)
    have "write_outputs_loop D num i (c # cs) =
        and_then (write_outputs_chunk D num (i + 1) c) (\<lambda>_. write_outputs_loop D num (i + 1) cs)"
      by (rule ext) simp
    then show ?case using Cons by (simp add: off_txn_and_then)
  qed
  show ?thesis
    unfolding off_txn_def
  proof
    fix w :: "('g, 't) neo4j_writer"
    consider "outputs = []" | "outputs \<noteq> []" "nw_batch_size w = 0" | "outputs \<noteq> []" "nw_batch_size w \<noteq> 0" by blast
    then show "\<exists>r g. \<forall>t. neo4j_write_outputs D outputs (w\<lparr>nw_active_txn := t\<rparr>) = (r, w\<lparr>nw_graph := g, nw_active_txn := t\<rparr>)"
    proof cases
      case 1
      then show ?thesis by (intro exI [of _ "Inr ()"] exI [of _ "nw_graph w"]) (simp add: neo4j_write_outputs_def)
    next
      case 2
      then show ?thesis
        by (intro exI [of _ "Inl (QueryFailed Panicked)"] exI [of _ "nw_graph w"]) (simp add: neo4j_write_outputs_def)
    next
      case 3
      then show ?thesis
        using loop [of "div_ceil (length outputs) (nw_batch_size w)" 0 "chunks (nw_batch_size w) outputs"]
        by (simp add: neo4j_write_outputs_def off_txn_def)
    qed
  qed
qed

text \<open>A batched write in a transaction leaves what is committed alone.\<close>

lemma txn_script_isolated:
  assumes "isolated D committed"
  shows "committed (snd (snd (txn_script D qs (t, g)))) = committed g"
proof (induction qs arbitrary: t g)
  case (Cons q qs)
  obtain r t1 g1 where run: "nd_txn_run D q (t, g) = (r, t1, g1)" by (metis prod_cases3)
  have "committed g1 = committed g" using assms run unfolding isolated_def by (metis snd_conv)
  then show ?case using Cons [of t1 g1] run by (cases r) (auto split: prod.splits option.splits)
qed simp

lemma execute_batched_isolated:
  assumes "isolated D committed" "nw_active_txn w \<noteq> None" "execute_batched D items q p op conv w = (r, w')"
  shows "committed (nw_graph w') = committed (nw_graph w) \<and> nw_active_txn w' \<noteq> None"
proof (cases "items = [] \<or> nw_batch_size w = 0")
  case True
  then show ?thesis using assms(2,3) by (auto simp: execute_batched_def split: if_splits)
next
  case False
  obtain t where t: "nw_active_txn w = Some t" using assms(2) by auto
  let ?qs = "batch_queries conv p q (chunks (nw_batch_size w) items)"
  obtain a t' g where s: "txn_script D ?qs (t, nw_graph w) = (a, t', g)" by (metis prod_cases3)
  have "committed g = committed (nw_graph w)" using txn_script_isolated [OF assms(1), of ?qs t "nw_graph w"] s by simp
  moreover have "w' = w\<lparr>nw_graph := g, nw_active_txn := Some t'\<rparr>"
    using assms(3) False s by (simp add: execute_batched_def t batch_loop_txn [OF t])
  ultimately show ?thesis by simp
qed

lemma begin_isolated:
  assumes "isolated D committed" "neo4j_begin_transaction D w = (Inr (), w1)"
  shows "committed (nw_graph w1) = committed (nw_graph w) \<and> nw_active_txn w1 \<noteq> None"
proof -
  obtain r g where run: "nd_start_txn D (nw_graph w) = (r, g)" by (metis prod.collapse)
  show ?thesis
    using assms run by (cases r) (auto simp: neo4j_begin_transaction_def on_graph_def isolated_def split: if_splits)
qed

lemma rollback_isolated:
  assumes "isolated D committed" "neo4j_rollback_transaction D w2 = (r', w3)"
  shows "committed (nw_graph w3) = committed (nw_graph w2)"
proof (cases "nw_active_txn w2")
  case (Some t)
  obtain r g where run: "nd_txn_rollback D t (nw_graph w2) = (r, g)" by (metis prod.collapse)
  have "committed g = committed (nw_graph w2)" using assms(1) run unfolding isolated_def by (metis snd_conv)
  then show ?thesis
    using assms(2) Some run
    by (cases r) (auto simp: neo4j_rollback_transaction_def end_transaction_def on_graph_def)
qed (use assms(2) in \<open>simp add: neo4j_rollback_transaction_def end_transaction_def\<close>)

text \<open>
  C36. A rollback undoes the \<open>CREATE\<close> writes of outputs and not the \<open>MERGE\<close> ones: between a begin
  and a rollback, \<open>write_outputs_fast\<close> changes nothing that is committed, whereas
  \<open>write_outputs\<close>, which a chunk with duplicate coinbase transactions uses, does to the committed
  graph what it does without a transaction, and the rollback leaves that there.
\<close>
theorem merge_outputs_survive_rollback:
  assumes "isolated D committed" and "neo4j_begin_transaction D w = (Inr (), w1)"
  shows "(\<forall>r w2 r' w3. neo4j_write_outputs_fast D outputs w1 = (r, w2) \<longrightarrow> neo4j_rollback_transaction D w2 = (r', w3) \<longrightarrow>
      committed (nw_graph w3) = committed (nw_graph w)) \<and>
    (\<forall>r w2 r' w3. neo4j_write_outputs D outputs w1 = (r, w2) \<longrightarrow> neo4j_rollback_transaction D w2 = (r', w3) \<longrightarrow>
      neo4j_write_outputs D outputs (w1\<lparr>nw_active_txn := None\<rparr>) = (r, w2\<lparr>nw_active_txn := None\<rparr>) \<and>
      committed (nw_graph w3) = committed (nw_graph w2))"
proof (intro conjI allI impI)
  have start: "committed (nw_graph w1) = committed (nw_graph w)" "nw_active_txn w1 \<noteq> None"
    using begin_isolated [OF assms] by auto
  note rollback = rollback_isolated [OF assms(1)]
  fix r w2 r' w3
  show "committed (nw_graph w3) = committed (nw_graph w)"
    if "neo4j_write_outputs_fast D outputs w1 = (r, w2)" "neo4j_rollback_transaction D w2 = (r', w3)"
    using execute_batched_isolated [OF assms(1) start(2) that(1) [unfolded neo4j_write_outputs_fast_def]]
      rollback [OF that(2)] start(1) by simp
  show "neo4j_write_outputs D outputs (w1\<lparr>nw_active_txn := None\<rparr>) = (r, w2\<lparr>nw_active_txn := None\<rparr>)"
    if "neo4j_write_outputs D outputs w1 = (r, w2)" "neo4j_rollback_transaction D w2 = (r', w3)"
    using off_txnD(2) [OF off_txn_write_outputs that(1)] .
  show "committed (nw_graph w3) = committed (nw_graph w2)"
    if "neo4j_write_outputs D outputs w1 = (r, w2)" "neo4j_rollback_transaction D w2 = (r', w3)"
    using rollback [OF that(2)] .
qed

section \<open>Values that come back\<close>

text \<open>The getters read a field of the type they ask for, and answer an error otherwise.\<close>

definition getters_ok :: "('g, 't) neo4j_driver \<Rightarrow> bool" where
  "getters_ok D \<longleftrightarrow>
     (\<forall>k r s. nd_get_string D k r = Inr s \<longleftrightarrow> map_of r k = Some (BoltString s)) \<and>
     (\<forall>k r i. nd_get_i64 D k r = Inr i \<longleftrightarrow> map_of r k = Some (BoltInteger i)) \<and>
     (\<forall>k r n. nd_get_u64 D k r = Inr n \<longleftrightarrow> map_of r k = Some (BoltInteger (uint n)))"

lemma getters_okD:
  assumes "getters_ok D"
  shows "map_of r k = Some (BoltString s) \<Longrightarrow> nd_get_string D k r = Inr s"
    and "map_of r k = None \<Longrightarrow> \<exists>e. nd_get_string D k r = Inl e"
    and "map_of r k = Some (BoltInteger i) \<Longrightarrow> nd_get_i64 D k r = Inr i"
    and "map_of r k = Some (BoltInteger (uint n)) \<Longrightarrow> nd_get_u64 D k r = Inr n"
  using assms unfolding getters_ok_def by (simp, cases "nd_get_string D k r", auto)

lemma output_map_fields:
  "output_to_bolt_map out =
     [(''outputId'', BoltString (od_output_id out)), (''outputIndex'', u32_as_i64 (od_output_index out)),
      (''txid'', BoltString (od_txid out)), (''amount'', u64_as_i64 (od_amount out)),
      (''scriptPubKey'', BoltString (od_script_pubkey out)), (''scriptType'', BoltString (od_script_type out))] @
     (case od_address out of Some address \<Rightarrow> [(''address'', BoltString address)] | None \<Rightarrow> [])"
  unfolding output_to_bolt_map_def by (rule bolt_map_distinct) (simp split: option.split)


text \<open>The checkpoint node that \<open>UPDATE_CHECKPOINT_QUERY\<close> sets and \<open>GET_CHECKPOINT_QUERY\<close> returns.\<close>

definition checkpoint_node :: "checkpoint_data \<Rightarrow> row" where
  "checkpoint_node cp =
     (let p = \<lambda>name. the (map_of (cq_params (checkpoint_query cp)) name)
      in [(''lastProcessedHeight'', p ''height''), (''lastProcessedHash'', p ''hash''), (''lastProcessedFile'', p ''file''),
          (''lastProcessedFileOffset'', p ''offset''), (''status'', p ''status'')])"

lemma checkpoint_node_fields:
  "checkpoint_node cp =
     [(''lastProcessedHeight'', BoltInteger (cp_last_processed_height cp)),
      (''lastProcessedHash'', BoltString (cp_last_processed_hash cp)),
      (''lastProcessedFile'', BoltString (cp_last_processed_file cp)),
      (''lastProcessedFileOffset'', u64_as_i64 (case cp_last_processed_file_offset cp of Some n \<Rightarrow> n | None \<Rightarrow> 0)),
      (''status'', BoltString (cp_status cp))]"
  by (simp add: checkpoint_node_def checkpoint_query_def param_def query_def)

lemma i32_wraps: "- (2 ^ 31) \<le> i \<Longrightarrow> i < 2 ^ 31 \<Longrightarrow> sint (word_of_int i :: u32) = i"
  by (simp add: signed_of_int signed_take_bit_int_eq_self)


section \<open>The statements and their parameters\<close>

lemma block_map_keys: "map fst (block_to_bolt_map b) = [''height'', ''hash'', ''previousHash'', ''merkleRoot'', ''timestamp'',
    ''bits'', ''difficulty'', ''nonce'', ''version'', ''txCount'', ''size'', ''weight'']"
  unfolding block_to_bolt_map_def by (subst bolt_map_distinct) simp_all

lemma transaction_map_keys: "map fst (transaction_to_bolt_map tx) = [''txid'', ''blockHeight'', ''blockHash'', ''timestamp'',
    ''version'', ''locktime'', ''size'', ''vsize'', ''weight'', ''isCoinbase'', ''totalInput'', ''totalOutput'', ''fee'']"
  unfolding transaction_to_bolt_map_def by (subst bolt_map_distinct) simp_all

lemma output_map_keys: "map fst (output_to_bolt_map out) = [''outputId'', ''outputIndex'', ''txid'', ''amount'', ''scriptPubKey'',
    ''scriptType''] @ (if od_address out = None then [] else [''address''])"
  by (simp add: output_map_fields split: option.split)

lemma input_map_keys: "map fst (input_to_bolt_map i) = [''inputId'', ''inputIndex'', ''txid'', ''previousTxid'',
    ''previousOutputIndex'', ''scriptSig'', ''sequence'', ''witness'', ''previousOutputId'']"
  unfolding input_to_bolt_map_def by (subst bolt_map_distinct) simp_all

lemma performs_map_keys: "map fst (performs_to_bolt_map p) = [''fromAddress'', ''toTxid'', ''inputCount'', ''amountSpent'']"
  unfolding performs_to_bolt_map_def by (subst bolt_map_distinct) simp_all

lemma benefits_map_keys: "map fst (benefits_to_to_bolt_map b) = [''fromTxid'', ''toAddress'', ''outputCount'', ''amountReceived'']"
  unfolding benefits_to_to_bolt_map_def by (subst bolt_map_distinct) simp_all

lemma supplied_keys: "supplied alias q m \<longleftrightarrow> set (fields_read (alias @ ''.'') (CHR '' '') q) \<subseteq> set (map fst m)"
  by (simp add: supplied_def)


section \<open>Examples\<close>

text \<open>A server that keeps the log of the statements it has committed; an open transaction is the
  list of its pending ones.\<close>

definition ex_get_string :: "string \<Rightarrow> row \<Rightarrow> string + string" where
  "ex_get_string k r = (case map_of r k of Some (BoltString s) \<Rightarrow> Inr s | _ \<Rightarrow> Inl ''no string'')"

definition ex_get_i64 :: "string \<Rightarrow> row \<Rightarrow> string + i64" where
  "ex_get_i64 k r = (case map_of r k of Some (BoltInteger i) \<Rightarrow> Inr i | _ \<Rightarrow> Inl ''no integer'')"

definition ex_get_u64 :: "string \<Rightarrow> row \<Rightarrow> string + u64" where
  "ex_get_u64 k r = (case map_of r k of
     Some (BoltInteger i) \<Rightarrow> if 0 \<le> i \<and> i < 2 ^ 64 then Inr (word_of_int i) else Inl ''out of range'' | _ \<Rightarrow> Inl ''no integer'')"

definition ex_driver :: "(cypher_query list, cypher_query list) neo4j_driver" where
  "ex_driver =
     \<lparr> nd_connect = (\<lambda>_. Inr []), nd_run = (\<lambda>q g. (Inr (), g @ [q])), nd_run_timeout = (\<lambda>_ q g. (Some (Inr ()), g @ [q])),
       nd_execute = (\<lambda>q g. (Inr [], g)), nd_execute_timeout = (\<lambda>_ q g. (Some (Inr []), g)),
       nd_start_txn = (\<lambda>g. (Inr [], g)), nd_txn_run = (\<lambda>q (t, g). (Inr (), t @ [q], g)),
       nd_txn_commit = (\<lambda>t g. (Inr (), g @ t)), nd_txn_rollback = (\<lambda>t g. (Inr (), g)),
       nd_sleep = (\<lambda>_ g. g), nd_get_string = ex_get_string, nd_get_i64 = ex_get_i64, nd_get_u64 = ex_get_u64,
       nd_now = (\<lambda>_. 7) \<rparr>"

lemma ex_isolated: "isolated ex_driver id"
  by (simp add: isolated_def ex_driver_def)

lemma ex_getters: "getters_ok ex_driver"
proof -
  have "ex_get_u64 k r = Inr n \<longleftrightarrow> map_of r k = Some (BoltInteger (uint n))" for k r n
  proof -
    have "uint n < 2 ^ 64" using unsigned_less [of n] by simp
    moreover have "uint (word_of_int i :: u64) = i" if "0 \<le> i" "i < 2 ^ 64" for i
      using that by (simp add: unsigned_of_int take_bit_int_eq_self)
    ultimately show ?thesis
      by (auto simp: ex_get_u64_def split: option.splits bolt.splits)
  qed
  then show ?thesis
    by (auto simp: getters_ok_def ex_driver_def ex_get_string_def ex_get_i64_def split: option.splits bolt.splits)
qed

definition ex_writer :: "(cypher_query list, cypher_query list) neo4j_writer" where
  "ex_writer = \<lparr>nw_graph = [], nw_batch_size = 2, nw_max_retries = 3, nw_query_timeout = 120, nw_active_txn = None\<rparr>"

definition ex_output :: "u32 \<Rightarrow> output_data" where
  "ex_output n = \<lparr>od_output_id = ''aa:'' @ u32_to_dec n, od_output_index = n, od_txid = ''aa'', od_amount = - 1,
     od_script_pubkey = [], od_script_type = ''P2PKH'', od_address = Some ''1A''\<rparr>"

lemma batches_reach_transaction_in_order_witness:
  "\<exists>groups. concat groups = [ex_output 0, ex_output 1, ex_output 2] \<and> length groups = 2 \<and>
     neo4j_write_outputs_fast ex_driver [ex_output 0, ex_output 1, ex_output 2] (ex_writer\<lparr>nw_active_txn := Some []\<rparr>) =
       (Inr (), ex_writer\<lparr>nw_active_txn := Some (batch_queries outputs_to_bolt_list ''outputs''
          CREATE_OUTPUTS_WITH_LOCKED_TO_FAST_QUERY groups)\<rparr>)"
proof -
  have script: "txn_script ex_driver qs (t, g) = (None, t @ qs, g)" for qs t g
    by (induction qs arbitrary: t) (simp_all add: ex_driver_def)
  have "nw_active_txn (ex_writer\<lparr>nw_active_txn := Some []\<rparr>) = Some []" "0 < nw_batch_size (ex_writer\<lparr>nw_active_txn := Some []\<rparr>)"
    by (simp_all add: ex_writer_def)
  from batches_reach_transaction_in_order [OF this, of "[ex_output 0, ex_output 1, ex_output 2]" ex_driver
      CREATE_OUTPUTS_WITH_LOCKED_TO_FAST_QUERY "''outputs''" "''write_outputs_fast''" outputs_to_bolt_list]
  show ?thesis
    by (fastforce simp: neo4j_write_outputs_fast_def script ex_writer_def div_ceil_def)
qed

lemma merge_outputs_survive_rollback_witness:
  "length (nw_graph (snd (neo4j_rollback_transaction ex_driver (snd (neo4j_write_outputs ex_driver [ex_output 0]
     (ex_writer\<lparr>nw_active_txn := Some []\<rparr>)))))) = 2 \<and>
   nw_graph (snd (neo4j_rollback_transaction ex_driver (snd (neo4j_write_outputs_fast ex_driver [ex_output 0]
     (ex_writer\<lparr>nw_active_txn := Some []\<rparr>))))) = []"
proof -
  let ?w = "ex_writer\<lparr>nw_active_txn := Some []\<rparr>"
  have start: "neo4j_begin_transaction ex_driver ex_writer = (Inr (), ?w)"
    by (simp add: neo4j_begin_transaction_def on_graph_def ex_driver_def ex_writer_def)
  note th = merge_outputs_survive_rollback [OF ex_isolated start, of "[ex_output 0]"]
  obtain r w2 where m: "neo4j_write_outputs ex_driver [ex_output 0] ?w = (r, w2)" by (metis prod.collapse)
  obtain r' w3 where b: "neo4j_rollback_transaction ex_driver w2 = (r', w3)" by (metis prod.collapse)
  have "nw_graph w3 = nw_graph w2" using th m b by auto
  moreover have "length (nw_graph w2) = 2"
  proof -
    have "length (nw_graph (snd (neo4j_write_outputs ex_driver [ex_output 0] ?w))) = 2" by code_simp
    then show ?thesis using m by simp
  qed
  moreover obtain s v2 where f: "neo4j_write_outputs_fast ex_driver [ex_output 0] ?w = (s, v2)" by (metis prod.collapse)
  obtain s' v3 where c: "neo4j_rollback_transaction ex_driver v2 = (s', v3)" by (metis prod.collapse)
  have "nw_graph v3 = []" using th f c by (auto simp: ex_writer_def)
  ultimately show ?thesis using m b f c by simp
qed




end
