(* ===== verification/Neo4jTxn.thy ===== *)
theory Neo4jTxn
  imports Neo4jLaws IngestionLaws
begin

text \<open>
  The ingestion on the database writer. What is relied on of the server behind the driver is the
  locale \<open>neo4j_server\<close>: a transaction is invisible until it is committed, and a commit that
  fails publishes nothing. Under it the writer satisfies the transaction contract \<open>txn_writer\<close>,
  except for the \<open>MERGE\<close> write of outputs, which bypasses the transaction. \<open>txn_view\<close> is the
  writer that an ingestion without duplicate coinbase transactions sees.
\<close>

section \<open>The server\<close>

locale neo4j_server =
  fixes D :: "('g, 't) neo4j_driver"
    and committed :: "'g \<Rightarrow> 'd"
    and pending :: "'t \<Rightarrow> 'g \<Rightarrow> 'd"
  assumes start: "nd_start_txn D g = (opened, g') \<Longrightarrow> committed g' = committed g \<and> (\<forall>t. opened = Inr t \<longrightarrow> pending t g' = committed g)"
    and run: "nd_txn_run D q (t, g) = (r, t', g') \<Longrightarrow> committed g' = committed g"
    and commit: "nd_txn_commit D t g = (r, g') \<Longrightarrow> committed g' = (case r of Inl _ \<Rightarrow> committed g | Inr _ \<Rightarrow> pending t g)"
    and rollback: "nd_txn_rollback D t g = (r, g') \<Longrightarrow> committed g' = committed g"
    and read: "cq_text q \<in> {LOOKUP_OUTPUTS_BATCH_QUERY, LOOKUP_BLOCK_HASH_QUERY} \<Longrightarrow>
      nd_execute_timeout D secs q g = (answer, g') \<Longrightarrow> committed g' = committed g \<and> pending t g' = pending t g"

text \<open>What the writer's own session sees, and what a rollback would go back to.\<close>

definition session_data :: "('g \<Rightarrow> 'd) \<Rightarrow> ('t \<Rightarrow> 'g \<Rightarrow> 'd) \<Rightarrow> ('g, 't) neo4j_writer \<Rightarrow> 'd" where
  "session_data committed pending w =
     (case nw_active_txn w of None \<Rightarrow> committed (nw_graph w) | Some t \<Rightarrow> pending t (nw_graph w))"

definition restore_point :: "('g \<Rightarrow> 'd) \<Rightarrow> ('g, 't) neo4j_writer \<Rightarrow> 'd option" where
  "restore_point committed w = (if nw_active_txn w = None then None else Some (committed (nw_graph w)))"

section \<open>The writer inside a transaction\<close>

text \<open>A write that is refused outside a transaction; an end of the transaction that is not
  reported.\<close>

definition within_txn :: "('g, 't, 'a) neo \<Rightarrow> ('g, 't, 'a) neo" where
  "within_txn m w = (if nw_active_txn w = None then (Inl (TransactionFailed (Msg ''no active transaction'')), w) else m w)"

definition silent :: "('g, 't, unit) neo \<Rightarrow> ('g, 't, unit) neo" where
  "silent m w = (Inr (), snd (m w))"

definition txn_view :: "('g, 't) neo4j_driver \<Rightarrow> ('g, 't) neo4j_writer graph_writer" where
  "txn_view D =
     (neo4j_graph_writer D)
     \<lparr> gw_write_blocks := \<lambda>bs. within_txn (neo4j_write_blocks_fast D bs),
       gw_write_transactions := \<lambda>ts. within_txn (neo4j_write_transactions_fast D ts),
       gw_write_outputs := \<lambda>os. within_txn (neo4j_write_outputs_fast D os),
       gw_write_has_output := \<lambda>os. within_txn (neo4j_write_has_output_fast D os),
       gw_write_inputs := \<lambda>is. within_txn (neo4j_write_inputs_fast D is),
       gw_write_performs := \<lambda>ps. within_txn (neo4j_write_performs D ps),
       gw_write_benefits_to := \<lambda>bns. within_txn (neo4j_write_benefits_to D bns),
       gw_update_checkpoint := \<lambda>cp. within_txn (neo4j_update_checkpoint D cp),
       gw_write_blocks_fast := \<lambda>bs. within_txn (neo4j_write_blocks_fast D bs),
       gw_write_transactions_fast := \<lambda>ts. within_txn (neo4j_write_transactions_fast D ts),
       gw_write_outputs_fast := \<lambda>os. within_txn (neo4j_write_outputs_fast D os),
       gw_write_has_output_fast := \<lambda>os. within_txn (neo4j_write_has_output_fast D os),
       gw_write_inputs_fast := \<lambda>is. within_txn (neo4j_write_inputs_fast D is),
       gw_rollback_transaction := silent (neo4j_rollback_transaction D) \<rparr>"

lemma txn_view_sel:
  "gw_begin_transaction (txn_view D) = neo4j_begin_transaction D"
  "gw_commit_transaction (txn_view D) = neo4j_commit_transaction D"
  "gw_rollback_transaction (txn_view D) = silent (neo4j_rollback_transaction D)"
  "gw_lookup_outputs_batch (txn_view D) = neo4j_lookup_outputs_batch D"
  "gw_lookup_block_hash (txn_view D) = neo4j_lookup_block_hash D"
  "gw_write_blocks_fast (txn_view D) bs = within_txn (neo4j_write_blocks_fast D bs)"
  "gw_write_transactions_fast (txn_view D) ts = within_txn (neo4j_write_transactions_fast D ts)"
  "gw_write_outputs_fast (txn_view D) os = within_txn (neo4j_write_outputs_fast D os)"
  "gw_write_has_output_fast (txn_view D) os = within_txn (neo4j_write_has_output_fast D os)"
  "gw_write_inputs_fast (txn_view D) is = within_txn (neo4j_write_inputs_fast D is)"
  "gw_write_performs (txn_view D) ps = within_txn (neo4j_write_performs D ps)"
  "gw_write_benefits_to (txn_view D) bns = within_txn (neo4j_write_benefits_to D bns)"
  "gw_update_checkpoint (txn_view D) cp = within_txn (neo4j_update_checkpoint D cp)"
  "gw_write_blocks (txn_view D) bs = within_txn (neo4j_write_blocks_fast D bs)"
  "gw_write_transactions (txn_view D) ts = within_txn (neo4j_write_transactions_fast D ts)"
  "gw_write_outputs (txn_view D) os = within_txn (neo4j_write_outputs_fast D os)"
  "gw_write_has_output (txn_view D) os = within_txn (neo4j_write_has_output_fast D os)"
  "gw_write_inputs (txn_view D) is = within_txn (neo4j_write_inputs_fast D is)"
  by (simp_all add: txn_view_def neo4j_graph_writer_def)

lemma cq_text_simps [simp]: "cq_text (param n v q) = cq_text q" "cq_text (query t) = t"
  by (simp_all add: param_def query_def)

context neo4j_server
begin

lemma server_isolated: "isolated D committed"
  unfolding isolated_def using start run rollback by (metis prod.collapse snd_conv)

lemma in_txn_frame:
  assumes "in_txn err D q t w = (r, w')"
  shows "committed (nw_graph w') = committed (nw_graph w) \<and> nw_active_txn w' \<noteq> None"
  using assms run by (auto simp: in_txn_def split: prod.splits sum.splits)

text \<open>Every write runs inside the transaction and leaves it open.\<close>

lemma keeps_within:
  assumes "\<And>w r w'. nw_active_txn w \<noteq> None \<Longrightarrow> m w = (r, w') \<Longrightarrow>
      committed (nw_graph w') = committed (nw_graph w) \<and> nw_active_txn w' \<noteq> None"
  shows "keeps (\<lambda>_. True) (restore_point committed) (within_txn m)"
  unfolding keeps_def
proof (intro allI impI conjI TrueI)
  fix w
  show "restore_point committed (snd (within_txn m w)) = restore_point committed w"
  proof (cases "nw_active_txn w")
    case (Some t)
    obtain r w' where "m w = (r, w')" by (metis prod.collapse)
    with assms [of w r w'] Some show ?thesis by (auto simp: within_txn_def restore_point_def)
  qed (simp add: within_txn_def)
qed

lemma keeps_batched: "keeps (\<lambda>_. True) (restore_point committed) (within_txn (execute_batched D items q p op conv))"
  by (rule keeps_within) (rule execute_batched_isolated [OF server_isolated])

lemma keeps_checkpoint: "keeps (\<lambda>_. True) (restore_point committed) (within_txn (neo4j_update_checkpoint D cp))"
  by (rule keeps_within) (auto simp: neo4j_update_checkpoint_def run_query_single_def dest: in_txn_frame)

lemma keeps_writes_within:
  "keeps (\<lambda>_. True) (restore_point committed) (within_txn (neo4j_write_blocks_fast D bs))"
  "keeps (\<lambda>_. True) (restore_point committed) (within_txn (neo4j_write_transactions_fast D ts))"
  "keeps (\<lambda>_. True) (restore_point committed) (within_txn (neo4j_write_outputs_fast D os))"
  "keeps (\<lambda>_. True) (restore_point committed) (within_txn (neo4j_write_has_output_fast D os))"
  "keeps (\<lambda>_. True) (restore_point committed) (within_txn (neo4j_write_inputs_fast D is))"
  "keeps (\<lambda>_. True) (restore_point committed) (within_txn (neo4j_write_performs D ps))"
  "keeps (\<lambda>_. True) (restore_point committed) (within_txn (neo4j_write_benefits_to D bns))"
  unfolding neo4j_write_blocks_fast_def neo4j_write_transactions_fast_def neo4j_write_outputs_fast_def
    neo4j_write_has_output_fast_def neo4j_write_inputs_fast_def neo4j_write_performs_def neo4j_write_benefits_to_def
  by (rule keeps_batched)+

text \<open>A read changes nothing.\<close>

lemma read_frame:
  assumes "cq_text q \<in> {LOOKUP_OUTPUTS_BATCH_QUERY, LOOKUP_BLOCK_HASH_QUERY}"
    and "on_graph_timeout elapsed err (\<lambda>secs. nd_execute_timeout D secs q) w = (r, w')"
  shows "nw_active_txn w' = nw_active_txn w \<and> session_data committed pending w' = session_data committed pending w \<and>
    restore_point committed w' = restore_point committed w"
proof -
  obtain a g where x: "nd_execute_timeout D (nw_query_timeout w) q (nw_graph w) = (a, g)" by (metis prod.collapse)
  have "w' = w\<lparr>nw_graph := g\<rparr>"
    using assms(2) x by (auto simp: on_graph_timeout_def split: option.splits sum.splits)
  with read [OF assms(1) x] show ?thesis by (auto simp: session_data_def restore_point_def split: option.split)
qed

lemma lookup_frame:
  "nw_active_txn (snd (neo4j_lookup_outputs_batch D ids w)) = nw_active_txn w \<and>
   session_data committed pending (snd (neo4j_lookup_outputs_batch D ids w)) = session_data committed pending w \<and>
   restore_point committed (snd (neo4j_lookup_outputs_batch D ids w)) = restore_point committed w"
proof (cases "ids = []")
  case False
  let ?q = "param ''outputIds'' (BoltList (map BoltString ids)) (query LOOKUP_OUTPUTS_BATCH_QUERY)"
  obtain r w' where x: "on_graph_timeout (QueryFailed (Msg ''lookup_outputs_batch timed out''))
      (\<lambda>e. QueryFailed (Msg (''lookup_outputs_batch failed: '' @ e))) (\<lambda>secs. nd_execute_timeout D secs ?q) w = (r, w')"
    by (metis prod.collapse)
  have "snd (neo4j_lookup_outputs_batch D ids w) = w'"
    using False x by (cases r) (simp_all add: neo4j_lookup_outputs_batch_def and_then_def result_def)
  with read_frame [OF _ x] show ?thesis by simp
qed (simp add: neo4j_lookup_outputs_batch_def)

lemma hash_frame:
  "nw_active_txn (snd (neo4j_lookup_block_hash D h w)) = nw_active_txn w \<and>
   session_data committed pending (snd (neo4j_lookup_block_hash D h w)) = session_data committed pending w \<and>
   restore_point committed (snd (neo4j_lookup_block_hash D h w)) = restore_point committed w"
proof -
  let ?q = "param ''height'' (u32_as_i64 h) (query LOOKUP_BLOCK_HASH_QUERY)"
  obtain r w' where x: "on_graph_timeout (query_failed (''lookup_block_hash timed out after '' @ nat_to_dec (unat (nw_query_timeout w)) @ ''s (height '' @
           u32_to_dec h @ '')'')) (\<lambda>e. query_failed (''lookup_block_hash failed (height '' @ u32_to_dec h @ ''): '' @ e))
      (\<lambda>secs. nd_execute_timeout D secs ?q) w = (r, w')" by (metis prod.collapse)
  have "snd (neo4j_lookup_block_hash D h w) = w'"
    using x by (cases r) (simp_all add: neo4j_lookup_block_hash_def and_then_def result_def)
  with read_frame [OF _ x] show ?thesis by simp
qed

lemma keeps_read: "keeps (\<lambda>_. True) (restore_point committed) (neo4j_lookup_outputs_batch D ids)"
  by (simp add: keeps_def lookup_frame)

text \<open>The ends of a transaction.\<close>

lemma begin_frame:
  assumes "neo4j_begin_transaction D w = (r, w')"
  shows "session_data committed pending w' = session_data committed pending w \<and>
    (r = Inr () \<longrightarrow> nw_active_txn w = None \<and> restore_point committed w' = Some (session_data committed pending w)) \<and>
    (nw_active_txn w = None \<longrightarrow> r \<noteq> Inr () \<longrightarrow> nw_active_txn w' = None)"
proof (cases "nw_active_txn w")
  case None
  obtain a g where x: "nd_start_txn D (nw_graph w) = (a, g)" by (metis prod.collapse)
  show ?thesis using assms None x start [OF x]
    by (cases a) (auto simp: neo4j_begin_transaction_def on_graph_def session_data_def restore_point_def)
qed (use assms in \<open>auto simp: neo4j_begin_transaction_def\<close>)

lemma commit_frame:
  assumes "neo4j_commit_transaction D w = (r, w')"
  shows "nw_active_txn w' = None \<and> committed (nw_graph w') = (case r of
      Inl _ \<Rightarrow> committed (nw_graph w) | Inr _ \<Rightarrow> session_data committed pending w)"
proof (cases "nw_active_txn w")
  case (Some t)
  obtain a g where x: "nd_txn_commit D t (nw_graph w) = (a, g)" by (metis prod.collapse)
  show ?thesis using assms Some x commit [OF x]
    by (cases a) (auto simp: neo4j_commit_transaction_def end_transaction_def on_graph_def session_data_def)
qed (use assms in \<open>auto simp: neo4j_commit_transaction_def end_transaction_def\<close>)

lemma rollback_frame:
  assumes "neo4j_rollback_transaction D w = (r, w')"
  shows "nw_active_txn w' = None \<and> committed (nw_graph w') = committed (nw_graph w)"
proof (cases "nw_active_txn w")
  case (Some t)
  obtain a g where x: "nd_txn_rollback D t (nw_graph w) = (a, g)" by (metis prod.collapse)
  show ?thesis using assms Some x rollback [OF x]
    by (cases a) (auto simp: neo4j_rollback_transaction_def end_transaction_def on_graph_def)
qed (use assms in \<open>auto simp: neo4j_rollback_transaction_def end_transaction_def\<close>)

end

sublocale neo4j_server \<subseteq> txn: txn_writer "txn_view D" "\<lambda>_. True" "session_data committed pending" "restore_point committed"
proof unfold_locales
  fix w w' :: "('g, 't) neo4j_writer" and e d
  note b = begin_frame and c = commit_frame and r = rollback_frame
  show "session_data committed pending (snd (gw_begin_transaction (txn_view D) w)) = session_data committed pending w"
    using b by (simp add: txn_view_sel) (metis prod.collapse)
  show "restore_point committed w' = Some (session_data committed pending w)" if "gw_begin_transaction (txn_view D) w = (Inr (), w')"
    using b [of w "Inr ()" w'] that by (simp add: txn_view_sel)
  show "session_data committed pending w' = session_data committed pending w" if "gw_commit_transaction (txn_view D) w = (Inr (), w')"
    using c [of w "Inr ()" w'] that by (simp add: txn_view_sel session_data_def)
  show "session_data committed pending w' = d \<and> restore_point committed w' \<in> {None, Some d}"
    if "gw_commit_transaction (txn_view D) w = (Inl e, w')" "restore_point committed w = Some d"
    using c [of w "Inl e" w'] that by (auto simp: txn_view_sel session_data_def restore_point_def split: if_splits)
  show "session_data committed pending w' = (case restore_point committed w of Some d \<Rightarrow> d | None \<Rightarrow> session_data committed pending w)"
    if "gw_rollback_transaction (txn_view D) w = (Inr (), w')"
    using r [of w] that by (cases "neo4j_rollback_transaction D w")
      (auto simp: txn_view_sel silent_def session_data_def restore_point_def split: option.split)
qed (simp_all add: txn_view_sel keeps_writes_within keeps_checkpoint keeps_read lookup_frame hash_frame)

lemma graph_writer_sel:
  "gw_begin_transaction (neo4j_graph_writer D) = neo4j_begin_transaction D"
  "gw_commit_transaction (neo4j_graph_writer D) = neo4j_commit_transaction D"
  "gw_rollback_transaction (neo4j_graph_writer D) = neo4j_rollback_transaction D"
  "gw_lookup_outputs_batch (neo4j_graph_writer D) = neo4j_lookup_outputs_batch D"
  "gw_lookup_block_hash (neo4j_graph_writer D) = neo4j_lookup_block_hash D"
  "gw_write_blocks_fast (neo4j_graph_writer D) = neo4j_write_blocks_fast D"
  "gw_write_transactions_fast (neo4j_graph_writer D) = neo4j_write_transactions_fast D"
  "gw_write_outputs_fast (neo4j_graph_writer D) = neo4j_write_outputs_fast D"
  "gw_write_has_output_fast (neo4j_graph_writer D) = neo4j_write_has_output_fast D"
  "gw_write_inputs_fast (neo4j_graph_writer D) = neo4j_write_inputs_fast D"
  "gw_write_performs (neo4j_graph_writer D) = neo4j_write_performs D"
  "gw_write_benefits_to (neo4j_graph_writer D) = neo4j_write_benefits_to D"
  "gw_update_checkpoint (neo4j_graph_writer D) = neo4j_update_checkpoint D"
  by (simp_all add: neo4j_graph_writer_def)

section \<open>The two writers agree inside a transaction\<close>

text \<open>What does not use the writer does not change with it.\<close>

lemma other_writer:
  "tx_output_data (E\<lparr>or_writer := W\<rparr>) = tx_output_data E" "tx_benefits (E\<lparr>or_writer := W\<rparr>) = tx_benefits E"
  "phase2_accumulate (E\<lparr>or_writer := W\<rparr>) = phase2_accumulate E" "phase3_collect (E\<lparr>or_writer := W\<rparr>) = phase3_collect E"
  "phase3_lookup (E\<lparr>or_writer := W\<rparr>) = phase3_lookup E" "phase3_amounts (E\<lparr>or_writer := W\<rparr>) = phase3_amounts E"
  "tx_input_data (E\<lparr>or_writer := W\<rparr>) = tx_input_data E" "bucket_tasks (E\<lparr>or_writer := W\<rparr>) = bucket_tasks E"
  "phase7_cleanup (E\<lparr>or_writer := W\<rparr>) = phase7_cleanup E" "checkpoint_at (E\<lparr>or_writer := W\<rparr>) = checkpoint_at E"
  "try_save_snapshot (E\<lparr>or_writer := W\<rparr>) = try_save_snapshot E" "write_and_cache (E\<lparr>or_writer := W\<rparr>) = write_and_cache E"
proof -
  show out: "tx_output_data (E\<lparr>or_writer := W\<rparr>) = tx_output_data E" by (intro ext) (simp add: tx_output_data_def)
  show ben: "tx_benefits (E\<lparr>or_writer := W\<rparr>) = tx_benefits E" by (intro ext) (simp add: tx_benefits_def out)
  show "phase2_accumulate (E\<lparr>or_writer := W\<rparr>) = phase2_accumulate E" by (intro ext) (simp add: phase2_accumulate_def out ben)
  show "phase3_collect (E\<lparr>or_writer := W\<rparr>) = phase3_collect E" by (intro ext) (simp add: phase3_collect_def)
  have "supplement (E\<lparr>or_writer := W\<rparr>) = supplement E" by (intro ext) (simp add: supplement_def split: prod.split)
  then show "phase3_lookup (E\<lparr>or_writer := W\<rparr>) = phase3_lookup E" by (intro ext) (simp add: phase3_lookup_def)
  have perf: "performs_of (E\<lparr>or_writer := W\<rparr>) = performs_of E" by (intro ext) (simp add: performs_of_def)
  show "phase3_amounts (E\<lparr>or_writer := W\<rparr>) = phase3_amounts E" unfolding phase3_amounts_def perf by simp
  show "tx_input_data (E\<lparr>or_writer := W\<rparr>) = tx_input_data E" by (intro ext) (simp add: tx_input_data_def)
  show "bucket_tasks (E\<lparr>or_writer := W\<rparr>) = bucket_tasks E" by (intro ext) (simp add: bucket_tasks_def)
  show "phase7_cleanup (E\<lparr>or_writer := W\<rparr>) = phase7_cleanup E" by (intro ext) (simp add: phase7_cleanup_def)
  show "checkpoint_at (E\<lparr>or_writer := W\<rparr>) = checkpoint_at E" by (intro ext) (simp add: checkpoint_at_def)
  show "try_save_snapshot (E\<lparr>or_writer := W\<rparr>) = try_save_snapshot E" by (intro ext) (simp add: try_save_snapshot_def split: option.split)
  have "cache_output (E\<lparr>or_writer := W\<rparr>) = cache_output E" by (intro ext) (simp add: cache_output_def split: option.split)
  then show "write_and_cache (E\<lparr>or_writer := W\<rparr>) = write_and_cache E" by (intro ext) (simp add: write_and_cache_def)
qed

definition same_inside :: "(('g, 't) neo4j_writer, 'c, 'a) orch \<Rightarrow> (('g, 't) neo4j_writer, 'c, 'a) orch \<Rightarrow> bool" where
  "same_inside m m' \<longleftrightarrow> (\<forall>st. nw_active_txn (os_db st) \<noteq> None \<longrightarrow>
     m' st = m st \<and> nw_active_txn (os_db (snd (m st))) \<noteq> None)"

lemma same_insideD:
  "same_inside m m' \<Longrightarrow> nw_active_txn (os_db st) \<noteq> None \<Longrightarrow> m' st = m st"
  "same_inside m m' \<Longrightarrow> nw_active_txn (os_db st) \<noteq> None \<Longrightarrow> m st = (r, st') \<Longrightarrow> nw_active_txn (os_db st') \<noteq> None"
  unfolding same_inside_def by (metis snd_conv)+

lemma same_inside_and_then:
  fixes m m' :: "(('g, 't) neo4j_writer, 'c, 'a) orch"
  assumes "same_inside m m'" "\<And>x. same_inside (f x) (f' x)"
  shows "same_inside (and_then m f) (and_then m' f')"
  unfolding same_inside_def
proof (intro allI impI)
  fix st :: "(('g, 't) neo4j_writer, 'c) orch_state"
  assume active: "nw_active_txn (os_db st) \<noteq> None"
  obtain r st1 where one: "m st = (r, st1)" by (metis prod.collapse)
  note m = same_insideD [OF assms(1) active]
  show "and_then m' f' st = and_then m f st \<and> nw_active_txn (os_db (snd (and_then m f st))) \<noteq> None"
    using one m(1) m(2) [OF one] assms(2) by (cases r) (auto simp: and_then_def same_inside_def)
qed

lemma same_inside_pure:
  "(\<And>st. os_db (snd (m st)) = os_db st) \<Longrightarrow> same_inside m m"
  by (simp add: same_inside_def)

text \<open>A write that does not close the transaction.\<close>

definition stays_open :: "('g, 't, 'a) neo \<Rightarrow> bool" where
  "stays_open m \<longleftrightarrow> (\<forall>w. nw_active_txn w \<noteq> None \<longrightarrow> nw_active_txn (snd (m w)) \<noteq> None)"

lemma same_inside_db: "stays_open m \<Longrightarrow> same_inside (in_db m) (in_db (within_txn m))"
  by (auto simp: same_inside_def in_db_def stays_open_def within_txn_def split: prod.splits)

lemma same_inside_join:
  "stays_open m \<Longrightarrow> same_inside (write_and_cache E m os) (write_and_cache E (within_txn m) os)"
  using same_inside_db [of m] by (auto simp: same_inside_def write_and_cache_def split: prod.splits)

lemma in_txn_open: "nw_active_txn (snd (in_txn err D q t w)) \<noteq> None"
  by (auto simp: in_txn_def split: prod.splits sum.splits)

lemma batch_loop_open: "stays_open (batch_loop D True q p op conv n i cs)"
proof (induction cs arbitrary: i)
  case (Cons c cs)
  show ?case
    unfolding stays_open_def
  proof (intro allI impI)
    fix w :: "('a, 'b) neo4j_writer"
    assume active: "nw_active_txn w \<noteq> None"
    then obtain t where t: "nw_active_txn w = Some t" by auto
    let ?m = "batch_step D True (param p (BoltList (conv c)) (query q)) op (i + 1) n (length c)"
    obtain r w1 where step: "?m w = (r, w1)" by (metis prod.collapse)
    have "nw_active_txn (snd (?m w)) \<noteq> None"
      unfolding batch_step_def by (simp only: t option.case if_True in_txn_open not_False_eq_True)
    then have w1: "nw_active_txn w1 \<noteq> None" unfolding step snd_conv .
    have rest: "nw_active_txn (snd (batch_loop D True q p op conv n (i + 1) cs w1)) \<noteq> None"
      using Cons [of "i + 1"] w1 unfolding stays_open_def by blast
    show "nw_active_txn (snd (batch_loop D True q p op conv n i (c # cs) w)) \<noteq> None"
    proof (cases r)
      case (Inl e)
      then show ?thesis unfolding batch_loop.simps and_then_def step using w1 by simp
    next
      case (Inr u)
      then show ?thesis unfolding batch_loop.simps and_then_def step using rest by simp
    qed
  qed
qed (simp add: stays_open_def)

lemma execute_batched_open: "stays_open (execute_batched D items q p op conv)"
  unfolding stays_open_def
proof (intro allI impI)
  fix w :: "('a, 'b) neo4j_writer"
  assume active: "nw_active_txn w \<noteq> None"
  note loop = batch_loop_open [unfolded stays_open_def, rule_format, OF active]
  show "nw_active_txn (snd (execute_batched D items q p op conv w)) \<noteq> None"
    using active loop [of D q p op conv "div_ceil (length items) (nw_batch_size w)" 0 "chunks (nw_batch_size w) items"]
    by (simp add: execute_batched_def)
qed

lemma writes_open:
  "stays_open (neo4j_write_blocks_fast D bs)" "stays_open (neo4j_write_transactions_fast D ts)"
  "stays_open (neo4j_write_outputs_fast D os)" "stays_open (neo4j_write_has_output_fast D os)"
  "stays_open (neo4j_write_inputs_fast D is)" "stays_open (neo4j_write_performs D ps)"
  "stays_open (neo4j_write_benefits_to D bns)"
  unfolding neo4j_write_blocks_fast_def neo4j_write_transactions_fast_def neo4j_write_outputs_fast_def
    neo4j_write_has_output_fast_def neo4j_write_inputs_fast_def neo4j_write_performs_def neo4j_write_benefits_to_def
  by (rule execute_batched_open)+

lemma checkpoint_open: "stays_open (neo4j_update_checkpoint D cp)"
  using in_txn_open by (auto simp: stays_open_def neo4j_update_checkpoint_def run_query_single_def)

text \<open>The bucket tasks, turn by turn.\<close>

lemma within_txn_active: "nw_active_txn w \<noteq> None \<Longrightarrow> within_txn m w = m w"
  by (auto simp: within_txn_def)

lemma run_step_same:
  "nw_active_txn w \<noteq> None \<Longrightarrow> run_step (txn_view D) s w = run_step (neo4j_graph_writer D) s w"
  by (cases s) (simp_all only: run_step.simps txn_view_sel within_txn_active graph_writer_sel not_False_eq_True)

lemma run_step_open: "stays_open (run_step (neo4j_graph_writer D) s)"
  by (cases s) (simp_all only: run_step.simps graph_writer_sel writes_open)

lemma task_turn_same:
  assumes "nw_active_txn w \<noteq> None"
  shows "task_turn (txn_view D) t w = task_turn (neo4j_graph_writer D) t w \<and>
    nw_active_txn (snd (task_turn (neo4j_graph_writer D) t w)) \<noteq> None"
proof (cases "fst t")
  case Nil
  then show ?thesis using assms by (cases t) simp
next
  case (Cons s ss)
  then obtain e where t: "t = (s # ss, e)" by (cases t) simp
  obtain r w' where run: "run_step (neo4j_graph_writer D) s w = (r, w')" by (metis prod.collapse)
  have "nw_active_txn (snd (run_step (neo4j_graph_writer D) s w)) \<noteq> None"
    using run_step_open [of D s] assms unfolding stays_open_def by blast
  then have w': "nw_active_txn w' \<noteq> None" unfolding run snd_conv .
  then show ?thesis using run_step_same [OF assms, of D s] run by (cases r) (simp_all add: t)
qed

lemma turns_same:
  "nw_active_txn w \<noteq> None \<Longrightarrow>
    fold (turn_of (txn_view D)) is (ts, w) = fold (turn_of (neo4j_graph_writer D)) is (ts, w) \<and>
    nw_active_txn (snd (fold (turn_of (neo4j_graph_writer D)) is (ts, w))) \<noteq> None"
proof (induction "is" arbitrary: ts w)
  case (Cons i "is")
  obtain t' w' where turn: "task_turn (neo4j_graph_writer D) (ts ! i) w = (t', w')" by (metis prod.collapse)
  have same: "task_turn (txn_view D) (ts ! i) w = (t', w')" and w': "nw_active_txn w' \<noteq> None"
    using task_turn_same [OF Cons.prems, of D "ts ! i"] unfolding turn snd_conv by blast+
  show ?case
    using Cons.IH [OF Cons.prems, of ts] Cons.IH [OF w', of "ts[i := t']"] by (simp add: turn_of_def turn same)
qed simp

lemma finish_same:
  assumes "nw_active_txn w \<noteq> None"
  shows "finish_task (txn_view D) t w = finish_task (neo4j_graph_writer D) t w \<and>
    nw_active_txn (snd (finish_task (neo4j_graph_writer D) t w)) \<noteq> None"
proof -
  have "nw_active_txn w \<noteq> None \<Longrightarrow>
      fold (\<lambda>_ (t, w). task_turn (txn_view D) t w) xs (t, w) = fold (\<lambda>_ (t, w). task_turn (neo4j_graph_writer D) t w) xs (t, w) \<and>
      nw_active_txn (snd (fold (\<lambda>_ (t, w). task_turn (neo4j_graph_writer D) t w) xs (t, w))) \<noteq> None" for xs :: "bucket_step list" and t w
  proof (induction xs arbitrary: t w)
    case (Cons x xs)
    obtain t' w' where turn: "task_turn (neo4j_graph_writer D) t w = (t', w')" by (metis prod.collapse)
    have same: "task_turn (txn_view D) t w = (t', w')" and w': "nw_active_txn w' \<noteq> None"
      using task_turn_same [OF Cons.prems, of D t] unfolding turn snd_conv by blast+
    show ?case using Cons.IH [OF w', of t'] by (simp add: turn same)
  qed simp
  with assms show ?thesis by (simp add: finish_task_def)
qed

lemma await_same:
  "nw_active_txn w \<noteq> None \<Longrightarrow> await_all (txn_view D) ts w = await_all (neo4j_graph_writer D) ts w \<and>
    nw_active_txn (snd (snd (await_all (neo4j_graph_writer D) ts w))) \<noteq> None"
proof (induction ts arbitrary: w)
  case (Cons t ts)
  obtain ss e w' where f: "finish_task (neo4j_graph_writer D) t w = ((ss, e), w')" by (metis prod.collapse)
  have same: "finish_task (txn_view D) t w = ((ss, e), w')" and w': "nw_active_txn w' \<noteq> None"
    using finish_same [OF Cons.prems, of D t] unfolding f snd_conv by blast+
  show ?case using Cons.IH [OF w'] w' by (cases e) (simp_all add: f same)
qed simp

lemma write_buckets_same:
  assumes "or_writer E = neo4j_graph_writer D"
  shows "same_inside (write_buckets E ps bs) (write_buckets (E\<lparr>or_writer := txn_view D\<rparr>) ps bs)"
  unfolding same_inside_def
proof (intro allI impI)
  fix st :: "(('a, 'b) neo4j_writer, 'c) orch_state"
  assume active: "nw_active_txn (os_db st) \<noteq> None"
  obtain ts w where turns: "fold (turn_of (neo4j_graph_writer D)) (or_schedule E) (bucket_tasks E ps bs, os_db st) = (ts, w)"
    by (metis prod.collapse)
  note t = turns_same [OF active, of D "or_schedule E" "bucket_tasks E ps bs", unfolded turns snd_conv]
  obtain r rest w' where awaited: "await_all (neo4j_graph_writer D) ts w = (r, rest, w')" by (metis prod.collapse)
  note a = await_same [OF conjunct2 [OF t], of D ts, unfolded awaited snd_conv]
  show "write_buckets (E\<lparr>or_writer := txn_view D\<rparr>) ps bs st = write_buckets E ps bs st \<and>
      nw_active_txn (os_db (snd (write_buckets E ps bs st))) \<noteq> None"
    using turns awaited t a by (simp add: write_buckets_def other_writer assms)
qed

text \<open>A chunk without duplicate coinbase transactions.\<close>

lemma process_chunk_same:
  assumes E: "or_writer E = neo4j_graph_writer D" and bip30: "\<not> has_bip30 chunk"
  shows "same_inside (process_batch_chunk E chunk pf) (process_batch_chunk (E\<lparr>or_writer := txn_view D\<rparr>) chunk pf)"
proof -
  let ?E = "E\<lparr>or_writer := txn_view D\<rparr>"
  note W = graph_writer_sel
  have p1: "same_inside (phase1_blocks E chunk) (phase1_blocks ?E chunk)"
    by (simp add: phase1_blocks_def E txn_view_sel W same_inside_db writes_open)
  have p2: "same_inside (phase2_write E chunk os) (phase2_write ?E chunk os)" for os
    by (simp add: phase2_write_def bip30 E txn_view_sel W other_writer same_inside_join writes_open)
  have p3: "same_inside (phase3_lookup E pf keys) (phase3_lookup E pf keys)" for keys
    by (rule same_inside_pure) (simp add: phase3_lookup_def case_prod_beta)
  have p3w: "same_inside (phase3_write E chunk ts) (phase3_write ?E chunk ts)" for ts
    by (simp add: phase3_write_def bip30 E txn_view_sel W same_inside_db writes_open)
  have p35: "same_inside (in_db (gw_write_has_output_fast (or_writer E) os)) (in_db (gw_write_has_output_fast (or_writer ?E) os))" for os
    by (simp add: E txn_view_sel W same_inside_db writes_open)
  have p4: "same_inside (phase4_inputs E chunk) (phase4_inputs ?E chunk)"
    by (simp add: phase4_inputs_def bip30 E txn_view_sel W other_writer same_inside_db writes_open)
  have p7: "same_inside (phase7_cleanup E chunk) (phase7_cleanup E chunk)"
    by (rule same_inside_pure) (simp add: phase7_cleanup_def in_cache_def)
  have ret: "same_inside (ret x) (ret x)" for x :: 'x
    by (rule same_inside_pure) simp
  have cp: "same_inside (chunk_checkpoint E chunk) (chunk_checkpoint ?E chunk)"
    by (cases "chunk = []") (simp_all add: chunk_checkpoint_def ret E txn_view_sel W other_writer same_inside_db checkpoint_open
        split: prod.split)
  show ?thesis
    unfolding process_batch_chunk_def Let_def case_prod_beta other_writer
    by (intro same_inside_and_then p1 p2 p3 p3w p35 p4 p7 cp ret write_buckets_same [OF E])
qed

lemma begin_opens: "neo4j_begin_transaction D w = (Inr u, w') \<Longrightarrow> nw_active_txn w' \<noteq> None"
  by (auto simp: neo4j_begin_transaction_def on_graph_def split: if_splits prod.splits sum.splits)

lemma chunk_transaction_same:
  assumes E: "or_writer E = neo4j_graph_writer D" and bip30: "\<not> has_bip30 chunk"
  shows "chunk_transaction (E\<lparr>or_writer := txn_view D\<rparr>) chunk pf st = chunk_transaction E chunk pf st"
proof -
  obtain b w1 where beg: "neo4j_begin_transaction D (os_db st) = (b, w1)" by (metis prod.collapse)
  show ?thesis
  proof (cases b)
    case (Inl e)
    then show ?thesis using beg by (simp add: chunk_transaction_def E txn_view_sel graph_writer_sel in_db_def and_then_def)
  next
    case (Inr u)
    have "nw_active_txn (os_db (st\<lparr>os_db := w1\<rparr>)) \<noteq> None" using begin_opens beg Inr by auto
    note same = same_insideD(1) [OF process_chunk_same [OF E bip30, of pf] this]
    show ?thesis
      using beg Inr same
      by (simp add: chunk_transaction_def E txn_view_sel graph_writer_sel in_db_def and_then_def silent_def other_writer
          case_prod_beta split: sum.split prod.split)
  qed
qed

lemma ingest_chunk_same:
  assumes E: "or_writer E = neo4j_graph_writer D" and bip30: "\<not> has_bip30 chunk"
  shows "ingest_chunk (E\<lparr>or_writer := txn_view D\<rparr>) chunk = ingest_chunk E chunk"
proof -
  let ?E = "E\<lparr>or_writer := txn_view D\<rparr>"
  have v: "validate_parent_hash ?E b h = validate_parent_hash E b h" for b h
    by (intro ext) (simp add: validate_parent_hash_def E txn_view_sel graph_writer_sel)
  have sel: "or_writer ?E = txn_view D" "or_lru ?E = or_lru E" "or_btc ?E = or_btc E" by simp_all
  have r: "resolve_prefetch ?E = resolve_prefetch E" by (intro ext) (simp add: resolve_prefetch_def split: prod.split option.split)
  have p: "prefetch ?E chunk = prefetch E chunk"
    unfolding prefetch_def r sel E txn_view_sel graph_writer_sel ..
  have t: "chunk_transaction ?E chunk = chunk_transaction E chunk"
    by (intro ext) (rule chunk_transaction_same [OF assms])
  show ?thesis unfolding ingest_chunk_def v p t ..
qed

lemma ingest_chunks_same:
  assumes E: "or_writer E = neo4j_graph_writer D"
  shows "list_all (\<lambda>c. \<not> has_bip30 c) cs \<Longrightarrow>
    ingest_chunks (E\<lparr>or_writer := txn_view D\<rparr>) cs stats = ingest_chunks E cs stats"
proof (induction cs arbitrary: stats)
  case (Cons c cs)
  then have "\<not> has_bip30 c" and ih: "ingest_chunks (E\<lparr>or_writer := txn_view D\<rparr>) cs = ingest_chunks E cs" by auto
  show ?case by (simp only: ingest_chunks.simps ingest_chunk_same [OF E \<open>\<not> has_bip30 c\<close>] ih)
qed simp

lemma has_bip30_concat: "\<not> has_bip30 (concat cs) \<Longrightarrow> list_all (\<lambda>c. \<not> has_bip30 c) cs"
  by (auto simp: has_bip30_def list_all_iff list_ex_iff)

section \<open>Chunks and batches on the database\<close>

context neo4j_server
begin

text \<open>No chunk leaves a transaction open.\<close>

lemma chunk_closes:
  assumes E: "or_writer E = neo4j_graph_writer D" and "nw_active_txn (os_db st) = None"
    and "ingest_chunk E chunk stats st = (r, st')"
  shows "nw_active_txn (os_db st') = None"
proof -
  let ?v = "case chunk of [] \<Rightarrow> ret () | (height, block, _) # _ \<Rightarrow> validate_parent_hash E block height"
  obtain v st1 where v: "?v st = (v, st1)" by (metis prod.collapse)
  have hash: "nw_active_txn (snd (gw_lookup_block_hash (or_writer E) h w)) = nw_active_txn w" for h w
    using hash_frame by (simp add: E graph_writer_sel)
  have look: "nw_active_txn (snd (gw_lookup_outputs_batch (or_writer E) ids w)) = nw_active_txn w" for ids w
    using lookup_frame by (simp add: E graph_writer_sel)
  have parent: "nw_active_txn (os_db (snd (validate_parent_hash E b h st))) = None" for b h
    using hash [of "h - 1" "os_db st"] assms(2)
    by (cases "gw_lookup_block_hash (or_writer E) (h - 1) (os_db st)")
      (auto simp: validate_parent_hash_def and_then_def in_db_def Let_def split: if_splits sum.splits option.splits)
  have s1: "nw_active_txn (os_db st1) = None"
  proof (cases chunk)
    case (Cons x xs)
    obtain h b f where "x = (h, b, f)" by (cases x)
    then show ?thesis using v parent [of b h] Cons by simp
  qed (use v assms(2) in simp)
  obtain p st2 where p: "prefetch E chunk st1 = (p, st2)" by (metis prod.collapse)
  have s2: "nw_active_txn (os_db st2) = None"
    using p look s1 by (auto simp: prefetch_def Let_def split: if_splits prod.splits sum.splits) (metis snd_conv)+
  have tr: "nw_active_txn (os_db (snd (chunk_transaction E chunk pf st2))) = None" for pf
  proof -
    obtain b w1 where beg: "neo4j_begin_transaction D (os_db st2) = (b, w1)" by (metis prod.collapse)
    show ?thesis
    proof (cases b)
      case (Inl e)
      then have "nw_active_txn w1 = None" using begin_frame [OF beg] s2 by simp
      then show ?thesis using Inl beg by (simp add: chunk_transaction_def E graph_writer_sel in_db_def and_then_def)
    next
      case (Inr u)
      obtain q st3 where q: "process_batch_chunk E chunk pf (st2\<lparr>os_db := w1\<rparr>) = (q, st3)" by (metis prod.collapse)
      obtain c w2 where c: "neo4j_commit_transaction D (os_db st3) = (c, w2)" by (metis prod.collapse)
      obtain c' w3 where c': "neo4j_rollback_transaction D (os_db st3) = (c', w3)" by (metis prod.collapse)
      have "nw_active_txn w2 = None" "nw_active_txn w3 = None" using commit_frame [OF c] rollback_frame [OF c'] by simp_all
      then show ?thesis using beg Inr q c c'
        by (cases q; cases c) (simp_all add: chunk_transaction_def E graph_writer_sel in_db_def and_then_def try_save_snapshot_def
            split: option.split)
    qed
  qed
  show ?thesis
    using assms(3) v p s1 s2 tr [of "projr p"]
    by (cases v; cases p) (auto simp: ingest_chunk_def and_then_def split: prod.splits sum.splits)
qed

lemma chunks_close:
  assumes E: "or_writer E = neo4j_graph_writer D"
  shows "nw_active_txn (os_db st) = None \<Longrightarrow> ingest_chunks E cs stats st = (r, st') \<Longrightarrow> nw_active_txn (os_db st') = None"
proof (induction cs arbitrary: st stats)
  case (Cons c cs)
  obtain r1 st1 where one: "ingest_chunk E c stats st = (r1, st1)" by (metis prod.collapse)
  note c1 = chunk_closes [OF E Cons.prems(1) one]
  show ?case
  proof (cases r1)
    case (Inl e)
    then show ?thesis using Cons.prems(2) one c1 by (simp add: and_then_def)
  next
    case (Inr s)
    then have "ingest_chunks E cs s st1 = (r, st')" using Cons.prems(2) one by (simp add: and_then_def)
    then show ?thesis by (rule Cons.IH [OF c1])
  qed
qed simp

lemma never_rollback_failed: "\<not> rollback_failed (txn_view D) w"
  by (simp add: rollback_failed_def txn_view_sel silent_def)

lemma batch_stops:
  assumes E: "or_writer E = neo4j_graph_writer D" and bip30: "\<not> has_bip30 blocks" and idle: "nw_active_txn (os_db st) = None"
    and run: "ingest_blocks_batch E blocks st = (Inl e, st')"
  shows "\<exists>chunks k stats stats' st1. concat chunks = blocks \<and> k < length chunks \<and>
      ingest_chunks E (take k chunks) stats st = (Inr stats', st1) \<and>
      committed (nw_graph (os_db st')) = committed (nw_graph (os_db st1)) \<and> nw_active_txn (os_db st') = None"
proof -
  let ?ranges = "compute_adaptive_chunks (map (\<lambda>(_, b, _). estimate_block_memory b) blocks) (or_max_transaction_memory_bytes E)"
  let ?chunks = "map (\<lambda>r. slice r blocks) ?ranges"
  let ?stats = "\<lparr>bs_transactions = 0, bs_outputs = 0, bs_inputs = 0, bs_chunks = length ?ranges\<rparr>"
  let ?E = "E\<lparr>or_writer := txn_view D\<rparr>"
  have whole: "concat ?chunks = blocks"
    using adaptive_chunks_spec [of "map (\<lambda>(_, b, _). estimate_block_memory b) blocks" "or_max_transaction_memory_bytes E"]
      slices_cover [of ?ranges blocks] by simp
  have plain: "list_all (\<lambda>c. \<not> has_bip30 c) ?chunks" by (rule has_bip30_concat) (simp only: whole bip30 not_False_eq_True)
  have ran: "ingest_chunks E ?chunks ?stats st = (Inl e, st')" using run by (simp add: ingest_blocks_batch_def Let_def)
  then have "ingest_chunks ?E ?chunks ?stats st = (Inl e, st')" by (simp only: ingest_chunks_same [OF E plain])
  from txn.ingest_chunks_prefix [OF _ TrueI this] obtain k stats' st1 where
    k: "k < length ?chunks" "ingest_chunks ?E (take k ?chunks) ?stats st = (Inr stats', st1)"
    and data: "session_data committed pending (os_db st') = session_data committed pending (os_db st1)"
    using never_rollback_failed by auto
  have "list_all (\<lambda>c. \<not> has_bip30 c) (take k ?chunks)" using plain unfolding list_all_iff by (meson in_set_takeD)
  then have pre: "ingest_chunks E (take k ?chunks) ?stats st = (Inr stats', st1)" using k(2) by (simp only: ingest_chunks_same [OF E])
  have "nw_active_txn (os_db st') = None" "nw_active_txn (os_db st1) = None"
    using chunks_close [OF E idle ran] chunks_close [OF E idle pre] .
  then show ?thesis using whole k(1) pre data by (intro exI [of _ ?chunks] exI [of _ k]) (auto simp: session_data_def)
qed

end


section \<open>Examples\<close>

text \<open>The logging server, and one whose disk is full: it opens transactions and refuses every
  statement in them.\<close>

interpretation ex_server: neo4j_server ex_driver "id :: cypher_query list \<Rightarrow> cypher_query list" "\<lambda>t g. g @ t"
  by unfold_locales (auto simp: ex_driver_def)

definition full_driver :: "(cypher_query list, cypher_query list) neo4j_driver" where
  "full_driver = ex_driver\<lparr>nd_txn_run := \<lambda>q (t, g). (Inl ''disk full'', t, g)\<rparr>"

interpretation full_server: neo4j_server full_driver "id :: cypher_query list \<Rightarrow> cypher_query list" "\<lambda>t g. g @ t"
  by unfold_locales (auto simp: full_driver_def ex_driver_def)

definition full_orch :: "((cypher_query list, cypher_query list) neo4j_writer, (utxo_key, cached_output) ref_lru) orchestrator" where
  "full_orch =
     \<lparr> or_writer = neo4j_graph_writer full_driver, or_lru = ref_lru_ops, or_btc = ex_btc, or_network = Bitcoin,
       or_max_transaction_memory_bytes = 20000, or_now = 0, or_hash_order = (\<lambda>m. m),
       or_string_hash = (\<lambda>s. of_nat (length s)), or_schedule = [], or_crc = ex_crc, or_io_faults = no_faults \<rparr>"

definition full_state :: "((cypher_query list, cypher_query list) neo4j_writer, (utxo_key, cached_output) ref_lru) orch_state" where
  "full_state = \<lparr>os_db = ex_writer, os_cache = ex_cache, os_disk = Map.empty, os_snapshot_path = None, os_detached = []\<rparr>"

definition full_block :: "(u32 \<times> btc_block \<times> string) list" where
  "full_block = [(0, ex_block 1 [ex_coinbase 1], ''f'')]"

lemma full_begin: "neo4j_begin_transaction full_driver ex_writer = (Inr (), ex_writer\<lparr>nw_active_txn := Some []\<rparr>)"
  by (simp add: neo4j_begin_transaction_def on_graph_def full_driver_def ex_driver_def ex_writer_def)

lemma full_write:
  "\<exists>e. neo4j_write_blocks_fast full_driver [b] (ex_writer\<lparr>nw_active_txn := Some []\<rparr>) =
     (Inl e, ex_writer\<lparr>nw_active_txn := Some []\<rparr>)"
proof -
  have "chunks 2 [b] = [[b]]" by (simp add: chunks_step)
  then show ?thesis
    by (simp add: neo4j_write_blocks_fast_def execute_batched_def ex_writer_def batch_step_def in_txn_def full_driver_def
        ex_driver_def and_then_def)
qed

lemma full_run: "\<exists>e st'. ingest_chunk full_orch full_block ex_stats full_state = (Inl e, st')"
proof -
  have keys: "collect_input_keys (or_btc full_orch) full_block = []"
    by (simp add: collect_input_keys_def full_block_def ex_block_def ex_coinbase_def full_orch_def ex_btc_def)
  have begin_w: "gw_begin_transaction (or_writer full_orch) = neo4j_begin_transaction full_driver"
    and write_w: "gw_write_blocks_fast (or_writer full_orch) = neo4j_write_blocks_fast full_driver"
    by (simp_all add: full_orch_def graph_writer_sel)
  let ?b = "phase1_blocks full_orch full_block (full_state\<lparr>os_db := ex_writer\<lparr>nw_active_txn := Some []\<rparr>\<rparr>)"
  obtain e where failed: "neo4j_write_blocks_fast full_driver [from_block (or_btc full_orch) (ex_block 1 [ex_coinbase 1]) 0]
      (ex_writer\<lparr>nw_active_txn := Some []\<rparr>) = (Inl e, ex_writer\<lparr>nw_active_txn := Some []\<rparr>)"
    using full_write by blast
  then have phase1: "fst ?b = Inl e"
    by (simp add: phase1_blocks_def write_w full_block_def in_db_def)
  have "\<exists>st. process_batch_chunk full_orch full_block pf (full_state\<lparr>os_db := ex_writer\<lparr>nw_active_txn := Some []\<rparr>\<rparr>) = (Inl e, st)" for pf
    using phase1 unfolding process_batch_chunk_def by (cases ?b) (simp add: and_then_def)
  moreover have "in_db (neo4j_begin_transaction full_driver) full_state = (Inr (), full_state\<lparr>os_db := ex_writer\<lparr>nw_active_txn := Some []\<rparr>\<rparr>)"
    using full_begin by (simp add: in_db_def full_state_def)
  ultimately have "\<exists>st. chunk_transaction full_orch full_block pf full_state = (Inl e, st)" for pf
    unfolding chunk_transaction_def and_then_def begin_w by (metis (no_types, lifting) old.prod.case sum.simps(5,6))
  then obtain st where txn: "chunk_transaction full_orch full_block Map.empty full_state = (Inl e, st)" by blast
  have pre: "prefetch full_orch full_block full_state = (Inr Map.empty, full_state)"
    by (simp add: prefetch_def keys)
  have parent: "(case full_block of [] \<Rightarrow> ret () | (height, block, _) # _ \<Rightarrow> validate_parent_hash full_orch block height) full_state
      = (Inr (), full_state)"
    by (simp add: full_block_def validate_parent_hash_def)
  have "ingest_chunk full_orch full_block ex_stats full_state = (Inl e, st)"
    by (simp only: ingest_chunk_def and_then_def parent pre txn prod.case sum.case)
  then show ?thesis by blast
qed


end
