(* ===== verification/Neo4jCommit.thy ===== *)
theory Neo4jCommit
  imports Neo4jTxn Committed
begin

text \<open>
  What a successful batch commits to the database. The graph the server holds is taken as the
  record of what it has executed: every record of the list that a creating statement unwinds,
  with the text of the statement. The locale \<open>neo4j_graph_server\<close> adds that law to
  \<open>neo4j_server\<close>; with it the writer, as the ingestion sees it, satisfies \<open>graph_store\<close>.
\<close>

section \<open>Statements and their records\<close>

text \<open>The statements of the batch path that create nodes or relationships from a list of records.
  \<open>HAS_OUTPUT\<close> relationships repeat the outputs, and the checkpoint is held apart.\<close>

definition record_statements :: "string list" where
  "record_statements =
     [CREATE_BLOCKS_FAST_QUERY, CREATE_TRANSACTIONS_FAST_QUERY, CREATE_OUTPUTS_WITH_LOCKED_TO_FAST_QUERY,
      CREATE_INPUTS_FAST_QUERY, CREATE_PERFORMS_BULK_QUERY, CREATE_BENEFITS_TO_BULK_QUERY]"

fun bolt_elements :: "bolt \<Rightarrow> bolt list" where
  "bolt_elements (BoltList bs) = bs"
| "bolt_elements _ = []"

definition sent_records :: "cypher_query \<Rightarrow> (string \<times> bolt) multiset" where
  "sent_records q =
     (if cq_text q \<in> set record_statements
      then image_mset (Pair (cq_text q)) (mset (concat (map (\<lambda>(_, v). bolt_elements v) (cq_params q))))
      else {#})"

text \<open>An item of the reference as the record that creates it.\<close>

fun sent_item :: "graph_item \<Rightarrow> string \<times> bolt" where
  "sent_item (BlockItem b) = (CREATE_BLOCKS_FAST_QUERY, BoltMap (block_to_bolt_map b))"
| "sent_item (TransactionItem t) = (CREATE_TRANSACTIONS_FAST_QUERY, BoltMap (transaction_to_bolt_map t))"
| "sent_item (OutputItem out) = (CREATE_OUTPUTS_WITH_LOCKED_TO_FAST_QUERY, BoltMap (output_to_bolt_map out))"
| "sent_item (InputItem i) = (CREATE_INPUTS_FAST_QUERY, BoltMap (input_to_bolt_map i))"
| "sent_item (PerformsItem p) = (CREATE_PERFORMS_BULK_QUERY, BoltMap (performs_to_bolt_map p))"
| "sent_item (BenefitsItem b) = (CREATE_BENEFITS_TO_BULK_QUERY, BoltMap (benefits_to_to_bolt_map b))"

definition sent_checkpoint :: "checkpoint_data \<Rightarrow> (string \<times> bolt) list" where
  "sent_checkpoint cp = cq_params (checkpoint_query cp)"

lemma other_statements:
  "CREATE_HAS_OUTPUT_FAST_QUERY \<notin> set record_statements" "UPDATE_CHECKPOINT_QUERY \<notin> set record_statements"
  by code_simp+

lemma sent_records_param:
  "sent_records (param p (BoltList bs) (query q)) =
     (if q \<in> set record_statements then image_mset (Pair q) (mset bs) else {#})"
  by (simp add: sent_records_def param_def query_def)

lemma sent_checkpoint_text: "cq_text (checkpoint_query cp) = UPDATE_CHECKPOINT_QUERY"
  by (simp add: checkpoint_query_def)

section \<open>A server that executes what it accepts\<close>

locale neo4j_graph_server = neo4j_server D committed pending
  for D :: "('g, 't) neo4j_driver" and committed :: "'g \<Rightarrow> 'd" and pending :: "'t \<Rightarrow> 'g \<Rightarrow> 'd" +
  fixes graph :: "'d \<Rightarrow> (string \<times> bolt) multiset"
    and stored_cp :: "'d \<Rightarrow> (string \<times> bolt) list option"
  assumes executes: "nd_txn_run D q (t, g) = (Inr u, t', g') \<Longrightarrow> graph (pending t' g') = graph (pending t g) + sent_records q"
    and sets: "nd_txn_run D q (t, g) = (Inr u, t', g') \<Longrightarrow> cq_text q = UPDATE_CHECKPOINT_QUERY \<Longrightarrow>
      stored_cp (pending t' g') = Some (cq_params q)"
begin

abbreviation held :: "('g, 't) neo4j_writer \<Rightarrow> (string \<times> bolt) multiset" where
  "held w \<equiv> graph (session_data committed pending w)"

lemma in_txn_sends:
  assumes "in_txn err D q t w = (Inr u, w')" "nw_active_txn w = Some t"
  shows "held w' = held w + sent_records q" "nw_active_txn w' \<noteq> None"
    "cq_text q = UPDATE_CHECKPOINT_QUERY \<Longrightarrow> stored_cp (session_data committed pending w') = Some (cq_params q)"
proof -
  obtain r t' g where run: "nd_txn_run D q (t, nw_graph w) = (r, t', g)" by (metis prod_cases3)
  then obtain v where r: "r = Inr v" and w': "w' = w\<lparr>nw_graph := g, nw_active_txn := Some t'\<rparr>"
    using assms(1) by (cases r) (simp_all add: in_txn_def)
  note run = run [unfolded r]
  show "held w' = held w + sent_records q" "nw_active_txn w' \<noteq> None"
    using executes [OF run] assms(2) by (simp_all add: w' session_data_def)
  show "stored_cp (session_data committed pending w') = Some (cq_params q)" if "cq_text q = UPDATE_CHECKPOINT_QUERY"
    using sets [OF run that] by (simp add: w' session_data_def)
qed

lemma batch_loop_sends:
  assumes "q \<in> set record_statements"
  shows "nw_active_txn w \<noteq> None \<Longrightarrow> batch_loop D True q p op (map f) n i cs w = (Inr u, w') \<Longrightarrow>
    held w' = held w + image_mset (Pair q) (mset (map f (concat cs)))"
proof (induction cs arbitrary: i w)
  case (Cons c cs)
  let ?q = "param p (BoltList (map f c)) (query q)"
  obtain v w1 where one: "batch_step D True ?q op (i + 1) n (length c) w = (Inr v, w1)"
    and rest: "batch_loop D True q p op (map f) n (i + 1) cs w1 = (Inr u, w')"
    using Cons.prems(2) by (auto simp del: One_nat_def elim: and_then_InrE)
  obtain t where t: "nw_active_txn w = Some t" using Cons.prems(1) by auto
  note s = in_txn_sends [OF one [unfolded batch_step_def t option.case if_True] t]
  show ?case using Cons.IH [OF s(2) rest] s(1) assms by (simp add: sent_records_param ac_simps)
qed simp

lemma batch_loop_silent:
  assumes "q \<notin> set record_statements"
  shows "nw_active_txn w \<noteq> None \<Longrightarrow> batch_loop D True q p op conv n i cs w = (Inr u, w') \<Longrightarrow> held w' = held w"
proof (induction cs arbitrary: i w)
  case (Cons c cs)
  let ?q = "param p (BoltList (conv c)) (query q)"
  obtain v w1 where one: "batch_step D True ?q op (i + 1) n (length c) w = (Inr v, w1)"
    and rest: "batch_loop D True q p op conv n (i + 1) cs w1 = (Inr u, w')"
    using Cons.prems(2) by (auto simp del: One_nat_def elim: and_then_InrE)
  obtain t where t: "nw_active_txn w = Some t" using Cons.prems(1) by auto
  note s = in_txn_sends [OF one [unfolded batch_step_def t option.case if_True] t]
  show ?case using Cons.IH [OF s(2) rest] s(1) assms by (simp add: sent_records_param)
qed simp

text \<open>A batched write sends every record, and only these.\<close>

lemma batched_adds:
  assumes "q \<in> set record_statements" and "\<And>x. sent_item (item x) = (q, f x)"
  shows "adds (\<lambda>_. True) sent_item held (within_txn (execute_batched D items q p op (map f))) (image_mset item (mset items))"
  unfolding adds_def
proof (intro allI impI)
  fix w u w' assume run: "within_txn (execute_batched D items q p op (map f)) w = (Inr u, w')"
  then have active: "nw_active_txn w \<noteq> None" and batch: "execute_batched D items q p op (map f) w = (Inr u, w')"
    by (auto simp: within_txn_def split: if_splits)
  show "held w' = held w + image_mset sent_item (image_mset item (mset items))"
  proof (cases "items = []")
    case False
    then have n: "0 < nw_batch_size w" using batch by (auto simp: execute_batched_def split: if_splits)
    then have "held w' = held w + image_mset (Pair q) (mset (map f (concat (chunks (nw_batch_size w) items))))"
      using batch False active by (intro batch_loop_sends [OF assms(1) active]) (auto simp: execute_batched_def)
    then show ?thesis by (simp add: concat_chunks [OF n] image_mset.compositionality o_def assms(2))
  qed (use batch in \<open>simp add: execute_batched_def\<close>)
qed

lemma batched_adds_none:
  assumes "q \<notin> set record_statements"
  shows "adds (\<lambda>_. True) sent_item held (within_txn (execute_batched D items q p op conv)) {#}"
  unfolding adds_def
proof (intro allI impI)
  fix w u w' assume run: "within_txn (execute_batched D items q p op conv) w = (Inr u, w')"
  then have active: "nw_active_txn w \<noteq> None" and batch: "execute_batched D items q p op conv w = (Inr u, w')"
    by (auto simp: within_txn_def split: if_splits)
  show "held w' = held w + image_mset sent_item {#}"
  proof (cases "items = []")
    case False
    then show ?thesis
      using batch batch_loop_silent [OF assms active] active by (auto simp: execute_batched_def split: if_splits)
  qed (use batch in \<open>simp add: execute_batched_def\<close>)
qed

lemma checkpoint_sets:
  assumes "within_txn (neo4j_update_checkpoint D cp) w = (Inr u, w')"
  shows "held w' = held w" "stored_cp (session_data committed pending w') = Some (sent_checkpoint cp)"
proof -
  obtain t where t: "nw_active_txn w = Some t" using assms by (auto simp: within_txn_def split: if_splits)
  then have run: "in_txn (\<lambda>e. TransactionFailed (Msg (''update_checkpoint failed in transaction: '' @ e))) D (checkpoint_query cp) t w = (Inr u, w')"
    using assms by (simp add: within_txn_def neo4j_update_checkpoint_def run_query_single_def)
  show "held w' = held w" "stored_cp (session_data committed pending w') = Some (sent_checkpoint cp)"
    using in_txn_sends [OF run t] other_statements(2) by (simp_all add: sent_records_def sent_checkpoint_text sent_checkpoint_def)
qed

end

sublocale neo4j_graph_server \<subseteq> store: graph_store "txn_view D" "\<lambda>_. True" "session_data committed pending"
  "restore_point committed" graph sent_item stored_cp sent_checkpoint
proof unfold_locales
  note defs = txn_view_sel neo4j_write_blocks_fast_def neo4j_write_transactions_fast_def neo4j_write_outputs_fast_def
    neo4j_write_has_output_fast_def neo4j_write_inputs_fast_def neo4j_write_performs_def neo4j_write_benefits_to_def
    blocks_to_bolt_list_def [abs_def] transactions_to_bolt_list_def [abs_def] outputs_to_bolt_list_def [abs_def]
    inputs_to_bolt_list_def [abs_def] performs_to_bolt_list_def [abs_def] benefits_to_to_bolt_list_def [abs_def]
  show "adds (\<lambda>_. True) sent_item held (gw_write_blocks_fast (txn_view D) bs) (image_mset BlockItem (mset bs))"
    "adds (\<lambda>_. True) sent_item held (gw_write_blocks (txn_view D) bs) (image_mset BlockItem (mset bs))"
    "adds (\<lambda>_. True) sent_item held (gw_write_transactions_fast (txn_view D) ts) (image_mset TransactionItem (mset ts))"
    "adds (\<lambda>_. True) sent_item held (gw_write_transactions (txn_view D) ts) (image_mset TransactionItem (mset ts))"
    "adds (\<lambda>_. True) sent_item held (gw_write_outputs_fast (txn_view D) os) (image_mset OutputItem (mset os))"
    "adds (\<lambda>_. True) sent_item held (gw_write_outputs (txn_view D) os) (image_mset OutputItem (mset os))"
    "adds (\<lambda>_. True) sent_item held (gw_write_inputs_fast (txn_view D) is) (image_mset InputItem (mset is))"
    "adds (\<lambda>_. True) sent_item held (gw_write_inputs (txn_view D) is) (image_mset InputItem (mset is))"
    "adds (\<lambda>_. True) sent_item held (gw_write_performs (txn_view D) ps) (image_mset PerformsItem (mset ps))"
    "adds (\<lambda>_. True) sent_item held (gw_write_benefits_to (txn_view D) bns) (image_mset BenefitsItem (mset bns))"
    for bs ts os "is" ps bns
    unfolding defs by (rule batched_adds; simp add: record_statements_def)+
  show "adds (\<lambda>_. True) sent_item held (gw_write_has_output_fast (txn_view D) os) {#}"
    "adds (\<lambda>_. True) sent_item held (gw_write_has_output (txn_view D) os) {#}" for os
    unfolding defs by (rule batched_adds_none [OF other_statements(1)])+
  show "adds (\<lambda>_. True) sent_item held (gw_update_checkpoint (txn_view D) cp) {#}" for cp
    unfolding adds_def txn_view_sel using checkpoint_sets(1) by simp
  show "stored_cp (session_data committed pending w') = Some (sent_checkpoint cp)"
    if "gw_update_checkpoint (txn_view D) cp w = (Inr u, w')" for w cp u w'
    using checkpoint_sets(2) that by (simp add: txn_view_sel)
qed

section \<open>A batch on the database\<close>

context neo4j_server
begin

lemma batch_same:
  assumes E: "or_writer E = neo4j_graph_writer D" and bip30: "\<not> has_bip30 blocks"
  shows "ingest_blocks_batch (E\<lparr>or_writer := txn_view D\<rparr>) blocks = ingest_blocks_batch E blocks"
proof -
  let ?ranges = "compute_adaptive_chunks (map (\<lambda>(_, b, _). estimate_block_memory b) blocks) (or_max_transaction_memory_bytes E)"
  have "concat (map (\<lambda>r. slice r blocks) ?ranges) = blocks"
    using adaptive_chunks_spec [of "map (\<lambda>(_, b, _). estimate_block_memory b) blocks" "or_max_transaction_memory_bytes E"]
      slices_cover [of ?ranges blocks] by simp
  then have "list_all (\<lambda>c. \<not> has_bip30 c) (map (\<lambda>r. slice r blocks) ?ranges)"
    using bip30 by (intro has_bip30_concat) simp
  from ingest_chunks_same [OF E this] show ?thesis by (simp add: ingest_blocks_batch_def Let_def)
qed

end

lemma reference_other_writer:
  "chunk_items (E\<lparr>or_writer := W\<rparr>) = chunk_items E" "last_checkpoint (E\<lparr>or_writer := W\<rparr>) = last_checkpoint E"
  "coherent (E\<lparr>or_writer := W\<rparr>) = coherent E" "chunk_outputs (E\<lparr>or_writer := W\<rparr>) = chunk_outputs E"
proof -
  have perf: "performs_of (E\<lparr>or_writer := W\<rparr>) = performs_of E" by (intro ext) (simp add: performs_of_def)
  have "tx_items (E\<lparr>or_writer := W\<rparr>) = tx_items E"
    by (intro ext) (simp add: tx_items_def tx_record_def tx_performs_def perf other_writer)
  then have "block_items (E\<lparr>or_writer := W\<rparr>) = block_items E" by (intro ext) (simp add: block_items_def)
  then show "chunk_items (E\<lparr>or_writer := W\<rparr>) = chunk_items E" by (intro ext) (simp add: chunk_items_def)
  show "last_checkpoint (E\<lparr>or_writer := W\<rparr>) = last_checkpoint E"
    by (intro ext) (simp add: last_checkpoint_def other_writer split: prod.split)
  show "coherent (E\<lparr>or_writer := W\<rparr>) = coherent E" by (intro ext) (simp add: coherent_def)
  show "chunk_outputs (E\<lparr>or_writer := W\<rparr>) = chunk_outputs E" by (intro ext) (simp add: chunk_outputs_def other_writer)
qed

lemma on_ledger_view:
  "or_writer E = neo4j_graph_writer D \<Longrightarrow> on_ledger (E\<lparr>or_writer := txn_view D\<rparr>) ok U blocks = on_ledger E ok U blocks"
  by (simp add: on_ledger_def reference_other_writer txn_view_sel graph_writer_sel)


context neo4j_graph_server
begin

lemma batch_commits:
  assumes E: "or_writer E = neo4j_graph_writer D" and bip30: "\<not> has_bip30 blocks" and idle: "nw_active_txn (os_db st) = None"
    and led: "on_ledger E (\<lambda>_. True) U blocks" and coh: "coherent E U (os_cache st)"
    and run: "ingest_blocks_batch E blocks st = (Inr stats, st')"
  shows "\<exists>chunks aos. concat chunks = blocks \<and> length aos = length chunks \<and>
      graph (committed (nw_graph (os_db st'))) = graph (committed (nw_graph (os_db st))) +
        image_mset sent_item (mset (concat (map (\<lambda>(ao, c). chunk_items E ao c) (zip aos chunks)))) \<and>
      (\<forall>(ao, c) \<in> set (zip aos chunks). ao \<subseteq>\<^sub>m U \<and>
         (set (chunk_keys E c) \<subseteq> dom ao \<longrightarrow> chunk_items E ao c = chunk_items E U c)) \<and>
      (blocks \<noteq> [] \<longrightarrow> stored_cp (committed (nw_graph (os_db st'))) = Some (sent_checkpoint (last_checkpoint E blocks))) \<and>
      coherent E U (os_cache st') \<and> nw_active_txn (os_db st') = None"
proof -
  let ?E = "E\<lparr>or_writer := txn_view D\<rparr>"
  have view: "or_writer ?E = txn_view D" "on_ledger ?E (\<lambda>_. True) U blocks" "coherent ?E U (os_cache st)"
    "ingest_blocks_batch ?E blocks st = (Inr stats, st')"
    using led coh run by (simp_all add: on_ledger_view [OF E] reference_other_writer batch_same [OF E bip30])
  have closed: "nw_active_txn (os_db st') = None"
    using chunks_close [OF E idle] run unfolding ingest_blocks_batch_def Let_def by blast
  have keys: "chunk_keys ?E = chunk_keys E" by (intro ext) (simp add: chunk_keys_def)
  have data: "session_data committed pending (os_db st') = committed (nw_graph (os_db st'))"
    "session_data committed pending (os_db st) = committed (nw_graph (os_db st))"
    by (simp_all add: session_data_def closed idle)
  show ?thesis
    using store.batch_contents [OF view(1) TrueI view(2,3,4), unfolded reference_other_writer keys data] closed by blast
qed

end

section \<open>The property\<close>


section \<open>Example\<close>

text \<open>The logging server holds the records of the statements it has logged.\<close>

definition log_graph :: "cypher_query list \<Rightarrow> (string \<times> bolt) multiset" where
  "log_graph qs = sum_list (map sent_records qs)"

definition log_checkpoint :: "cypher_query list \<Rightarrow> (string \<times> bolt) list option" where
  "log_checkpoint qs = map_option cq_params (List.find (\<lambda>q. cq_text q = UPDATE_CHECKPOINT_QUERY) (rev qs))"

interpretation ex_graph: neo4j_graph_server ex_driver "id :: cypher_query list \<Rightarrow> cypher_query list" "\<lambda>t g. g @ t"
  log_graph log_checkpoint
  by unfold_locales (auto simp: ex_driver_def log_graph_def log_checkpoint_def)

definition log_orch :: "((cypher_query list, cypher_query list) neo4j_writer, (utxo_key, cached_output) ref_lru) orchestrator" where
  "log_orch = full_orch\<lparr>or_writer := neo4j_graph_writer ex_driver\<rparr>"

lemma log_orch_sel:
  "or_writer log_orch = neo4j_graph_writer ex_driver" "or_lru log_orch = ref_lru_ops" "or_btc log_orch = ex_btc"
  "or_schedule log_orch = []" "or_network log_orch = Bitcoin" "or_hash_order log_orch = (\<lambda>m. m)"
  "or_max_transaction_memory_bytes log_orch = 20000"
  by (simp_all add: log_orch_def full_orch_def)

text \<open>What the logging server is asked in a transaction succeeds.\<close>

definition proceeds :: "((cypher_query list, cypher_query list) neo4j_writer, 'c, 'a) orch \<Rightarrow> bool" where
  "proceeds m \<longleftrightarrow> (\<forall>st. nw_active_txn (os_db st) \<noteq> None \<and> 0 < nw_batch_size (os_db st) \<longrightarrow>
     (\<exists>x st'. m st = (Inr x, st') \<and> nw_active_txn (os_db st') \<noteq> None \<and> 0 < nw_batch_size (os_db st')))"

lemma proceeds_and_then:
  assumes "proceeds m" "\<And>x. proceeds (f x)"
  shows "proceeds (and_then m f)"
  unfolding proceeds_def
proof (intro allI impI)
  fix st :: "((cypher_query list, cypher_query list) neo4j_writer, 'a) orch_state"
  assume "nw_active_txn (os_db st) \<noteq> None \<and> 0 < nw_batch_size (os_db st)"
  then obtain x st1 where one: "m st = (Inr x, st1)" and "nw_active_txn (os_db st1) \<noteq> None \<and> 0 < nw_batch_size (os_db st1)"
    using assms(1) unfolding proceeds_def by blast
  then show "\<exists>y st'. and_then m f st = (Inr y, st') \<and> nw_active_txn (os_db st') \<noteq> None \<and> 0 < nw_batch_size (os_db st')"
    using assms(2) [of x] unfolding proceeds_def and_then_def one prod.case sum.case by blast
qed

lemma proceeds_pure:
  assumes "\<And>st. \<exists>x st'. m st = (Inr x, st') \<and> os_db st' = os_db st"
  shows "proceeds m"
  unfolding proceeds_def
proof (intro allI impI)
  fix st :: "((cypher_query list, cypher_query list) neo4j_writer, 'a) orch_state"
  assume ready: "nw_active_txn (os_db st) \<noteq> None \<and> 0 < nw_batch_size (os_db st)"
  obtain x st' where "m st = (Inr x, st')" "os_db st' = os_db st" using assms [of st] by blast
  with ready show "\<exists>x st'. m st = (Inr x, st') \<and> nw_active_txn (os_db st') \<noteq> None \<and> 0 < nw_batch_size (os_db st')"
    by (intro exI [of _ x] exI [of _ st']) simp
qed

lemma log_batched:
  assumes "nw_active_txn w = Some t" "0 < nw_batch_size w"
  shows "\<exists>t'. execute_batched ex_driver items q p op conv w = (Inr (), w\<lparr>nw_active_txn := Some t'\<rparr>)"
proof (cases "items = []")
  case True
  have "w\<lparr>nw_active_txn := Some t\<rparr> = w" using assms(1) by (cases w) simp
  then show ?thesis using True by (metis execute_batched_def)
next
  case False
  have "txn_script ex_driver qs (t, g) = (None, t @ qs, g)" for qs t g
    by (induction qs arbitrary: t) (simp_all add: ex_driver_def)
  then show ?thesis using assms False by (auto simp: execute_batched_def batch_loop_txn [OF assms(1)])
qed

lemma proceeds_batched: "proceeds (in_db (execute_batched ex_driver items q p op conv))"
  unfolding proceeds_def
proof (intro allI impI)
  fix st :: "((cypher_query list, cypher_query list) neo4j_writer, 'c) orch_state"
  assume ready: "nw_active_txn (os_db st) \<noteq> None \<and> 0 < nw_batch_size (os_db st)"
  then obtain t where "nw_active_txn (os_db st) = Some t" by auto
  from log_batched [OF this, of items q p op conv] ready
  show "\<exists>x st'. in_db (execute_batched ex_driver items q p op conv) st = (Inr x, st') \<and>
      nw_active_txn (os_db st') \<noteq> None \<and> 0 < nw_batch_size (os_db st')"
    by (auto simp: in_db_def)
qed

lemmas fast_writes = neo4j_write_blocks_fast_def neo4j_write_transactions_fast_def neo4j_write_outputs_fast_def
  neo4j_write_has_output_fast_def neo4j_write_inputs_fast_def

lemma proceeds_join:
  fixes E :: "((cypher_query list, cypher_query list) neo4j_writer, 'c) orchestrator"
  assumes "proceeds (in_db m :: ((cypher_query list, cypher_query list) neo4j_writer, 'c, unit) orch)"
  shows "proceeds (write_and_cache E m os)"
  unfolding proceeds_def
proof (intro allI impI)
  fix st :: "((cypher_query list, cypher_query list) neo4j_writer, 'c) orch_state"
  assume "nw_active_txn (os_db st) \<noteq> None \<and> 0 < nw_batch_size (os_db st)"
  then obtain w where "m (os_db st) = (Inr (), w)" "nw_active_txn w \<noteq> None" "0 < nw_batch_size w"
    using assms unfolding proceeds_def in_db_def by (fastforce split: prod.splits)
  then show "\<exists>x st'. write_and_cache E m os st = (Inr x, st') \<and> nw_active_txn (os_db st') \<noteq> None \<and> 0 < nw_batch_size (os_db st')"
    by (simp add: write_and_cache_def in_db_def)
qed

lemma await_idle: "await_all W (replicate n ([], None)) w = (Inr (), [], w)"
  by (induction n) (simp_all add: finish_task_def)

lemma proceeds_buckets: "proceeds (write_buckets log_orch [] [])"
proof (rule proceeds_pure)
  have "bucket_tasks log_orch [] [] = replicate 8 ([], None)"
    by (simp add: bucket_tasks_def partition_performs_by_address_def partition_benefits_by_address_def NUM_BUCKETS_def)
  then show "\<exists>x st'. write_buckets log_orch [] [] st = (Inr x, st') \<and> os_db st' = os_db st" for st
    by (simp add: write_buckets_def log_orch_sel await_idle)
qed

lemma full_block_txs: "chunk_txs full_block = [(0, ex_block 1 [ex_coinbase 1], ex_coinbase 1)]"
  by (simp add: chunk_txs_def full_block_def ex_block_def)

lemma full_block_records:
  "concat (map (\<lambda>(h, b, tx). tx_performs log_orch ao tx) (chunk_txs full_block)) = []"
  "concat (map (\<lambda>(h, b, tx). tx_benefits log_orch tx) (chunk_txs full_block)) = []"
  "concat (map (\<lambda>(h, b, tx). tx_keys (or_btc log_orch) tx) (chunk_txs full_block)) = []"
proof -
  have "btc_is_coinbase ex_btc (ex_coinbase 1)" by (simp add: ex_coinbase_def ex_btc_def)
  then show "concat (map (\<lambda>(h, b, tx). tx_performs log_orch ao tx) (chunk_txs full_block)) = []"
    "concat (map (\<lambda>(h, b, tx). tx_keys (or_btc log_orch) tx) (chunk_txs full_block)) = []"
    by (simp_all add: full_block_txs tx_performs_def tx_keys_def log_orch_sel)
  have "ai_address (extract_address ex_btc [0x6A] Bitcoin) = None" by code_simp
  then show "concat (map (\<lambda>(h, b, tx). tx_benefits log_orch tx) (chunk_txs full_block)) = []"
    by (simp add: full_block_txs tx_benefits_def log_orch_sel tx_output_data_def ex_coinbase_def agg_output_def from_output_def Let_def)
qed

lemma log_process: "proceeds (process_batch_chunk log_orch full_block pf)"
proof -
  obtain ks ps where coll: "phase3_collect log_orch full_block = (ks, ps)" by (metis prod.collapse)
  have ks: "ks = []" using phase3_results(1) [OF coll] full_block_records(3) by simp
  have perf: "concat (map snd (map (phase3_amounts log_orch ao ks) ps)) = []" for ao
    using phase3_results(2) [OF coll, of ao] full_block_records(1) [of ao] by (simp add: o_def case_prod_unfold)
  have bip: "\<not> has_bip30 full_block" by (simp add: has_bip30_def full_block_def BIP30_DUPLICATE_HEIGHTS_def)
  have chk: "proceeds (chunk_checkpoint log_orch full_block)"
    unfolding proceeds_def
    by (auto simp: chunk_checkpoint_def full_block_def log_orch_sel graph_writer_sel in_db_def neo4j_update_checkpoint_def
        run_query_single_def in_txn_def ex_driver_def)
  have writes: "proceeds (phase1_blocks log_orch full_block)" "proceeds (phase3_write log_orch full_block ts)"
    "proceeds (in_db (gw_write_has_output_fast (or_writer log_orch) os))" "proceeds (phase4_inputs log_orch full_block)"
    "proceeds (phase2_write log_orch full_block os)" for ts os
    by (simp_all add: phase1_blocks_def phase2_write_def phase3_write_def phase4_inputs_def Let_def bip log_orch_sel graph_writer_sel
        fast_writes proceeds_batched proceeds_join)
  have rest: "proceeds (phase3_lookup log_orch pf [])" "proceeds (phase7_cleanup log_orch full_block)" "proceeds (ret x)" for x
    by (rule proceeds_pure, simp add: phase3_lookup_def phase7_cleanup_def in_cache_def)+
  show ?thesis
    unfolding process_batch_chunk_def ex_graph.store.phase2_results full_block_records(2) coll ks Let_def prod.case
    unfolding perf [unfolded ks]
    by (intro proceeds_and_then writes rest chk proceeds_buckets)
qed

lemma log_batch: "\<exists>stats st'. ingest_blocks_batch log_orch full_block full_state = (Inr stats, st')"
proof -
  let ?w = "ex_writer\<lparr>nw_active_txn := Some []\<rparr>"
  let ?st = "full_state\<lparr>os_db := ?w\<rparr>"
  have begin_w: "in_db (gw_begin_transaction (or_writer log_orch)) full_state = (Inr (), ?st)"
    by (simp add: in_db_def log_orch_sel graph_writer_sel neo4j_begin_transaction_def on_graph_def ex_driver_def ex_writer_def full_state_def)
  have "\<exists>c st. chunk_transaction log_orch full_block pf full_state = (Inr c, st)" for pf
  proof -
    have "nw_active_txn (os_db ?st) \<noteq> None \<and> 0 < nw_batch_size (os_db ?st)" by (simp add: ex_writer_def)
    then obtain c st1 where p: "process_batch_chunk log_orch full_block pf ?st = (Inr c, st1)" and "nw_active_txn (os_db st1) \<noteq> None"
      using log_process [of pf] unfolding proceeds_def by blast
    then obtain t where t: "nw_active_txn (os_db st1) = Some t" by auto
    have "\<exists>w. neo4j_commit_transaction ex_driver (os_db st1) = (Inr (), w)"
      by (simp add: neo4j_commit_transaction_def end_transaction_def t on_graph_def) (simp add: ex_driver_def)
    then obtain w where "in_db (gw_commit_transaction (or_writer log_orch)) st1 = (Inr (), st1\<lparr>os_db := w\<rparr>)"
      by (auto simp: in_db_def log_orch_sel graph_writer_sel)
    then show ?thesis
      by (cases c) (simp add: chunk_transaction_def and_then_def begin_w p try_save_snapshot_def split: option.split)
  qed
  then obtain c st where txn: "chunk_transaction log_orch full_block Map.empty full_state = (Inr c, st)" by blast
  have pre: "prefetch log_orch full_block full_state = (Inr Map.empty, full_state)"
    by (simp add: prefetch_def collect_input_keys_def full_block_def ex_block_def ex_coinbase_def log_orch_sel ex_btc_def)
  have parent: "(case full_block of [] \<Rightarrow> ret () | (height, block, _) # _ \<Rightarrow> validate_parent_hash log_orch block height) full_state
      = (Inr (), full_state)"
    by (simp add: full_block_def validate_parent_hash_def)
  have run: "\<exists>stats st'. ingest_chunk log_orch full_block ex_stats full_state = (Inr stats, st')"
    by (cases c) (simp add: ingest_chunk_def and_then_def parent pre txn)
  have chunks: "compute_adaptive_chunks [estimate_block_memory (ex_block 1 [ex_coinbase 1])] 20000 = [(0, 1)]"
    by (simp add: compute_adaptive_chunks_def chunk_step_def estimate_block_memory_def ex_block_def ex_coinbase_def
        BYTES_PER_BLOCK_def BYTES_PER_TX_def BYTES_PER_OUTPUT_def BYTES_PER_INPUT_def)
  show ?thesis
    using run chunks by (auto simp: ingest_blocks_batch_def log_orch_sel full_block_def slice_def ex_stats_def and_then_def)
qed

lemma log_ledger: "on_ledger log_orch (\<lambda>_. True) (ledger_of ex_orch full_block) full_block"
proof -
  have one: "on_ledger ex_orch (mock_rows_ok []) (ledger_of ex_orch full_block) full_block"
    using ex_one_ledger by (simp add: full_block_def ex_b_def)
  have outs: "chunk_outputs log_orch full_block = chunk_outputs ex_orch full_block"
    by (simp add: chunk_outputs_def tx_output_data_def log_orch_sel ex_orch_def)
  have "rows = []" if "neo4j_lookup_outputs_batch ex_driver ids w = (Inr rows, w')" for ids w rows w'
    using that by (auto simp: neo4j_lookup_outputs_batch_def on_graph_timeout_def and_then_def result_def ex_driver_def split: if_splits)
  then show ?thesis
    using one by (fastforce simp: on_ledger_def outs log_orch_sel ex_orch_sel graph_writer_sel result_map_def)
qed


end
