(* ===== verification/Spec2Isabelle.thy ===== *)
theory Spec2Isabelle
  imports Commands StreamLaws Neo4jLaws Neo4jCommit BlockIndex BlockFile Committed
begin

text \<open>
  Verification library of the Bitcoin chain-graph ingester.

  The program reads the Bitcoin block chain, from the \<open>.blk\<close> files of a node or over its RPC
  interface, and writes it as a graph of blocks, transactions, outputs and addresses to Neo4j.
  A cache of unspent outputs answers most of the lookups that the inputs of a transaction need.
  A checkpoint in the database says up to which block the graph is complete.

  Conventions. \<open>u8\<close>, \<open>u32\<close> and \<open>u64\<close> are words, \<open>i32\<close> and \<open>i64\<close> integers with their casts
  written out, \<open>usize\<close> is \<open>nat\<close>. \<open>Result\<close> is a sum, \<open>Inl\<close> its error; a method is a function from
  the state to a result and the new state, and the state survives an error. Wrap-around is that
  of a release build. A third-party crate or service is a record of functions that the
  definitions take as a parameter, and what is relied on of it is a named hypothesis or the law
  of a locale.

  \<^bold>\<open>Theories and the code they model\<close> (paths under \<open>src/src\<close>)

  \<^item> \<open>Prelude\<close>: integers, byte codecs, UTF-8, hexadecimal and decimal text, the actions and their
    combinators. \<open>Models\<close>: \<open>domain/models.rs\<close>, \<open>writer/error.rs\<close>, and the operations of the
    \<open>bitcoin\<close> crate that are used. \<open>AddressConv\<close>: \<open>parser/address.rs\<close>, \<open>domain/conversions.rs\<close>.
  \<^item> \<open>LruInterface\<close>: the \<open>lru\<close> crate as the locale \<open>lru\<close>, with a reference implementation.
    \<open>UtxoCache\<close>, \<open>CacheLaws\<close>, \<open>CacheStore\<close>, \<open>CacheFile\<close>: \<open>domain/utxo/cache.rs\<close>, its operations,
    its invariant and abstract view, its contract \<open>utxo_store\<close>, and its file format.
  \<^item> \<open>GraphWriter\<close>: the trait of \<open>writer/traits.rs\<close> as a record of operations, with the
    transaction laws as the locale \<open>txn_writer\<close>. \<open>MockWriter\<close>: \<open>writer/mock.rs\<close>, on which the
    locales are interpreted.
  \<^item> \<open>Cypher\<close>: the statement texts of \<open>writer/neo4j/queries.rs\<close> and \<open>schema.rs\<close>. \<open>BoltConv\<close>:
    \<open>writer/neo4j/conversions.rs\<close>. \<open>Neo4j\<close>, \<open>Neo4jLaws\<close>: \<open>writer/neo4j/mod.rs\<close> on a driver that is
    a parameter. \<open>Neo4jTxn\<close>, \<open>Neo4jCommit\<close>: the ingestion on that writer. What is relied on of the
    server is the locale \<open>neo4j_server\<close> (an open transaction is invisible, a failed commit
    publishes nothing, the lookups read) and its extension \<open>neo4j_graph_server\<close> (an accepted
    statement is executed for each of its records); they give \<open>txn_writer\<close> and \<open>graph_store\<close> for
    the writer as the ingestion uses it (\<open>txn_view\<close>).
  \<^item> \<open>Chunking\<close>, \<open>Ingestion\<close>, \<open>Amounts\<close>, \<open>IngestionLaws\<close>, \<open>CommitLaws\<close>, \<open>Committed\<close>, \<open>Recovery\<close>:
    \<open>domain/ingestion.rs\<close> and \<open>domain/shutdown_height.rs\<close>: planning of a batch, the two ingestion
    paths, what they compute and what they store, crash recovery and rollback.
  \<^item> \<open>BlockIndex\<close>, \<open>BlockFile\<close>, \<open>Loader\<close>, \<open>Rpc\<close>, \<open>Zmq\<close>: the files of the same names under
    \<open>parser\<close> (\<open>Loader\<close> is \<open>single_block_loader.rs\<close>, \<open>Rpc\<close> is \<open>rpc_provider.rs\<close>).
  \<^item> \<open>Config\<close>: \<open>config/mod.rs\<close>, \<open>config/loader.rs\<close>. \<open>Live\<close>, \<open>LiveLaws\<close>, \<open>Streaming\<close>,
    \<open>StreamLaws\<close>, \<open>Commands\<close>: \<open>main.rs\<close>: the live mode, the streaming ingestion, and the commands
    that compose everything above on the Neo4j writer.

  \<^bold>\<open>How the parts interact\<close>

  The orchestrator's state (\<open>orch_state\<close>) holds the writer's state, the cache, the disk and the
  bucket tasks that still run. A batch is cut into chunks by a memory estimate; a chunk is one
  database transaction that goes through the phases blocks, outputs, transactions, bucket writes,
  checkpoint. The bucket writes are concurrent: their interleaving is an argument, and so is the
  iteration order of every hash map. \<open>stream_loop\<close> feeds the orchestrator from the loader,
  \<open>catchup\<close> and \<open>follow\<close> from the RPC provider. The loader looks heights up in the block index.

  \<^bold>\<open>What is shown\<close>

  \<^item> Ingestion: a chunk is atomic and a batch stops at a chunk boundary; what a successful batch
    adds is exactly the reference records of its chunks under every schedule; both paths compute
    the same records; amounts, fees and aggregates are the exact sums; a linked batch is accepted
    by a writer that does not fail. The writer enters through \<open>txn_writer\<close> and its extension
    \<open>graph_store\<close>, which the in-memory writer and the database writer provide.
  \<^item> Cache: every operation refines an abstract store that may forget but not invent; lookups
    agree with the ledger; the bound on its size; saving and loading round-trips, a failed save
    leaves the file, a bad file leaves the cache.
  \<^item> Recovery: which blocks crash recovery and rollback remove and where the checkpoint ends,
    through the locale \<open>chain_writer\<close>, which also carries the laws of the live mode.
  \<^item> Input: the variable-length integers, the main chain and its range tables, the block files, the
    located loads, pre-warming, the notifications, the parallel fetch.
  \<^item> Database: a failing batch commits exactly its leading chunks and a successful one exactly the
    reference records, each once, both for batches without the two blocks of the duplicate
    coinbase transactions (their \<open>MERGE\<close> write of outputs is not part of the transaction);
    batches reach the transaction in order, which writes a rollback undoes, retries,
    what is read back of what was stored, and that the statements name only supplied fields.
  \<^item> Live mode and streaming: the fork point, what a reorganisation leaves, that catching up ends
    and ingests consecutive blocks, and which blocks a streaming ingestion ingests.

  \<^bold>\<open>Bounds and fuel\<close>

  Retries and reconnections are structural on the remaining attempts, walks over heights on the
  list of heights. \<open>catchup\<close> and \<open>realtime\<close> are the loops that may run for ever; they take fuel
  and answer \<open>None\<close> when it is used up. \<open>T + 2\<close> turns are shown to be enough for \<open>catchup\<close> when
  the node's tip stays at or below \<open>T < 2 ^ 32 - 1\<close>. \<open>realtime\<close> ends only by a shutdown, a height
  limit or errors, and nothing is claimed about its end. The shutdown token is the number of
  times it will still be seen uncancelled.

  \<^bold>\<open>Not modelled\<close>

  Log lines, printed texts, rates and percentages in floating point, and the log set-up: no state
  of the program depends on them (the difficulty of a block, which is stored, is kept as the
  expression that computes it). The parsing of the command line and of TOML, the HTTP client,
  sockets, LevelDB, the consensus decoder, script and address codecs of the \<open>bitcoin\<close> crate, the
  hash functions, and the meaning of Cypher statements are parameters. Locks are not modelled:
  the cache is used by one task at a time, and the bucket tasks share only the writer. A node
  whose tip is the largest 32-bit height, where \<open>height += 1\<close> wraps around, is outside the model
  of \<open>follow\<close>.
\<close>

end
